(* ===== verification/Prelude.thy ===== *)
theory Prelude
  imports Main "HOL-Library.Word"
begin

text \<open>
  Shared vocabulary of the development: the machine types the C sources use, big-endian
  packing of bytes into words, byte-wise exclusive or of buffers, C's copying of a run of
  bytes into a buffer, and the generic facts about lists and words that the component
  theories rely on.
\<close>

unbundle bit_operations_syntax

type_synonym u8 = "8 word"
type_synonym u32 = "32 word"
type_synonym u64 = "64 word"
type_synonym bytes = "8 word list"

named_theorems len_simps \<open>lengths of the buffers the operations return\<close>

subsection \<open>Bits\<close>

lemma bit_255_iff: "bit (255 :: int) n \<longleftrightarrow> n < 8"
proof -
  have "(255 :: int) = mask 8" by (simp add: mask_eq_exp_minus_1)
  then show ?thesis by (simp only: bit_mask_iff) simp
qed

lemma bit_15_iff: "bit (15 :: int) n \<longleftrightarrow> n < 4"
proof -
  have "(15 :: int) = mask 4" by (simp add: mask_eq_exp_minus_1)
  then show ?thesis by (simp only: bit_mask_iff) simp
qed

lemma xor_self_left [simp]: "(a :: 'a::len word) XOR (a XOR b) = b"
  by (simp flip: xor.assoc)

lemma xor_cancel_right [simp]: "((a :: 'a::len word) XOR b) XOR b = a"
  by (simp add: xor.assoc)

lemma word_xor_eq_0_iff [simp]: "(a :: 'a::len word) XOR b = 0 \<longleftrightarrow> a = b"
proof
  assume "a XOR b = 0"
  then have "(a XOR b) XOR b = b" by simp
  then show "a = b" by simp
qed simp

lemma unat_plus_one:
  assumes "x < y"
  shows "unat (x + 1 :: 'a::len word) = Suc (unat x)"
proof -
  have "unat y < 2 ^ LENGTH('a)" by simp
  then have "Suc (unat x) < 2 ^ LENGTH('a)"
    using assms unfolding word_less_nat_alt by linarith
  then show ?thesis by (simp add: unat_word_ariths(1))
qed

subsection \<open>Big-endian words\<close>

definition be32 :: "u8 \<Rightarrow> u8 \<Rightarrow> u8 \<Rightarrow> u8 \<Rightarrow> u32" where
  "be32 a b c d =
     push_bit 24 (ucast a) OR push_bit 16 (ucast b) OR push_bit 8 (ucast c) OR ucast d"

definition byte_at :: "nat \<Rightarrow> u32 \<Rightarrow> u8" where
  "byte_at k w = ucast (drop_bit k w AND 0xFF)"

lemma bit_be32:
  "bit (be32 a b c d) n =
     (if n < 8 then bit d n else if n < 16 then bit c (n - 8)
      else if n < 24 then bit b (n - 16) else n < 32 \<and> bit a (n - 24))"
  by (auto simp: be32_def bit_simps dest: bit_imp_le_length)

lemma byte_at_be32 [simp]:
  "byte_at 24 (be32 a b c d) = a" "byte_at 16 (be32 a b c d) = b"
  "byte_at 8 (be32 a b c d) = c" "byte_at 0 (be32 a b c d) = d"
  by (rule bit_word_eqI; auto simp: byte_at_def bit_be32 bit_simps bit_255_iff)+

lemma be32_byte_at [simp]:
  "be32 (byte_at 24 w) (byte_at 16 w) (byte_at 8 w) (byte_at 0 w) = w"
  by (rule bit_word_eqI; auto simp: byte_at_def bit_be32 bit_simps bit_255_iff)

subsection \<open>Division of C integers\<close>

text \<open>C division rounds towards zero; the remainder has the sign of the dividend.\<close>

definition cdiv :: "int \<Rightarrow> int \<Rightarrow> int" where
  "cdiv a b = sgn a * sgn b * (\<bar>a\<bar> div \<bar>b\<bar>)"

definition crem :: "int \<Rightarrow> int \<Rightarrow> int" where
  "crem a b = a - cdiv a b * b"

lemma cdiv_pos: "0 \<le> a \<Longrightarrow> 0 < b \<Longrightarrow> cdiv a b = a div b"
  by (auto simp: cdiv_def sgn_if)

lemma crem_pos: "0 \<le> a \<Longrightarrow> 0 < b \<Longrightarrow> crem a b = a mod b"
  by (simp add: crem_def cdiv_pos minus_div_mult_eq_mod)

subsection \<open>Lists as arrays\<close>

lemma upt_conv_4 [simp]: "[0..<4] = [0, 1, 2, 3]"
  by code_simp

lemma list16_cases:
  assumes "length xs = 16"
  obtains a b c d e f g h i j k l m n p q where "xs = [a,b,c,d,e,f,g,h,i,j,k,l,m,n,p,q]"
  using assms by (auto simp: length_Suc_conv eval_nat_numeral)

lemma block_list_ex:
  assumes "length xs = 16 * m"
  obtains bs where "xs = concat bs" and "length bs = m" and "\<forall>b \<in> set bs. length b = 16"
  using assms
proof (induction m arbitrary: xs thesis)
  case (Suc m)
  from Suc.prems(2) have "length (drop 16 xs) = 16 * m" by simp
  then obtain bs where bs: "drop 16 xs = concat bs" "length bs = m" "\<forall>b \<in> set bs. length b = 16"
    using Suc.IH by blast
  show ?case
  proof (rule Suc.prems(1) [of "take 16 xs # bs"])
    show "xs = concat (take 16 xs # bs)" using bs(1) by (metis append_take_drop_id concat.simps(2))
  qed (use bs Suc.prems(2) in auto)
qed simp

lemma length_concat_blocks: "\<forall>b \<in> set bs. length b = n \<Longrightarrow> length (concat bs) = n * length bs"
  by (induction bs) auto

subsection \<open>Copying into a buffer\<close>

text \<open>\<open>memcpy(buf + off, data, n)\<close> for \<open>data\<close> of \<open>n\<close> bytes inside \<open>buf\<close>.\<close>

definition buf_write :: "'a list \<Rightarrow> nat \<Rightarrow> 'a list \<Rightarrow> 'a list" where
  "buf_write buf off data = take off buf @ data @ drop (off + length data) buf"

lemma length_buf_write [len_simps, simp]:
  "off + length data \<le> length buf \<Longrightarrow> length (buf_write buf off data) = length buf"
  by (simp add: buf_write_def)

lemma buf_write_append [simp]:
  "length pre = off \<Longrightarrow> buf_write (pre @ buf) off data = pre @ data @ drop (length data) buf"
  by (simp add: buf_write_def)

lemma buf_write_0: "buf_write buf 0 data = data @ drop (length data) buf"
  by (simp add: buf_write_def)

text \<open>The bytes \<open>buf[off .. off + n - 1]\<close>.\<close>

definition slice :: "nat \<Rightarrow> nat \<Rightarrow> 'a list \<Rightarrow> 'a list" where
  "slice off n buf = take n (drop off buf)"

lemma length_slice [len_simps, simp]: "off + n \<le> length buf \<Longrightarrow> length (slice off n buf) = n"
  by (simp add: slice_def)

lemma slice_append [simp]:
  "length pre = off \<Longrightarrow> slice off n (pre @ xs) = take n xs"
  by (simp add: slice_def)

lemma slice_take [simp]: "off + n \<le> m \<Longrightarrow> slice off n (take m xs) = slice off n xs"
  by (simp add: slice_def drop_take min_def)

lemma slice_cong: "take m xs = take m ys \<Longrightarrow> off + n \<le> m \<Longrightarrow> slice off n xs = slice off n ys"
  by (metis slice_take)

subsection \<open>Accesses outside an array\<close>

text \<open>
  C does not check array bounds. A store outside an array of the model changes nothing the
  model sees; it is recorded, with the array's name and the index, in a list of faults, and
  the computation goes on as the machine does when the stray access hits no live object.
  An access through a null pointer stops the program.
\<close>

datatype fault = OutOfBounds string int | NullDeref string | UseAfterFree string | DoubleFree string | Deadlock string | Diverges string

definition arr_get :: "u8 list \<Rightarrow> int \<Rightarrow> u8" where
  "arr_get a i = (if 0 \<le> i \<and> i < int (length a) then a ! nat i else 0)"

fun arr_set :: "string \<Rightarrow> int \<Rightarrow> u8 \<Rightarrow> fault list \<times> bytes \<Rightarrow> fault list \<times> bytes" where
  "arr_set nm i v (fs, a) =
     (if 0 \<le> i \<and> i < int (length a) then (fs, a[nat i := v])
      else (fs @ [OutOfBounds nm i], a))"

subsection \<open>Binary logarithms\<close>

text \<open>The number of bits of a number, and the kernel's \<open>ilog2\<close>, which is -1 for 0.\<close>

fun bit_count :: "nat \<Rightarrow> nat" where
  "bit_count a = (if a = 0 then 0 else Suc (bit_count (a div 2)))"

declare bit_count.simps [simp del]

definition ilog2 :: "nat \<Rightarrow> int" where
  "ilog2 n = int (bit_count n) - 1"

lemma less_bit_count: "a < 2 ^ bit_count a"
proof (induction a rule: bit_count.induct)
  case (1 a)
  then show ?case by (subst bit_count.simps) (cases "a = 0"; simp; linarith)
qed

lemma bit_count_pos: "0 < a \<Longrightarrow> 0 < bit_count a"
  by (subst bit_count.simps) simp

lemma bit_count_le: "0 < a \<Longrightarrow> 2 ^ (bit_count a - 1) \<le> a"
proof (induction a rule: bit_count.induct)
  case (1 a)
  show ?case
  proof (cases "a div 2 = 0")
    case True
    then have "a = 1" using 1(2) by auto
    then show ?thesis by (simp add: bit_count.simps)
  next
    case False
    then have "bit_count a = Suc (bit_count (a div 2))" "0 < bit_count (a div 2)"
      using 1(2) by (simp_all add: bit_count.simps [of a] bit_count_pos)
    moreover have "2 ^ (bit_count (a div 2) - 1) \<le> a div 2" using 1 False by simp
    ultimately show ?thesis by (cases "bit_count (a div 2)") auto
  qed
qed

end
