(* ===== verification/SM4.thy ===== *)
theory SM4
  imports Prelude
begin

text \<open>
  The SM4 block cipher of \<^verbatim>\<open>lib/gm/source/SM4.c\<close>: its tables, the key schedule, the
  32-round encryption and decryption of a 16-byte block and the self check against the
  standard's test vector. The arrays \<open>K[36]\<close> and \<open>X[36]\<close>, which the C loops fill from
  left to right, are lists that grow by one word per round; \<open>unsigned int\<close> is
  \<^typ>\<open>u32\<close> and \<open>unsigned char\<close> is \<^typ>\<open>u8\<close>.

  The theory ends with the interface the modes of operation use: the locale
  \<open>block_cipher\<close> (lengths are kept, decryption inverts encryption and conversely), which
  SM4 satisfies.
\<close>

subsection \<open>Tables\<close>

definition SM4_CK :: "u32 list" where
  "SM4_CK = [
    0x00070e15, 0x1c232a31, 0x383f464d, 0x545b6269,
    0x70777e85, 0x8c939aa1, 0xa8afb6bd, 0xc4cbd2d9,
    0xe0e7eef5, 0xfc030a11, 0x181f262d, 0x343b4249,
    0x50575e65, 0x6c737a81, 0x888f969d, 0xa4abb2b9,
    0xc0c7ced5, 0xdce3eaf1, 0xf8ff060d, 0x141b2229,
    0x30373e45, 0x4c535a61, 0x686f767d, 0x848b9299,
    0xa0a7aeb5, 0xbcc3cad1, 0xd8dfe6ed, 0xf4fb0209,
    0x10171e25, 0x2c333a41, 0x484f565d, 0x646b7279]"

definition SM4_Sbox :: "u8 list" where
  "SM4_Sbox = [
    0xd6, 0x90, 0xe9, 0xfe, 0xcc, 0xe1, 0x3d, 0xb7, 0x16, 0xb6, 0x14, 0xc2, 0x28, 0xfb, 0x2c, 0x05,
    0x2b, 0x67, 0x9a, 0x76, 0x2a, 0xbe, 0x04, 0xc3, 0xaa, 0x44, 0x13, 0x26, 0x49, 0x86, 0x06, 0x99,
    0x9c, 0x42, 0x50, 0xf4, 0x91, 0xef, 0x98, 0x7a, 0x33, 0x54, 0x0b, 0x43, 0xed, 0xcf, 0xac, 0x62,
    0xe4, 0xb3, 0x1c, 0xa9, 0xc9, 0x08, 0xe8, 0x95, 0x80, 0xdf, 0x94, 0xfa, 0x75, 0x8f, 0x3f, 0xa6,
    0x47, 0x07, 0xa7, 0xfc, 0xf3, 0x73, 0x17, 0xba, 0x83, 0x59, 0x3c, 0x19, 0xe6, 0x85, 0x4f, 0xa8,
    0x68, 0x6b, 0x81, 0xb2, 0x71, 0x64, 0xda, 0x8b, 0xf8, 0xeb, 0x0f, 0x4b, 0x70, 0x56, 0x9d, 0x35,
    0x1e, 0x24, 0x0e, 0x5e, 0x63, 0x58, 0xd1, 0xa2, 0x25, 0x22, 0x7c, 0x3b, 0x01, 0x21, 0x78, 0x87,
    0xd4, 0x00, 0x46, 0x57, 0x9f, 0xd3, 0x27, 0x52, 0x4c, 0x36, 0x02, 0xe7, 0xa0, 0xc4, 0xc8, 0x9e,
    0xea, 0xbf, 0x8a, 0xd2, 0x40, 0xc7, 0x38, 0xb5, 0xa3, 0xf7, 0xf2, 0xce, 0xf9, 0x61, 0x15, 0xa1,
    0xe0, 0xae, 0x5d, 0xa4, 0x9b, 0x34, 0x1a, 0x55, 0xad, 0x93, 0x32, 0x30, 0xf5, 0x8c, 0xb1, 0xe3,
    0x1d, 0xf6, 0xe2, 0x2e, 0x82, 0x66, 0xca, 0x60, 0xc0, 0x29, 0x23, 0xab, 0x0d, 0x53, 0x4e, 0x6f,
    0xd5, 0xdb, 0x37, 0x45, 0xde, 0xfd, 0x8e, 0x2f, 0x03, 0xff, 0x6a, 0x72, 0x6d, 0x6c, 0x5b, 0x51,
    0x8d, 0x1b, 0xaf, 0x92, 0xbb, 0xdd, 0xbc, 0x7f, 0x11, 0xd9, 0x5c, 0x41, 0x1f, 0x10, 0x5a, 0xd8,
    0x0a, 0xc1, 0x31, 0x88, 0xa5, 0xcd, 0x7b, 0xbd, 0x2d, 0x74, 0xd0, 0x12, 0xb8, 0xe5, 0xb4, 0xb0,
    0x89, 0x69, 0x97, 0x4a, 0x0c, 0x96, 0x77, 0x7e, 0x65, 0xb9, 0xf1, 0x09, 0xc5, 0x6e, 0xc6, 0x84,
    0x18, 0xf0, 0x7d, 0xec, 0x3a, 0xdc, 0x4d, 0x20, 0x79, 0xee, 0x5f, 0x3e, 0xd7, 0xcb, 0x39, 0x48]"

definition SM4_FK :: "u32 list" where
  "SM4_FK = [0xa3b1bac6, 0x56aa3350, 0x677d9197, 0xb27022dc]"

subsection \<open>Operations\<close>

definition SM4_Rotl32 :: "u32 \<Rightarrow> nat \<Rightarrow> u32" where
  "SM4_Rotl32 buf n = push_bit n buf OR drop_bit (32 - n) buf"

text \<open>The non-linear operation \<open>buf = Sbox[tmp >> 24] << 24 | ...\<close> of the three loops.\<close>

definition sm4_tau :: "u32 \<Rightarrow> u32" where
  "sm4_tau tmp =
     be32 (SM4_Sbox ! unat (drop_bit 24 tmp AND 0xFF)) (SM4_Sbox ! unat (drop_bit 16 tmp AND 0xFF))
          (SM4_Sbox ! unat (drop_bit 8 tmp AND 0xFF)) (SM4_Sbox ! unat (tmp AND 0xFF))"

text \<open>
  The linear operation of the key schedule and one iteration of its loop, which stores
  \<open>K[i + 4]\<close>.
\<close>

definition ks_linear :: "u32 \<Rightarrow> u32" where
  "ks_linear buf = buf XOR SM4_Rotl32 buf 13 XOR SM4_Rotl32 buf 23"

definition ks_word :: "nat \<Rightarrow> u32 list \<Rightarrow> u32" where
  "ks_word i K =
     K ! i XOR ks_linear (sm4_tau (K ! (i + 1) XOR K ! (i + 2) XOR K ! (i + 3) XOR SM4_CK ! i))"

definition ks_round :: "nat \<Rightarrow> u32 list \<Rightarrow> u32 list" where
  "ks_round i K = K @ [ks_word i K]"

text \<open>The round keys \<open>rk[i] = K[i + 4]\<close>.\<close>

definition SM4_KeySchedule :: "bytes \<Rightarrow> u32 list" where
  "SM4_KeySchedule MK =
     (let K = map (\<lambda>i. SM4_FK ! i XOR
                be32 (MK ! (4 * i)) (MK ! (4 * i + 1)) (MK ! (4 * i + 2)) (MK ! (4 * i + 3))) [0..<4]
      in drop 4 (fold ks_round [0..<32] K))"

text \<open>
  The linear operation of encryption and decryption, and one iteration of their loops:
  \<open>X[i + 4]\<close> from \<open>X[i .. i + 3]\<close> and the round key of the iteration.
\<close>

definition sm4_linear :: "u32 \<Rightarrow> u32" where
  "sm4_linear buf =
     buf XOR SM4_Rotl32 buf 2 XOR SM4_Rotl32 buf 10 XOR SM4_Rotl32 buf 18 XOR SM4_Rotl32 buf 24"

definition sm4_word :: "(nat \<Rightarrow> u32) \<Rightarrow> nat \<Rightarrow> u32 list \<Rightarrow> u32" where
  "sm4_word key i X =
     X ! i XOR sm4_linear (sm4_tau (X ! (i + 1) XOR X ! (i + 2) XOR X ! (i + 3) XOR key i))"

definition sm4_round :: "(nat \<Rightarrow> u32) \<Rightarrow> nat \<Rightarrow> u32 list \<Rightarrow> u32 list" where
  "sm4_round key i X = X @ [sm4_word key i X]"

text \<open>Reading a 16-byte block into \<open>X[0 .. 3]\<close> and writing \<open>X[35], ..., X[32]\<close> out.\<close>

definition sm4_load :: "bytes \<Rightarrow> u32 list" where
  "sm4_load B =
     map (\<lambda>j. be32 (B ! (j * 4)) (B ! (j * 4 + 1)) (B ! (j * 4 + 2)) (B ! (j * 4 + 3))) [0..<4]"

definition sm4_store :: "u32 list \<Rightarrow> bytes" where
  "sm4_store X =
     concat (map (\<lambda>j. let w = X ! (35 - j)
                      in [byte_at 24 w, byte_at 16 w, byte_at 8 w, byte_at 0 w]) [0..<4])"

definition SM4_Encrypt :: "bytes \<Rightarrow> bytes \<Rightarrow> bytes" where
  "SM4_Encrypt MK PlainText =
     (let rk = SM4_KeySchedule MK
      in sm4_store (fold (sm4_round (\<lambda>i. rk ! i)) [0..<32] (sm4_load PlainText)))"

definition SM4_Decrypt :: "bytes \<Rightarrow> bytes \<Rightarrow> bytes" where
  "SM4_Decrypt MK CipherText =
     (let rk = SM4_KeySchedule MK
      in sm4_store (fold (sm4_round (\<lambda>i. rk ! (31 - i))) [0..<32] (sm4_load CipherText)))"

definition SM4_check_key :: bytes where
  "SM4_check_key = [0x01, 0x23, 0x45, 0x67, 0x89, 0xab, 0xcd, 0xef,
                    0xfe, 0xdc, 0xba, 0x98, 0x76, 0x54, 0x32, 0x10]"

definition SM4_check_cipher :: bytes where
  "SM4_check_cipher = [0x68, 0x1e, 0xdf, 0x34, 0xd2, 0x06, 0x96, 0x5e,
                       0x86, 0xb3, 0xe9, 0x4f, 0x53, 0x6e, 0x42, 0x46]"

text \<open>\<open>key\<close> and \<open>plain\<close> of the C function are the same sixteen bytes.\<close>

definition SM4_SelfCheck :: int where
  "SM4_SelfCheck =
     (let En_output = SM4_Encrypt SM4_check_key SM4_check_key;
          De_output = SM4_Decrypt SM4_check_key SM4_check_cipher
      in if \<exists>i \<in> set [0..<16]. En_output ! i \<noteq> SM4_check_cipher ! i \<or> De_output ! i \<noteq> SM4_check_key ! i
         then 1 else 0)"

subsection \<open>Lengths\<close>

lemma length_sm4_load [len_simps, simp]: "length (sm4_load B) = 4"
  by (simp add: sm4_load_def)

lemma length_sm4_store [len_simps, simp]: "length (sm4_store X) = 16"
  by (simp add: sm4_store_def Let_def)

lemma length_fold_ks_round: "length (fold ks_round [0..<n] K) = length K + n"
  by (induction n) (simp_all add: ks_round_def)

lemma length_SM4_KeySchedule [len_simps, simp]: "length (SM4_KeySchedule MK) = 32"
  by (simp add: SM4_KeySchedule_def length_fold_ks_round)

lemma length_SM4_Encrypt [len_simps, simp]: "length (SM4_Encrypt MK B) = 16"
  by (simp add: SM4_Encrypt_def Let_def)

lemma length_SM4_Decrypt [len_simps, simp]: "length (SM4_Decrypt MK B) = 16"
  by (simp add: SM4_Decrypt_def Let_def)

subsection \<open>The rounds as steps on four words\<close>

text \<open>
  A round only reads the last four words, so the loop is a walk on quadruples. A round
  followed by reversal is its own inverse, which is why decryption is encryption with the
  round keys in reverse order.
\<close>

type_synonym quad = "u32 \<times> u32 \<times> u32 \<times> u32"

fun quad_step :: "u32 \<Rightarrow> quad \<Rightarrow> quad" where
  "quad_step k (a, b, c, d) = (b, c, d, a XOR sm4_linear (sm4_tau (b XOR c XOR d XOR k)))"

fun quad_rev :: "quad \<Rightarrow> quad" where
  "quad_rev (a, b, c, d) = (d, c, b, a)"

definition quad_at :: "u32 list \<Rightarrow> nat \<Rightarrow> quad" where
  "quad_at X i = (X ! i, X ! (i + 1), X ! (i + 2), X ! (i + 3))"

lemma quad_step_rev: "quad_step k (quad_rev (quad_step k q)) = quad_rev q"
  by (cases q) (simp add: ac_simps)

lemma fold_quad_step_rev: "fold quad_step (rev ks) (quad_rev (fold quad_step ks q)) = quad_rev q"
  by (induction ks arbitrary: q) (simp_all add: quad_step_rev)

lemma sm4_round_quad:
  "length Y = n + 4 \<Longrightarrow> quad_at (sm4_round key n Y) (Suc n) = quad_step (key n) (quad_at Y n)"
  by (simp add: sm4_round_def sm4_word_def quad_at_def nth_append numeral_Bit1)

lemma length_sm4_round [simp]: "length (sm4_round key i X) = Suc (length X)"
  by (simp add: sm4_round_def)

lemma fold_sm4_round:
  assumes "length X = 4"
  shows "length (fold (sm4_round key) [0..<n] X) = n + 4 \<and>
    quad_at (fold (sm4_round key) [0..<n] X) n = fold quad_step (map key [0..<n]) (quad_at X 0)"
proof (induction n)
  case 0
  show ?case using assms by simp
next
  case (Suc n)
  then show ?case by (simp add: sm4_round_quad)
qed

lemma sm4_load_store: "quad_at (sm4_load (sm4_store X)) 0 = quad_rev (quad_at X 32)"
  by (simp add: sm4_load_def sm4_store_def quad_at_def Let_def)

lemma sm4_store_load:
  assumes "length B = 16" and "quad_at X 32 = quad_rev (quad_at (sm4_load B) 0)"
  shows "sm4_store X = B"
  using assms
  by (elim list16_cases) (simp add: sm4_load_def sm4_store_def quad_at_def Let_def)

lemma sm4_run_inverse:
  assumes "length B = 16" and "map key' [0..<32] = rev (map key [0..<32])"
  shows "sm4_store (fold (sm4_round key') [0..<32]
           (sm4_load (sm4_store (fold (sm4_round key) [0..<32] (sm4_load B))))) = B"
  using assms
  by (intro sm4_store_load)
     (simp_all add: fold_sm4_round sm4_load_store fold_quad_step_rev)

lemma map_nth_rev: "length xs = n \<Longrightarrow> map (\<lambda>i. xs ! (n - 1 - i)) [0..<n] = rev (map ((!) xs) [0..<n])"
  by (rule nth_equalityI) (auto simp: rev_nth)

lemma SM4_dec_enc: "length B = 16 \<Longrightarrow> SM4_Decrypt MK (SM4_Encrypt MK B) = B"
  using map_nth_rev [OF length_SM4_KeySchedule, of MK]
  by (simp add: SM4_Decrypt_def SM4_Encrypt_def Let_def sm4_run_inverse)

lemma SM4_enc_dec: "length B = 16 \<Longrightarrow> SM4_Encrypt MK (SM4_Decrypt MK B) = B"
  using map_nth_rev [OF length_SM4_KeySchedule, of MK]
  by (simp add: SM4_Decrypt_def SM4_Encrypt_def Let_def sm4_run_inverse)

subsection \<open>The interface of a block cipher\<close>

locale block_cipher =
  fixes enc dec :: "bytes \<Rightarrow> bytes \<Rightarrow> bytes"
  assumes length_enc: "length (enc k b) = 16"
    and length_dec: "length (dec k b) = 16"
    and dec_enc: "length b = 16 \<Longrightarrow> dec k (enc k b) = b"
    and enc_dec: "length b = 16 \<Longrightarrow> enc k (dec k b) = b"
begin

lemma enc_inj: "length b = 16 \<Longrightarrow> length c = 16 \<Longrightarrow> enc k b = enc k c \<longleftrightarrow> b = c"
  by (metis dec_enc)

lemma enc_bij: "bij_betw (enc k) {b. length b = 16} {b. length b = 16}"
  by (rule bij_betw_byWitness [where f' = "dec k"]) (auto simp: length_enc length_dec dec_enc enc_dec)

end

interpretation sm4: block_cipher SM4_Encrypt SM4_Decrypt
  by unfold_locales (simp_all add: SM4_dec_enc SM4_enc_dec)

subsection \<open>The standard test vector\<close>

text \<open>
  The words the two loops compute on the test vector. Each is checked against the word
  function of its loop, so that no round is evaluated twice.
\<close>

definition SM4_check_K :: "u32 list" where
  "SM4_check_K = [
    0xa292ffa1, 0xdf01febf, 0x99a12b0f, 0xc42410cc, 0xf12186f9, 0x41662b61,
    0x5a6ab19a, 0x7ba92077, 0x367360f4, 0x776a0c61, 0xb6bb89b3, 0x24763151,
    0xa520307c, 0xb7584dbd, 0xc30753ed, 0x7ee55b57, 0x6988608c, 0x30d895b7,
    0x44ba14af, 0x104495a1, 0xd120b428, 0x73b55fa3, 0xcc874966, 0x92244439,
    0xe89e641f, 0x98ca015a, 0xc7159060, 0x99e1fd2e, 0xb79bd80c, 0x1d2115b0,
    0x0e228aeb, 0xf1780c81, 0x428d3654, 0x62293496, 0x01cf72e5, 0x9124a012]"

definition SM4_check_X :: "u32 list" where
  "SM4_check_X = [
    0x01234567, 0x89abcdef, 0xfedcba98, 0x76543210, 0x27fad345, 0xa18b4cb2,
    0x11c1e22a, 0xcc13e2ee, 0xf87c5bd5, 0x33220757, 0x77f4c297, 0x7a96f2eb,
    0x27dac07f, 0x42dd0f19, 0xb8a5da02, 0x907127fa, 0x8b952b83, 0xd42b7c59,
    0x2ffc5831, 0xf69e6888, 0xaf2432c4, 0xed1ec85e, 0x55a3ba22, 0x124b18aa,
    0x6ae7725f, 0xf4cba1f9, 0x1dcdfa10, 0x2ff60603, 0xeff24fdc, 0x6fe46b75,
    0x893450ad, 0x7b938f4c, 0x536e4246, 0x86b3e94f, 0xd206965e, 0x681edf34]"

lemma fold_append_trace:
  assumes "\<And>i. i < n \<Longrightarrow> g i (take (4 + i) T) = T ! (4 + i)"
    and "\<And>i X. f i X = X @ [g i X]" and "4 + n \<le> length T"
  shows "fold f [0..<n] (take 4 T) = take (4 + n) T"
  using assms(1,3)
proof (induction n)
  case (Suc n)
  then show ?case
    using take_Suc_conv_app_nth [of "4 + n" T] by (simp add: assms(2))
qed simp

lemma upt_conv_32:
  "[0..<32] = [0, 1, 2, 3, 4, 5, 6, 7, 8, 9, 10, 11, 12, 13, 14, 15, 16, 17, 18, 19, 20, 21, 22, 23,
     24, 25, 26, 27, 28, 29, 30, 31]"
  by code_simp

lemmas sm4_eval = sm4_tau_def SM4_Sbox_def be32_def SM4_Rotl32_def

lemma SM4_check_K_words:
  "list_all (\<lambda>i. ks_word i SM4_check_K = SM4_check_K ! (4 + i)) [0..<32]"
  unfolding upt_conv_32 list.pred_inject
  by (intro conjI TrueI; simp add: ks_word_def ks_linear_def SM4_CK_def SM4_check_K_def sm4_eval)

lemma SM4_check_X_words:
  "list_all (\<lambda>i. sm4_word (\<lambda>i. SM4_check_K ! (4 + i)) i SM4_check_X = SM4_check_X ! (4 + i)) [0..<32]"
  unfolding upt_conv_32 list.pred_inject
  by (intro conjI TrueI;
      simp add: sm4_word_def sm4_linear_def SM4_check_K_def SM4_check_X_def sm4_eval)

lemma SM4_check_KeySchedule: "SM4_KeySchedule SM4_check_key = drop 4 SM4_check_K"
proof -
  have "map (\<lambda>i. SM4_FK ! i XOR be32 (SM4_check_key ! (4 * i)) (SM4_check_key ! (4 * i + 1))
          (SM4_check_key ! (4 * i + 2)) (SM4_check_key ! (4 * i + 3))) [0..<4] = take 4 SM4_check_K"
    by (simp add: SM4_FK_def SM4_check_key_def SM4_check_K_def be32_def)
  moreover have "fold ks_round [0..<32] (take 4 SM4_check_K) = take (4 + 32) SM4_check_K"
    using SM4_check_K_words
    by (intro fold_append_trace [where g = ks_word])
       (auto simp: ks_round_def list_all_iff ks_word_def SM4_check_K_def)
  ultimately show ?thesis
    by (simp add: SM4_KeySchedule_def Let_def) (simp add: SM4_check_K_def)
qed

lemma SM4_check_Encrypt: "SM4_Encrypt SM4_check_key SM4_check_key = SM4_check_cipher"
proof -
  have "sm4_load SM4_check_key = take 4 SM4_check_X"
    by (simp add: sm4_load_def SM4_check_key_def SM4_check_X_def be32_def)
  moreover have "fold (sm4_round ((!) (drop 4 SM4_check_K))) [0..<32] (take 4 SM4_check_X) =
      take (4 + 32) SM4_check_X"
    using SM4_check_X_words
    by (intro fold_append_trace [where g = "sm4_word ((!) (drop 4 SM4_check_K))"])
       (auto simp: sm4_round_def list_all_iff sm4_word_def SM4_check_X_def SM4_check_K_def)
  ultimately show ?thesis
    by (simp add: SM4_Encrypt_def SM4_check_KeySchedule Let_def)
       (simp add: sm4_store_def SM4_check_X_def SM4_check_cipher_def byte_at_def Let_def)
qed

subsection \<open>Properties\<close>

text \<open>
  Under every key, decrypting an encrypted 16-byte block gives the block back, and
  encrypting a decrypted block gives the block back.
\<close>

lemma SM4_block_roundtrip:
  assumes "length B = 16"
  shows "SM4_Decrypt MK (SM4_Encrypt MK B) = B \<and> SM4_Encrypt MK (SM4_Decrypt MK B) = B"
  using assms by (simp_all add: sm4.dec_enc sm4.enc_dec)

lemma SM4_block_roundtrip_example:
  "length SM4_check_key = 16 \<and>
   SM4_Decrypt SM4_check_cipher (SM4_Encrypt SM4_check_cipher SM4_check_key) = SM4_check_key"
proof -
  have "length SM4_check_key = 16" by (simp add: SM4_check_key_def)
  then show ?thesis using SM4_block_roundtrip by blast
qed

text \<open>
  The self check of the cipher succeeds: on the test vector of the standard,
  encryption gives the expected ciphertext and decryption gives the plaintext back.
\<close>

lemma SM4_SelfCheck_passes: "SM4_SelfCheck = 0"
proof -
  have "SM4_Decrypt SM4_check_key SM4_check_cipher = SM4_check_key"
    using SM4_dec_enc [of SM4_check_key SM4_check_key] SM4_check_Encrypt
    by (simp add: SM4_check_key_def)
  then show ?thesis by (simp add: SM4_SelfCheck_def SM4_check_Encrypt)
qed

end
