(* ===== verification/SM4_CBC.thy ===== *)
theory SM4_CBC
  imports SM4
begin

text \<open>
  Cipher block chaining, the first half of \<^verbatim>\<open>lib/gm/source/SM4_Enc.c\<close>. The two functions
  take the cipher they call as a parameter (\<open>cbc_encrypt\<close>, \<open>cbc_decrypt\<close>), so that
  their properties are proved once for every block cipher; \<open>SM4_CBC_Encrypt\<close> and
  \<open>SM4_CBC_Decrypt\<close> are their instances at SM4.

  A C \<open>int\<close> length is an \<^typ>\<open>int\<close>, divided as C divides (towards zero). An output
  buffer is passed as its old content and returned as its new content, next to the C return
  value. The arrays \<open>ciphertext[16]\<close> and \<open>input[16]\<close>, uninitialised before the first
  iteration and not read in it, start as zeros.
\<close>

subsection \<open>Operations\<close>

definition CBC_CipherText_Len :: "int \<Rightarrow> int" where
  "CBC_CipherText_Len n = cdiv (n + 16 - 1) 16 * 16"

text \<open>\<open>xor_16\<close>; the loops of the two functions below compute the same on their arrays.\<close>

definition xor_16 :: "bytes \<Rightarrow> bytes \<Rightarrow> bytes" where
  "xor_16 a b = map (\<lambda>i. a ! i XOR b ! i) [0..<16]"

text \<open>\<open>end = (start + 16 > len) ? len : (start + 16)\<close>, as the number of bytes of the block.\<close>

definition block_bytes :: "nat \<Rightarrow> int \<Rightarrow> nat" where
  "block_bytes j len =
     (let start = int (j * 16); end' = (if start + 16 > len then len else start + 16)
      in nat (end' - start))"

definition cbc_enc_step ::
  "(bytes \<Rightarrow> bytes) \<Rightarrow> bytes \<Rightarrow> bytes \<Rightarrow> int \<Rightarrow> nat \<Rightarrow> bytes \<times> bytes \<times> nat \<Rightarrow> bytes \<times> bytes \<times> nat" where
  "cbc_enc_step E IV PlainText PlainTextLen j = (\<lambda>(ciphertext, CipherText, output_cursor).
     let plaintext = buf_write (replicate 16 0) 0 (slice (j * 16) (block_bytes j PlainTextLen) PlainText);
         input = xor_16 plaintext (if j = 0 then IV else ciphertext);
         ciphertext' = E input
     in (ciphertext', buf_write CipherText output_cursor ciphertext', output_cursor + 16))"

definition cbc_encrypt ::
  "(bytes \<Rightarrow> bytes) \<Rightarrow> bytes \<Rightarrow> bytes \<Rightarrow> int \<Rightarrow> bytes \<Rightarrow> int \<Rightarrow> int \<times> bytes" where
  "cbc_encrypt E IV PlainText PlainTextLen CipherText CipherTextLen =
     (if CipherTextLen < CBC_CipherText_Len PlainTextLen then (0, CipherText)
      else let rounds = cdiv (CBC_CipherText_Len PlainTextLen) 16;
               (ct, out, cur) = fold (cbc_enc_step E IV PlainText PlainTextLen) [0..<nat rounds]
                                  (replicate 16 0, CipherText, 0)
           in (int cur, out))"

definition cbc_dec_step ::
  "(bytes \<Rightarrow> bytes) \<Rightarrow> bytes \<Rightarrow> bytes \<Rightarrow> int \<Rightarrow> nat \<Rightarrow> bytes \<times> bytes \<times> nat \<Rightarrow> bytes \<times> bytes \<times> nat" where
  "cbc_dec_step D IV CipherText PlainTextLen j = (\<lambda>(input, PlainText, output_cursor).
     let ciphertext = slice (j * 16) 16 CipherText;
         output = D ciphertext;
         plaintext = xor_16 (if j = 0 then IV else input) output;
         k = block_bytes j PlainTextLen
     in (ciphertext, buf_write PlainText output_cursor (take k plaintext), output_cursor + k))"

definition cbc_decrypt ::
  "(bytes \<Rightarrow> bytes) \<Rightarrow> bytes \<Rightarrow> bytes \<Rightarrow> int \<Rightarrow> bytes \<Rightarrow> int \<Rightarrow> int \<times> bytes" where
  "cbc_decrypt D IV CipherText CipherTextLen PlainText PlainTextLen =
     (if CipherTextLen - cdiv CipherTextLen 16 * 16 \<noteq> 0 then (0, PlainText)
      else let rounds = cdiv CipherTextLen 16;
               (inp, out, cur) = fold (cbc_dec_step D IV CipherText PlainTextLen) [0..<nat rounds]
                                   (replicate 16 0, PlainText, 0)
           in (int cur, out))"

definition SM4_CBC_Encrypt ::
  "bytes \<Rightarrow> bytes \<Rightarrow> bytes \<Rightarrow> int \<Rightarrow> bytes \<Rightarrow> int \<Rightarrow> int \<times> bytes" where
  "SM4_CBC_Encrypt Key = cbc_encrypt (SM4_Encrypt Key)"

definition SM4_CBC_Decrypt ::
  "bytes \<Rightarrow> bytes \<Rightarrow> bytes \<Rightarrow> int \<Rightarrow> bytes \<Rightarrow> int \<Rightarrow> int \<times> bytes" where
  "SM4_CBC_Decrypt Key = cbc_decrypt (SM4_Decrypt Key)"

subsection \<open>Lengths\<close>

lemma length_xor_16 [len_simps, simp]: "length (xor_16 a b) = 16"
  by (simp add: xor_16_def)

lemma xor_16_cancel: "length a = 16 \<Longrightarrow> xor_16 b (xor_16 a b) = a"
  by (rule nth_equalityI) (simp_all add: xor_16_def xor.left_commute xor.commute)

lemma CBC_CipherText_Len_pos: "0 \<le> n \<Longrightarrow> CBC_CipherText_Len n = (n + 15) div 16 * 16"
  by (simp add: CBC_CipherText_Len_def cdiv_pos)

text \<open>A non-positive length encrypts to at most nothing.\<close>

lemma CBC_CipherText_Len_neg: "n \<le> 0 \<Longrightarrow> CBC_CipherText_Len n \<le> 0"
  by (auto simp: CBC_CipherText_Len_def cdiv_def sgn_if)

subsection \<open>The chain as a function of the blocks\<close>

text \<open>The padded blocks of a text and the two chains over them.\<close>

definition cbc_block :: "bytes \<Rightarrow> int \<Rightarrow> nat \<Rightarrow> bytes" where
  "cbc_block P n j = buf_write (replicate 16 0) 0 (slice (j * 16) (block_bytes j n) P)"

fun cbc_chain :: "(bytes \<Rightarrow> bytes) \<Rightarrow> bytes \<Rightarrow> bytes list \<Rightarrow> bytes list" where
  "cbc_chain E v [] = []"
| "cbc_chain E v (b # bs) = (let c = E (xor_16 b v) in c # cbc_chain E c bs)"

fun cbc_unchain :: "(bytes \<Rightarrow> bytes) \<Rightarrow> bytes \<Rightarrow> bytes list \<Rightarrow> bytes list" where
  "cbc_unchain D v [] = []"
| "cbc_unchain D v (c # cs) = xor_16 v (D c) # cbc_unchain D c cs"

lemma length_cbc_chain [simp]: "length (cbc_chain E v bs) = length bs"
  by (induction bs arbitrary: v) (simp_all add: Let_def)

lemma cbc_unchain_chain:
  assumes "\<And>b. length b = 16 \<Longrightarrow> D (E b) = b"
  shows "\<forall>b \<in> set bs. length b = 16 \<Longrightarrow> cbc_unchain D v (cbc_chain E v bs) = bs"
  by (induction bs arbitrary: v) (simp_all add: Let_def assms xor_16_cancel)

lemma cbc_chain_snoc:
  "cbc_chain E v (bs @ [b]) = cbc_chain E v bs @ [E (xor_16 b (last (v # cbc_chain E v bs)))]"
  by (induction bs arbitrary: v) (simp_all add: Let_def)

lemma cbc_unchain_snoc:
  "cbc_unchain D v (cs @ [c]) = cbc_unchain D v cs @ [xor_16 (last (v # cs)) (D c)]"
  by (induction cs arbitrary: v) simp_all

lemma length_cbc_chain_block:
  "(\<And>b. length (E b) = 16) \<Longrightarrow> c \<in> set (cbc_chain E v bs) \<Longrightarrow> length c = 16"
  by (induction bs arbitrary: v) (auto simp: Let_def)

lemma length_cbc_unchain_block: "c \<in> set (cbc_unchain D v cs) \<Longrightarrow> length c = 16"
  by (induction cs arbitrary: v) auto

lemma length_cbc_unchain [simp]: "length (cbc_unchain D v cs) = length cs"
  by (induction cs arbitrary: v) simp_all

lemma last_Cons_snoc: "last (x # xs @ [y]) = y"
  by simp

lemma cbc_enc_step_block:
  "cbc_enc_step E IV P n j (ct, out, cur) =
    (let c = E (xor_16 (cbc_block P n j) (if j = 0 then IV else ct)) in (c, buf_write out cur c, cur + 16))"
  by (simp add: cbc_enc_step_def cbc_block_def Let_def)

lemma cbc_dec_step_block:
  "cbc_dec_step D IV C n j (input, out, cur) =
    (let c = slice (j * 16) 16 C; p = xor_16 (if j = 0 then IV else input) (D c)
     in (c, buf_write out cur (take (block_bytes j n) p), cur + block_bytes j n))"
  by (simp add: cbc_dec_step_def Let_def)

lemma cbc_enc_loop:
  assumes "\<And>b. length (E b) = 16" and "16 * r \<le> length out"
  shows "\<exists>z'. fold (cbc_enc_step E IV P n) [0..<r] (z, out, 0) =
      (z', concat (cbc_chain E IV (map (cbc_block P n) [0..<r])) @ drop (16 * r) out, 16 * r) \<and>
    (0 < r \<longrightarrow> z' = last (IV # cbc_chain E IV (map (cbc_block P n) [0..<r])))"
  using assms(2)
proof (induction r)
  case (Suc r)
  let ?cs = "cbc_chain E IV (map (cbc_block P n) [0..<r])"
  have len: "length (concat ?cs) = 16 * r"
    using length_concat_blocks [of ?cs 16] length_cbc_chain_block [of E _ IV] assms(1) by simp
  from Suc obtain z' where z': "fold (cbc_enc_step E IV P n) [0..<r] (z, out, 0) =
      (z', concat ?cs @ drop (16 * r) out, 16 * r)" "0 < r \<longrightarrow> z' = last (IV # ?cs)"
    by auto
  then have "(if r = 0 then IV else z') = last (IV # ?cs)" by simp
  then show ?case
    using z'(1) len assms(1)
    by (simp add: cbc_chain_snoc cbc_enc_step_block Let_def last_Cons_snoc add.commute del: last.simps)
qed simp

lemma block_bytes_nat: "0 \<le> n \<Longrightarrow> block_bytes j n = min 16 (nat n - 16 * j)"
  by (auto simp: block_bytes_def Let_def)

lemma cbc_dec_loop:
  assumes "0 \<le> n" and "nat n \<le> length out"
  defines "m \<equiv> (\<lambda>r. min (16 * r) (nat n))"
  shows "\<exists>z'. fold (cbc_dec_step D IV C n) [0..<r] (z, out, 0) =
      (z', take (m r) (concat (cbc_unchain D IV (map (\<lambda>j. slice (j * 16) 16 C) [0..<r]))) @
         drop (m r) out, m r) \<and>
    (0 < r \<longrightarrow> z' = last (IV # map (\<lambda>j. slice (j * 16) 16 C) [0..<r]))"
proof (induction r)
  case 0
  show ?case by (simp add: m_def)
next
  case (Suc r)
  let ?bs = "map (\<lambda>j. slice (j * 16) 16 C) [0..<r]"
  let ?ps = "cbc_unchain D IV ?bs"
  have len: "length (concat ?ps) = 16 * r"
    using length_concat_blocks [of ?ps 16] length_cbc_unchain_block [of _ D IV ?bs] by simp
  from Suc obtain z' where z': "fold (cbc_dec_step D IV C n) [0..<r] (z, out, 0) =
      (z', take (m r) (concat ?ps) @ drop (m r) out, m r)" "0 < r \<longrightarrow> z' = last (IV # ?bs)"
    by auto
  then have v: "(if r = 0 then IV else z') = last (IV # ?bs)" by simp
  have k: "block_bytes r n = m (Suc r) - m r" "m r + (m (Suc r) - m r) = m (Suc r)"
    using assms(1) by (auto simp: block_bytes_nat m_def)
  have t: "take (m (Suc r)) (concat ?ps @ b) = take (m r) (concat ?ps) @ take (m (Suc r) - m r) b"
    for b using len by (cases "16 * r \<le> nat n") (auto simp: m_def)
  have "m (Suc r) - m r \<le> 16" "m r \<le> 16 * r" by (auto simp: m_def)
  then show ?case
    using z'(1) v len k
    by (simp add: cbc_unchain_snoc cbc_dec_step_block Let_def t last_Cons_snoc add.commute del: last.simps take_append)
qed

lemma cbc_blocks_concat:
  assumes "nat n \<le> length P" and "0 \<le> n"
  shows "concat (map (cbc_block P n) [0..<r]) =
    take (16 * r) (take (nat n) P) @ replicate (16 * r - nat n) 0"
proof (induction r)
  case (Suc r)
  have b: "cbc_block P n r =
      take (min 16 (nat n - 16 * r)) (drop (16 * r) P) @ replicate (16 - (nat n - 16 * r)) 0"
    using assms by (simp add: cbc_block_def block_bytes_nat buf_write_0 slice_def mult.commute)
  show ?case
  proof (cases "16 * r \<le> nat n")
    case True
    then have "min (16 * Suc r) (nat n) = 16 * r + min 16 (nat n - 16 * r)" by (auto simp: min_def)
    then have "take (16 * Suc r) (take (nat n) P) =
        take (16 * r) P @ take (min 16 (nat n - 16 * r)) (drop (16 * r) P)"
      by (simp only: take_take take_add)
    then show ?thesis using True Suc by (simp add: b min.absorb1)
  next
    case False
    then have "replicate (16 * r - nat n) (0 :: u8) @ replicate 16 0 = replicate (16 * Suc r - nat n) 0"
      by (simp flip: replicate_add)
    then show ?thesis using False Suc by (simp add: b min_def)
  qed
qed simp

subsection \<open>The two functions over any block cipher\<close>

lemma cbc_rounds: "0 \<le> n \<Longrightarrow> CBC_CipherText_Len n = 16 * int ((nat n + 15) div 16)"
  by (simp add: CBC_CipherText_Len_pos zdiv_int nat_add_distrib)

lemma cdiv_16_mult [simp]: "cdiv (16 * int r) 16 = int r"
  by (simp add: cdiv_pos)

lemma cdiv_16_rem: "n - cdiv n 16 * 16 = 0 \<longleftrightarrow> 16 dvd n"
proof
  assume "16 dvd n"
  then have "\<bar>n\<bar> div 16 * 16 = \<bar>n\<bar>" by simp
  then show "n - cdiv n 16 * 16 = 0"
    by (simp add: cdiv_def mult.assoc) (metis mult_sgn_abs mult.commute)
qed (metis diff_eq_diff_eq diff_self dvd_triv_right)

lemma map_slice_blocks:
  "\<forall>b \<in> set bs. length b = 16 \<Longrightarrow> map (\<lambda>j. slice (j * 16) 16 (concat bs @ ys)) [0..<length bs] = bs"
proof (induction bs)
  case (Cons b bs)
  have "slice (Suc j * 16) 16 (concat (b # bs) @ ys) = slice (j * 16) 16 (concat bs @ ys)" for j
    using Cons.prems by (simp add: slice_def)
  then have "map (\<lambda>j. slice (j * 16) 16 (concat (b # bs) @ ys)) (map Suc [0..<length bs]) = bs"
    using Cons by (simp add: comp_def)
  then have "map (\<lambda>j. slice (j * 16) 16 (concat (b # bs) @ ys)) (0 # map Suc [0..<length bs]) = b # bs"
    using Cons.prems by (simp add: slice_def)
  moreover have "[0..<length (b # bs)] = 0 # map Suc [0..<length bs]"
    by (simp add: map_Suc_upt upt_conv_Cons del: upt_Suc)
  ultimately show ?case by (simp only:)
qed simp

context block_cipher
begin

lemma cbc_encrypt_eq:
  assumes "0 \<le> n" and "CBC_CipherText_Len n \<le> m" and "CBC_CipherText_Len n \<le> int (length out)"
  defines "r \<equiv> (nat n + 15) div 16"
  shows "cbc_encrypt (enc k) IV P n out m =
    (CBC_CipherText_Len n, concat (cbc_chain (enc k) IV (map (cbc_block P n) [0..<r])) @ drop (16 * r) out)"
proof -
  have r: "CBC_CipherText_Len n = 16 * int r" using assms(1) by (simp add: cbc_rounds r_def)
  then have "16 * r \<le> length out" using assms(3) by simp
  then show ?thesis
    using cbc_enc_loop [where E = "enc k" and r = r and out = out and IV = IV and P = P and n = n
        and z = "replicate 16 0", OF length_enc] assms(2)
    by (auto simp: cbc_encrypt_def r)
qed

lemma cbc_decrypt_encrypt:
  assumes "0 \<le> n" and "n \<le> int (length P)" and "CBC_CipherText_Len n \<le> m"
    and "CBC_CipherText_Len n \<le> int (length ct)" and "n \<le> int (length out)"
  shows "cbc_decrypt (dec k) IV (snd (cbc_encrypt (enc k) IV P n ct m)) (CBC_CipherText_Len n) out n =
    (n, take (nat n) P @ drop (nat n) out)"
proof -
  define r where "r = (nat n + 15) div 16"
  let ?bs = "map (cbc_block P n) [0..<r]"
  let ?cs = "cbc_chain (enc k) IV ?bs"
  have r: "CBC_CipherText_Len n = 16 * int r" using assms(1) by (simp add: cbc_rounds r_def)
  have nr: "nat n \<le> 16 * r" by (simp add: r_def)
  have bs: "\<forall>b \<in> set ?bs. length b = 16"
    using assms(1,2) by (auto simp: cbc_block_def block_bytes_nat buf_write_0 slice_def)
  have cs: "map (\<lambda>j. slice (j * 16) 16 (snd (cbc_encrypt (enc k) IV P n ct m))) [0..<r] = ?cs"
    using map_slice_blocks [of ?cs "drop (16 * r) ct"] length_cbc_chain_block [OF length_enc]
    by (simp add: cbc_encrypt_eq [OF assms(1,3,4)] flip: r_def)
  have un: "cbc_unchain (dec k) IV ?cs = ?bs"
    using bs by (intro cbc_unchain_chain) (simp_all add: dec_enc)
  have "take (nat n) (concat ?bs) = take (nat n) P"
    using nr assms(1,2) by (simp add: cbc_blocks_concat)
  then show ?thesis
    using cbc_dec_loop [where D = "dec k" and IV = IV and n = n and out = out and r = r and
        z = "replicate 16 0" and C = "snd (cbc_encrypt (enc k) IV P n ct m)"] assms(1,5)
      nat_mono [OF assms(5)]
    by (auto simp: cbc_decrypt_def r cs un min.absorb2 [OF nr])
qed

end

subsection \<open>Properties\<close>

text \<open>
  C14: Decrypting what \<open>SM4_CBC_Encrypt\<close> produced, with the same key and initial vector
  and with the plaintext's length as the size of the output buffer, gives the plaintext back:
  its length is returned, its bytes are stored, and the rest of the buffer is not touched.
  The length need not be a multiple of the block size.
\<close>

theorem SM4_CBC_roundtrip:
  assumes "0 \<le> n" and "n \<le> int (length P)" and "CBC_CipherText_Len n \<le> m"
    and "CBC_CipherText_Len n \<le> int (length ct)" and "n \<le> int (length out)"
  shows "fst (SM4_CBC_Encrypt key IV P n ct m) = CBC_CipherText_Len n \<and>
    SM4_CBC_Decrypt key IV (snd (SM4_CBC_Encrypt key IV P n ct m)) (CBC_CipherText_Len n) out n =
      (n, take (nat n) P @ drop (nat n) out)"
  unfolding SM4_CBC_Encrypt_def SM4_CBC_Decrypt_def
  using sm4.cbc_encrypt_eq [OF assms(1,3,4)] sm4.cbc_decrypt_encrypt [OF assms] by simp

theorem SM4_CBC_roundtrip_witness:
  "SM4_CBC_Decrypt (replicate 16 1) (replicate 16 7)
     (snd (SM4_CBC_Encrypt (replicate 16 1) (replicate 16 7) [10, 20, 30] 3 (replicate 16 0) 16))
     16 [0, 0, 0, 9] 3 = (3, [10, 20, 30, 9])"
  using SM4_CBC_roundtrip [of 3 "[10, 20, 30]" 16 "replicate 16 0" "[0, 0, 0, 9]" "replicate 16 1"
      "replicate 16 7"]
  by (simp add: CBC_CipherText_Len_pos)

text \<open>
  With enough room \<open>SM4_CBC_Encrypt\<close> returns the plaintext's length rounded up to a
  multiple of 16, keeps the size of the output buffer and leaves the bytes behind the
  ciphertext alone.
\<close>

lemma SM4_CBC_Encrypt_length:
  assumes "0 \<le> n" and "CBC_CipherText_Len n \<le> m" and "CBC_CipherText_Len n \<le> int (length ct)"
    and "SM4_CBC_Encrypt key IV P n ct m = (len, c)"
  shows "16 dvd len \<and> n \<le> len \<and> len < n + 16 \<and> length c = length ct \<and>
    drop (nat len) c = drop (nat len) ct"
proof -
  let ?r = "(nat n + 15) div 16"
  let ?cs = "cbc_chain (SM4_Encrypt key) IV (map (cbc_block P n) [0..<?r])"
  have len: "length (concat ?cs) = 16 * ?r"
    using length_concat_blocks [of ?cs 16] length_cbc_chain_block [OF sm4.length_enc] by simp
  have c: "len = 16 * int ?r" "c = concat ?cs @ drop (16 * ?r) ct"
    using assms(4) sm4.cbc_encrypt_eq [OF assms(1-3), where k = key and IV = IV and P = P]
    by (simp_all add: SM4_CBC_Encrypt_def cbc_rounds [OF assms(1)])
  have "16 * ?r \<le> length ct" using assms(3) by (simp add: cbc_rounds [OF assms(1)])
  moreover have "nat len = 16 * ?r" by (simp add: c)
  moreover have "nat n \<le> 16 * ?r" "16 * ?r < nat n + 16" by simp_all
  then have "n \<le> len" "len < n + 16" using assms(1) unfolding c(1) by linarith+
  ultimately show ?thesis using len by (simp add: c(2)) (simp add: c(1))
qed

lemma SM4_CBC_Encrypt_length_example:
  "(case SM4_CBC_Encrypt (replicate 16 1) (replicate 16 7) [10, 20, 30] 3 (replicate 18 5) 18 of
      (len, c) \<Rightarrow> 16 dvd len \<and> 3 \<le> len \<and> len < 19 \<and> length c = 18 \<and>
        drop (nat len) c = drop (nat len) (replicate 18 5))"
  using SM4_CBC_Encrypt_length [of 3 18 "replicate 18 5" "replicate 16 1" "replicate 16 7" "[10, 20, 30]"]
  by (simp add: CBC_CipherText_Len_pos split: prod.split)

text \<open>
  The error paths. A ciphertext buffer that is too small, and a ciphertext whose length
  is not a multiple of the block size, are refused: 0 is returned and nothing is written.
\<close>

lemma SM4_CBC_rejects:
  "(m < CBC_CipherText_Len n \<longrightarrow> SM4_CBC_Encrypt key IV P n ct m = (0, ct)) \<and>
   (\<not> 16 dvd clen \<longrightarrow> SM4_CBC_Decrypt key IV c clen out n' = (0, out))"
  by (simp add: SM4_CBC_Encrypt_def SM4_CBC_Decrypt_def cbc_encrypt_def cbc_decrypt_def
      flip: cdiv_16_rem)

lemma SM4_CBC_rejects_example:
  "SM4_CBC_Encrypt (replicate 16 1) (replicate 16 7) [10, 20, 30] 3 (replicate 15 5) 15 = (0, replicate 15 5) \<and>
   SM4_CBC_Decrypt (replicate 16 1) (replicate 16 7) (replicate 17 0) 17 [9] 1 = (0, [9])"
  using SM4_CBC_rejects [of 15 3 "replicate 16 1" "replicate 16 7" "[10, 20, 30]" "replicate 15 5"
      17 "replicate 17 0" "[9]" 1]
  by (simp add: CBC_CipherText_Len_pos)

end
