(* ===== verification/SM3.thy ===== *)
theory SM3
  imports Prelude
begin

text \<open>
  The SM3 hash, \<^verbatim>\<open>lib/gm/source/SM3.c\<close> with the macros of \<^verbatim>\<open>SM3.h\<close>: message expansion,
  compression, and the streaming interface \<open>SM3_init\<close>, \<open>SM3_process\<close>,
  \<open>SM3_done\<close>. The reference it is compared with is the standard's description, a function
  of the whole message: pad, cut into blocks, expand each block, iterate the compression
  function.

  The target (RISC-V) is little-endian: reading \<open>md->buf\<close> as \<open>unsigned int\<close>s and
  copying \<open>md->state\<close> to bytes are little-endian. The struct that \<open>SM3_256\<close> has on
  its stack is not initialised; it is an argument of the model. A message is read as the
  first \<open>len\<close> bytes of the caller's buffer.
\<close>

subsection \<open>Macros and tables\<close>

definition SM3_T1 :: u32 where "SM3_T1 = 0x79CC4519"
definition SM3_T2 :: u32 where "SM3_T2 = 0x7A879D8A"

definition SM3_IV :: "u32 list" where
  "SM3_IV = [0x7380166f, 0x4914b2b9, 0x172442d7, 0xda8a0600, 0xa96f30bc, 0x163138aa, 0xe38dee4d, 0xb0fb0e4e]"

definition SM3_rotl32 :: "u32 \<Rightarrow> nat \<Rightarrow> u32" where
  "SM3_rotl32 x n = push_bit n x OR drop_bit (32 - n) x"

definition SM3_p1 :: "u32 \<Rightarrow> u32" where
  "SM3_p1 x = x XOR SM3_rotl32 x 15 XOR SM3_rotl32 x 23"

definition SM3_p0 :: "u32 \<Rightarrow> u32" where
  "SM3_p0 x = x XOR SM3_rotl32 x 9 XOR SM3_rotl32 x 17"

definition SM3_ff0 :: "u32 \<Rightarrow> u32 \<Rightarrow> u32 \<Rightarrow> u32" where
  "SM3_ff0 a b c = a XOR b XOR c"

definition SM3_ff1 :: "u32 \<Rightarrow> u32 \<Rightarrow> u32 \<Rightarrow> u32" where
  "SM3_ff1 a b c = (a AND b) OR (a AND c) OR (b AND c)"

definition SM3_gg0 :: "u32 \<Rightarrow> u32 \<Rightarrow> u32 \<Rightarrow> u32" where
  "SM3_gg0 e f g = e XOR f XOR g"

definition SM3_gg1 :: "u32 \<Rightarrow> u32 \<Rightarrow> u32 \<Rightarrow> u32" where
  "SM3_gg1 e f g = (e AND f) OR (NOT e AND g)"

record SM3_STATE =
  md_state :: "u32 list"
  md_length :: u32
  md_curlen :: u32
  md_buf :: bytes

subsection \<open>Message expansion and compression\<close>

definition BiToW_step :: "nat \<Rightarrow> u32 list \<Rightarrow> u32 list" where
  "BiToW_step i W =
     (let tmp = W ! (i - 16) XOR W ! (i - 9) XOR SM3_rotl32 (W ! (i - 3)) 15
      in W @ [SM3_p1 tmp XOR SM3_rotl32 (W ! (i - 13)) 7 XOR W ! (i - 6)])"

definition BiToW :: "u32 list \<Rightarrow> u32 list" where
  "BiToW Bi = fold BiToW_step [16..<68] (map ((!) Bi) [0..<16])"

definition WToW1 :: "u32 list \<Rightarrow> u32 list" where
  "WToW1 W = map (\<lambda>i. W ! i XOR W ! (i + 4)) [0..<64]"

type_synonym cf_regs = "u32 \<times> u32 \<times> u32 \<times> u32 \<times> u32 \<times> u32 \<times> u32 \<times> u32"

text \<open>The body of the loop of \<open>CF\<close>, after \<open>T\<close> has been updated.\<close>

definition CF_round :: "nat \<Rightarrow> u32 \<Rightarrow> u32 \<Rightarrow> u32 \<Rightarrow> cf_regs \<Rightarrow> cf_regs" where
  "CF_round j T w w1 = (\<lambda>(A, B, C, D, E, F, G, H).
     let SS1 = SM3_rotl32 (SM3_rotl32 A 12 + E + T) 7;
         SS2 = SS1 XOR SM3_rotl32 A 12;
         FF = (if j \<le> 15 then SM3_ff0 A B C else SM3_ff1 A B C);
         TT1 = FF + D + SS2 + w1;
         GG = (if j \<le> 15 then SM3_gg0 E F G else SM3_gg1 E F G);
         TT2 = GG + H + SS1 + w
     in (TT1, A, SM3_rotl32 B 9, C, SM3_p0 TT2, E, SM3_rotl32 F 19, G))"

definition CF_T :: "nat \<Rightarrow> u32 \<Rightarrow> u32" where
  "CF_T j T = (if j = 0 then SM3_T1 else if j = 16 then SM3_rotl32 SM3_T2 16 else SM3_rotl32 T 1)"

definition CF_step :: "u32 list \<Rightarrow> u32 list \<Rightarrow> nat \<Rightarrow> u32 \<times> cf_regs \<Rightarrow> u32 \<times> cf_regs" where
  "CF_step W W1 j = (\<lambda>(T, r). let T' = CF_T j T in (T', CF_round j T' (W ! j) (W1 ! j) r))"

definition regs_of :: "u32 list \<Rightarrow> cf_regs" where
  "regs_of V = (V ! 0, V ! 1, V ! 2, V ! 3, V ! 4, V ! 5, V ! 6, V ! 7)"

definition regs_xor :: "cf_regs \<Rightarrow> u32 list \<Rightarrow> u32 list" where
  "regs_xor = (\<lambda>(A, B, C, D, E, F, G, H) V.
     [A XOR V ! 0, B XOR V ! 1, C XOR V ! 2, D XOR V ! 3, E XOR V ! 4, F XOR V ! 5, G XOR V ! 6, H XOR V ! 7])"

definition CF :: "u32 list \<Rightarrow> u32 list \<Rightarrow> u32 list \<Rightarrow> u32 list" where
  "CF W W1 V = regs_xor (snd (fold (CF_step W W1) [0..<64] (SM3_T1, regs_of V))) V"

text \<open>
  \<open>BigEndian(src, bytelen, des)\<close> on a memory: the two pointers are offsets into it, so that
  the calls with \<open>src = des\<close>, and others, are covered by one definition.
\<close>

definition BigEndian_step :: "nat \<Rightarrow> nat \<Rightarrow> nat \<Rightarrow> bytes \<Rightarrow> bytes" where
  "BigEndian_step src des i mem =
     (let tmp = mem ! (des + 4 * i);
          mem = mem[des + 4 * i := mem ! (src + 4 * i + 3)];
          mem = mem[src + 4 * i + 3 := tmp];
          tmp = mem ! (des + 4 * i + 1);
          mem = mem[des + 4 * i + 1 := mem ! (src + 4 * i + 2)]
      in mem[des + 4 * i + 2 := tmp])"

definition BigEndian :: "nat \<Rightarrow> nat \<Rightarrow> nat \<Rightarrow> bytes \<Rightarrow> bytes" where
  "BigEndian src bytelen des mem = fold (BigEndian_step src des) [0..<bytelen div 4] mem"

text \<open>Little-endian access to an array of \<open>unsigned int\<close>.\<close>

definition load_u32 :: "bytes \<Rightarrow> nat \<Rightarrow> u32" where
  "load_u32 buf i = be32 (buf ! (4 * i + 3)) (buf ! (4 * i + 2)) (buf ! (4 * i + 1)) (buf ! (4 * i))"

definition store_u32 :: "u32 \<Rightarrow> bytes" where
  "store_u32 w = [byte_at 0 w, byte_at 8 w, byte_at 16 w, byte_at 24 w]"

subsection \<open>The streaming interface\<close>

definition SM3_init :: "SM3_STATE \<Rightarrow> SM3_STATE" where
  "SM3_init md = md\<lparr>md_curlen := 0, md_length := 0, md_state := SM3_IV\<rparr>"

definition SM3_compress :: "SM3_STATE \<Rightarrow> SM3_STATE" where
  "SM3_compress md =
     (let md = md\<lparr>md_buf := BigEndian 0 64 0 (md_buf md)\<rparr>;
          W = BiToW (map (load_u32 (md_buf md)) [0..<16]);
          W1 = WToW1 W
      in md\<lparr>md_state := CF W W1 (md_state md)\<rparr>)"

definition SM3_byte :: "u8 \<Rightarrow> SM3_STATE \<Rightarrow> SM3_STATE" where
  "SM3_byte b md =
     (let md = md\<lparr>md_buf := (md_buf md)[unat (md_curlen md) := b], md_curlen := md_curlen md + 1\<rparr>
      in if md_curlen md = 64
         then let md = SM3_compress md in md\<lparr>md_length := md_length md + 512, md_curlen := 0\<rparr>
         else md)"

definition SM3_process :: "SM3_STATE \<Rightarrow> bytes \<Rightarrow> nat \<Rightarrow> SM3_STATE" where
  "SM3_process md buf len = fold SM3_byte (take len buf) md"

text \<open>\<open>for (; md->curlen < n;) { md->buf[md->curlen] = 0; md->curlen++; }\<close>\<close>

function SM3_fill :: "u32 \<Rightarrow> SM3_STATE \<Rightarrow> SM3_STATE" where
  "SM3_fill n md =
     (if md_curlen md < n
      then SM3_fill n (md\<lparr>md_buf := (md_buf md)[unat (md_curlen md) := 0], md_curlen := md_curlen md + 1\<rparr>)
      else md)"
  by pat_completeness auto
termination
  by (relation "measure (\<lambda>(n, md). unat n - unat (md_curlen md))")
    (auto simp: unat_plus_one word_less_nat_alt)

declare SM3_fill.simps [simp del]

definition SM3_append_length :: "SM3_STATE \<Rightarrow> SM3_STATE" where
  "SM3_append_length md =
     md\<lparr>md_buf := (md_buf md)
        [56 := 0, 57 := 0, 58 := 0, 59 := 0,
         63 := byte_at 0 (md_length md), 62 := byte_at 8 (md_length md),
         61 := byte_at 16 (md_length md), 60 := byte_at 24 (md_length md)]\<rparr>"

definition SM3_done :: "SM3_STATE \<Rightarrow> bytes" where
  "SM3_done md =
     (let md = md\<lparr>md_length := md_length md + push_bit 3 (md_curlen md)\<rparr>;
          md = md\<lparr>md_buf := (md_buf md)[unat (md_curlen md) := 0x80], md_curlen := md_curlen md + 1\<rparr>;
          md = (if md_curlen md > 56 then (SM3_compress (SM3_fill 64 md))\<lparr>md_curlen := 0\<rparr> else md);
          md = SM3_fill 56 md;
          md = SM3_compress (SM3_append_length md)
      in BigEndian 0 32 0 (concat (map store_u32 (md_state md))))"

definition SM3_256 :: "SM3_STATE \<Rightarrow> bytes \<Rightarrow> nat \<Rightarrow> bytes" where
  "SM3_256 md buf len = SM3_done (SM3_process (SM3_init md) buf len)"

text \<open>The self test, with the contents of the two uninitialised states.\<close>

definition SM3_Msg1 :: bytes where
  "SM3_Msg1 = [0x61, 0x62, 0x63]"

definition SM3_StdHash1 :: bytes where
  "SM3_StdHash1 = [
    0x66, 0xc7, 0xf0, 0xf4, 0x62, 0xee, 0xed, 0xd9, 0xd1, 0xf2, 0xd4, 0x6b, 0xdc, 0x10, 0xe4, 0xe2,
    0x41, 0x67, 0xc4, 0x87, 0x5c, 0xf2, 0xf7, 0xa2, 0x29, 0x7d, 0xa0, 0x2b, 0x8f, 0x4b, 0xa8, 0xe0]"

definition SM3_Msg2 :: bytes where
  "SM3_Msg2 = [
    0x61, 0x62, 0x63, 0x64, 0x61, 0x62, 0x63, 0x64, 0x61, 0x62, 0x63, 0x64, 0x61, 0x62, 0x63, 0x64,
    0x61, 0x62, 0x63, 0x64, 0x61, 0x62, 0x63, 0x64, 0x61, 0x62, 0x63, 0x64, 0x61, 0x62, 0x63, 0x64,
    0x61, 0x62, 0x63, 0x64, 0x61, 0x62, 0x63, 0x64, 0x61, 0x62, 0x63, 0x64, 0x61, 0x62, 0x63, 0x64,
    0x61, 0x62, 0x63, 0x64, 0x61, 0x62, 0x63, 0x64, 0x61, 0x62, 0x63, 0x64, 0x61, 0x62, 0x63, 0x64]"

definition SM3_StdHash2 :: bytes where
  "SM3_StdHash2 = [
    0xde, 0xbe, 0x9f, 0xf9, 0x22, 0x75, 0xb8, 0xa1, 0x38, 0x60, 0x48, 0x89, 0xc1, 0x8e, 0x5a, 0x4d,
    0x6f, 0xdb, 0x70, 0xe5, 0x38, 0x7e, 0x57, 0x65, 0x29, 0x3d, 0xcb, 0xa3, 0x9c, 0x0c, 0x57, 0x32]"

definition SM3_SelfTest :: "SM3_STATE \<Rightarrow> SM3_STATE \<Rightarrow> int" where
  "SM3_SelfTest md1 md2 =
     (let MsgHash1 = SM3_256 md1 SM3_Msg1 3;
          MsgHash2 = SM3_256 md2 SM3_Msg2 64;
          a = (if MsgHash1 = SM3_StdHash1 then 0 else 1 :: int);
          b = (if MsgHash2 = SM3_StdHash2 then 0 else 1 :: int)
      in if a = 0 \<and> b = 0 then 0 else 1)"

subsection \<open>The standard's description\<close>

definition sm3_p0 :: "u32 \<Rightarrow> u32" where
  "sm3_p0 x = x XOR word_rotl 9 x XOR word_rotl 17 x"

definition sm3_p1 :: "u32 \<Rightarrow> u32" where
  "sm3_p1 x = x XOR word_rotl 15 x XOR word_rotl 23 x"

definition sm3_t :: "nat \<Rightarrow> u32" where
  "sm3_t j = (if j < 16 then 0x79cc4519 else 0x7a879d8a)"

fun sm3_w :: "u32 list \<Rightarrow> nat \<Rightarrow> u32" where
  "sm3_w B j =
     (if j < 16 then B ! j
      else sm3_p1 (sm3_w B (j - 16) XOR sm3_w B (j - 9) XOR word_rotl 15 (sm3_w B (j - 3)))
        XOR word_rotl 7 (sm3_w B (j - 13)) XOR sm3_w B (j - 6))"

declare sm3_w.simps [simp del]

definition sm3_round :: "u32 list \<Rightarrow> nat \<Rightarrow> cf_regs \<Rightarrow> cf_regs" where
  "sm3_round B j = (\<lambda>(A, B', C, D, E, F, G, H).
     let SS1 = word_rotl 7 (word_rotl 12 A + E + word_rotl (j mod 32) (sm3_t j));
         SS2 = SS1 XOR word_rotl 12 A;
         FF = (if j < 16 then A XOR B' XOR C else (A AND B') OR (A AND C) OR (B' AND C));
         GG = (if j < 16 then E XOR F XOR G else (E AND F) OR (NOT E AND G));
         TT1 = FF + D + SS2 + (sm3_w B j XOR sm3_w B (j + 4));
         TT2 = GG + H + SS1 + sm3_w B j
     in (TT1, A, word_rotl 9 B', C, sm3_p0 TT2, E, word_rotl 19 F, G))"

text \<open>The big-endian words of a block.\<close>

definition sm3_words :: "bytes \<Rightarrow> u32 list" where
  "sm3_words b = map (\<lambda>i. be32 (b ! (4 * i)) (b ! (4 * i + 1)) (b ! (4 * i + 2)) (b ! (4 * i + 3))) [0..<16]"

definition sm3_cf :: "u32 list \<Rightarrow> bytes \<Rightarrow> u32 list" where
  "sm3_cf V b = regs_xor (fold (sm3_round (sm3_words b)) [0..<64] (regs_of V)) V"

function sm3_blocks :: "u32 list \<Rightarrow> bytes \<Rightarrow> u32 list" where
  "sm3_blocks V m = (if length m < 64 then V else sm3_blocks (sm3_cf V (take 64 m)) (drop 64 m))"
  by pat_completeness auto
termination
  by (relation "measure (\<lambda>(V, m). length m)") auto

declare sm3_blocks.simps [simp del]

definition be_bytes64 :: "u64 \<Rightarrow> bytes" where
  "be_bytes64 w = map (\<lambda>k. ucast (drop_bit k w)) [56, 48, 40, 32, 24, 16, 8, 0]"

definition sm3_pad :: "bytes \<Rightarrow> bytes" where
  "sm3_pad m = m @ [0x80] @ replicate ((119 - length m mod 64) mod 64) 0 @ be_bytes64 (of_nat (8 * length m))"

definition be_bytes32 :: "u32 \<Rightarrow> bytes" where
  "be_bytes32 w = [byte_at 24 w, byte_at 16 w, byte_at 8 w, byte_at 0 w]"

definition sm3_hash :: "bytes \<Rightarrow> bytes" where
  "sm3_hash m = concat (map be_bytes32 (sm3_blocks SM3_IV (sm3_pad m)))"

subsection \<open>The compression function\<close>

lemma SM3_rotl32_eq: "0 < n \<Longrightarrow> n < 32 \<Longrightarrow> SM3_rotl32 x n = word_rotl n x"
proof (rule bit_word_eqI)
  fix i assume i: "0 < n" "n < 32" "i < LENGTH(32)"
  have "32 - n + i = i + 32 - n" "i + 32 - n < 32 \<longleftrightarrow> i < n" using i by auto
  then show "bit (SM3_rotl32 x n) i = bit (word_rotl n x) i"
    using i bit_imp_le_length [of x "i + 32 - n"]
    by (cases "i < n") (auto simp: SM3_rotl32_def bit_push_bit_iff bit_drop_bit_eq bit_or_iff
        bit_word_rotl_iff le_mod_geq)
qed

lemma word_rotl_0 [simp]: "word_rotl 0 x = x"
  by (rule bit_word_eqI) (simp add: bit_word_rotl_iff)

lemma word_rotr_0: "word_rotr 0 x = x"
  by (rule bit_word_eqI) (simp add: bit_word_rotr_iff)

lemma word_rotl_conv_roti: "word_rotl n x = word_roti (- int n) x"
  by (cases n) (simp_all add: word_rotr_0 nat_add_distrib del: of_nat_Suc)

lemma word_rotl_Suc: "word_rotl 1 (word_rotl n x) = word_rotl (Suc n) x"
proof -
  have "word_roti (- int 1) (word_roti (- int n) x) = word_roti (- int 1 + - int n) x"
    by (simp only: word_roti_add)
  also have "- int 1 + - int n = - int (Suc n)" by simp
  finally show ?thesis by (simp only: word_rotl_conv_roti)
qed

lemma SM3_p0_eq: "SM3_p0 x = sm3_p0 x"
  by (simp add: SM3_p0_def sm3_p0_def SM3_rotl32_eq)

lemma SM3_p1_eq: "SM3_p1 x = sm3_p1 x"
  by (simp add: SM3_p1_def sm3_p1_def SM3_rotl32_eq)

lemma BiToW_eq:
  assumes "n \<le> 52"
  shows "fold BiToW_step [16..<16 + n] (map ((!) Bi) [0..<16]) = map (sm3_w Bi) [0..<16 + n]"
  using assms
proof (induction n)
  case 0
  show ?case by (simp add: sm3_w.simps)
next
  case (Suc n)
  have "sm3_w Bi (16 + n) = sm3_p1 (sm3_w Bi n XOR sm3_w Bi (n + 7) XOR word_rotl 15 (sm3_w Bi (n + 13)))
        XOR word_rotl 7 (sm3_w Bi (n + 3)) XOR sm3_w Bi (n + 10)"
    by (subst sm3_w.simps) (simp add: add.commute)
  moreover have "[0..<16 + Suc n] = [0..<16 + n] @ [16 + n]"
    by (metis add_Suc_right upt_Suc_append zero_le)
  ultimately have "BiToW_step (16 + n) (map (sm3_w Bi) [0..<16 + n]) = map (sm3_w Bi) [0..<16 + Suc n]"
    by (simp only: map_append) (simp add: BiToW_step_def Let_def SM3_p1_eq SM3_rotl32_eq add.commute)
  moreover have "[16..<16 + Suc n] = [16..<16 + n] @ [16 + n]"
    by (metis add_Suc_right upt_Suc_append le_add1)
  ultimately show ?case
    using Suc by (simp only: fold_append fold.simps comp_def id_def)
qed

lemma nth_BiToW: "j < 68 \<Longrightarrow> BiToW Bi ! j = sm3_w Bi j"
  using BiToW_eq [of 52 Bi] by (simp add: BiToW_def)

lemma CF_T_first [simp]: "CF_T 0 T = word_rotl 0 (sm3_t 0)"
  by (simp add: CF_T_def sm3_t_def SM3_T1_def)

lemma CF_T_Suc: "CF_T (Suc j) (word_rotl (j mod 32) (sm3_t j)) = word_rotl (Suc j mod 32) (sm3_t (Suc j))"
proof -
  consider "j < 15" | "j = 15" | "15 < j" by linarith
  then show ?thesis
  proof cases
    case 3
    then have "CF_T (Suc j) (word_rotl (j mod 32) (sm3_t j)) = word_rotl (Suc (j mod 32)) (sm3_t (Suc j))"
      by (simp add: CF_T_def SM3_rotl32_eq word_rotl_Suc [simplified] sm3_t_def)
    also have "\<dots> = word_rotl (Suc j mod 32) (sm3_t (Suc j))"
      by (rule bit_word_eqI) (simp add: bit_word_rotl_iff mod_Suc_eq)
    finally show ?thesis .
  qed (simp_all add: CF_T_def SM3_rotl32_eq word_rotl_Suc [simplified] sm3_t_def SM3_T2_def)
qed

lemma CF_step_pair:
  "CF_step W W1 j (T, r) = (CF_T j T, CF_round j (CF_T j T) (W ! j) (W1 ! j) r)"
  by (simp add: CF_step_def Let_def)

lemma CF_loop:
  assumes "n \<le> 64"
  shows "snd (fold (CF_step (BiToW B) (WToW1 (BiToW B))) [0..<n] (T, r)) = fold (sm3_round B) [0..<n] r \<and>
    (0 < n \<longrightarrow> fst (fold (CF_step (BiToW B) (WToW1 (BiToW B))) [0..<n] (T, r)) =
      word_rotl ((n - 1) mod 32) (sm3_t (n - 1)))"
  using assms
proof (induction n)
  case (Suc n)
  obtain T' r' where s: "fold (CF_step (BiToW B) (WToW1 (BiToW B))) [0..<n] (T, r) = (T', r')"
    by (rule prod.exhaust)
  have T: "CF_T n T' = word_rotl (n mod 32) (sm3_t n)"
    using Suc s CF_T_Suc [of "n - 1"] by (cases n) auto
  have w: "BiToW B ! n = sm3_w B n" "WToW1 (BiToW B) ! n = sm3_w B n XOR sm3_w B (n + 4)"
    using Suc.prems by (simp_all add: nth_BiToW WToW1_def)
  have "CF_round n (CF_T n T') (BiToW B ! n) (WToW1 (BiToW B) ! n) r' = sm3_round B n r'"
    unfolding T w by (simp add: CF_round_def sm3_round_def Let_def SM3_rotl32_eq SM3_p0_eq
        SM3_ff0_def SM3_ff1_def SM3_gg0_def SM3_gg1_def less_Suc_eq_le [of n 15, simplified]
        split: prod.split)
  then show ?case using Suc s by (simp add: CF_step_pair T)
qed simp

lemma CF_eq: "CF (BiToW B) (WToW1 (BiToW B)) V = regs_xor (fold (sm3_round B) [0..<64] (regs_of V)) V"
  using CF_loop [of 64 B SM3_T1 "regs_of V"] by (simp add: CF_def)

subsection \<open>Byte order\<close>

lemma BigEndian_step_in_place:
  "4 * i + 3 < length mem \<Longrightarrow> BigEndian_step 0 0 i mem =
     mem[4 * i := mem ! (4 * i + 3), 4 * i + 3 := mem ! (4 * i),
         4 * i + 1 := mem ! (4 * i + 2), 4 * i + 2 := mem ! (4 * i + 1)]"
  by (simp add: BigEndian_step_def Let_def)

lemma word_pos_eq: "a < 4 \<Longrightarrow> b < 4 \<Longrightarrow> 4 * i + a = 4 * j + b \<longleftrightarrow> i = j \<and> a = (b :: nat)"
  by presburger

lemma length_BigEndian [len_simps, simp]: "length (BigEndian src n des mem) = length mem"
proof -
  have "length (fold (BigEndian_step src des) is mem) = length mem" for "is"
    by (induction "is" arbitrary: mem) (simp_all add: BigEndian_step_def Let_def)
  then show ?thesis by (simp add: BigEndian_def)
qed

lemma nth_BigEndian_step:
  assumes "4 * n + 3 < length mem" and "k < 4" and "4 * i + k < length mem"
  shows "BigEndian_step 0 0 n mem ! (4 * i + k) = mem ! (4 * i + (if i = n then 3 - k else k))"
proof -
  have "k = 0 \<or> k = 1 \<or> k = 2 \<or> k = 3" using assms(2) by auto
  then show ?thesis
    using assms word_pos_eq [of k 0 i n] word_pos_eq [of k 1 i n] word_pos_eq [of k 2 i n]
      word_pos_eq [of k 3 i n]
    by (cases "i = n") (auto simp: BigEndian_step_in_place nth_list_update)
qed

lemma nth_BigEndian_loop:
  assumes "4 * n \<le> length mem" and "k < 4" and "4 * i + k < length mem"
  shows "fold (BigEndian_step 0 0) [0..<n] mem ! (4 * i + k) =
    mem ! (4 * i + (if i < n then 3 - k else k))"
  using assms
proof (induction n arbitrary: k)
  case (Suc n)
  let ?m = "fold (BigEndian_step 0 0) [0..<n] mem"
  have "length ?m = length mem" using length_BigEndian [of 0 "4 * n" 0 mem] by (simp add: BigEndian_def)
  then have "fold (BigEndian_step 0 0) [0..<Suc n] mem ! (4 * i + k) =
      ?m ! (4 * i + (if i = n then 3 - k else k))"
    using Suc.prems nth_BigEndian_step [of n ?m k i] by simp
  also have "\<dots> = mem ! (4 * i + (if i < Suc n then 3 - k else k))"
    using Suc.prems Suc.IH [of k] Suc.IH [of "3 - k"] by (auto simp: less_Suc_eq)
  finally show ?case .
qed simp

lemma nth_BigEndian_all:
  "4 * n \<le> length mem \<Longrightarrow> k < 4 \<Longrightarrow> 4 * i + k < length mem \<Longrightarrow>
    BigEndian 0 (4 * n) 0 mem ! (4 * i + k) = mem ! (4 * i + (if i < n then 3 - k else k))"
  using nth_BigEndian_loop [of n mem k i] by (simp add: BigEndian_def)

lemma nth_BigEndian:
  "4 * n \<le> length mem \<Longrightarrow> i < n \<Longrightarrow> k < 4 \<Longrightarrow> BigEndian 0 (4 * n) 0 mem ! (4 * i + k) = mem ! (4 * i + (3 - k))"
  using nth_BigEndian_loop [of n mem k i] by (simp add: BigEndian_def)

subsection \<open>The streaming interface computes the standard's hash\<close>

lemma load_BigEndian:
  assumes "length buf = 64"
  shows "map (load_u32 (BigEndian 0 64 0 buf)) [0..<16] = sm3_words buf"
proof -
  have "load_u32 (BigEndian 0 64 0 buf) i =
      be32 (buf ! (4 * i)) (buf ! (4 * i + 1)) (buf ! (4 * i + 2)) (buf ! (4 * i + 3))" if "i < 16" for i
    using nth_BigEndian [of 16 buf i 0] nth_BigEndian [of 16 buf i 1] nth_BigEndian [of 16 buf i 2]
      nth_BigEndian [of 16 buf i 3] that assms by (simp add: load_u32_def)
  then show ?thesis by (simp add: sm3_words_def)
qed

lemma SM3_compress_simps [simp]:
  "md_length (SM3_compress md) = md_length md" "md_curlen (SM3_compress md) = md_curlen md"
  "length (md_buf (SM3_compress md)) = length (md_buf md)"
  by (simp_all add: SM3_compress_def Let_def)

lemma SM3_compress_state:
  "length (md_buf md) = 64 \<Longrightarrow> md_state (SM3_compress md) = sm3_cf (md_state md) (md_buf md)"
  by (simp add: SM3_compress_def Let_def load_BigEndian CF_eq sm3_cf_def)

lemma length_sm3_cf [simp]: "length (sm3_cf V b) = 8"
  by (simp add: sm3_cf_def regs_xor_def split: prod.split)

lemma sm3_blocks_short: "length m < 64 \<Longrightarrow> sm3_blocks V m = V"
  by (simp add: sm3_blocks.simps)

lemma sm3_blocks_Cons: "length b = 64 \<Longrightarrow> sm3_blocks V (b @ m) = sm3_blocks (sm3_cf V b) m"
  by (simp add: sm3_blocks.simps [of V])

lemma sm3_blocks_append:
  "length a = 64 * q \<Longrightarrow> sm3_blocks V (a @ m) = sm3_blocks (sm3_blocks V a) m"
proof (induction q arbitrary: V a)
  case 0
  then show ?case by (simp add: sm3_blocks_short)
next
  case (Suc q)
  then have a: "a = take 64 a @ drop 64 a" "length (take 64 a) = 64" "length (drop 64 a) = 64 * q" by simp_all
  have "sm3_blocks V (a @ m) = sm3_blocks (sm3_cf V (take 64 a)) (drop 64 a @ m)"
    using sm3_blocks_Cons [OF a(2), of V "drop 64 a @ m"] by (simp flip: append.assoc)
  also have "\<dots> = sm3_blocks (sm3_blocks V a) m"
    using Suc.IH [OF a(3)] sm3_blocks_Cons [OF a(2), of V "drop 64 a"] by simp
  finally show ?case .
qed

text \<open>
  The state after the bytes \<open>m\<close>: the full blocks of \<open>m\<close> are compressed, the rest waits
  at the front of the buffer.
\<close>

definition sm3_inv :: "bytes \<Rightarrow> SM3_STATE \<Rightarrow> bool" where
  "sm3_inv m md \<longleftrightarrow>
     (\<exists>a t. m = a @ t \<and> length t < 64 \<and> 64 dvd length a \<and> md_state md = sm3_blocks SM3_IV a \<and>
       length (md_buf md) = 64 \<and> take (length t) (md_buf md) = t \<and>
       md_curlen md = of_nat (length t) \<and> md_length md = of_nat (8 * length a))"

lemma SM3_init_inv: "length (md_buf md) = 64 \<Longrightarrow> sm3_inv [] (SM3_init md)"
  by (simp add: sm3_inv_def SM3_init_def sm3_blocks_short)

lemma SM3_byte_inv:
  assumes "sm3_inv m md"
  shows "sm3_inv (m @ [b]) (SM3_byte b md)"
proof -
  from assms obtain a t where m: "m = a @ t" "length t < 64" "64 dvd length a"
    and md: "md_state md = sm3_blocks SM3_IV a" "length (md_buf md) = 64" "take (length t) (md_buf md) = t"
      "md_curlen md = of_nat (length t)" "md_length md = of_nat (8 * length a)"
    unfolding sm3_inv_def by blast
  define md' where "md' = md\<lparr>md_buf := (md_buf md)[length t := b], md_curlen := md_curlen md + 1\<rparr>"
  have u: "unat (md_curlen md) = length t" using m(2) md(4) by (simp add: unat_of_nat)
  have buf: "take (Suc (length t)) (md_buf md') = t @ [b]" "length (md_buf md') = 64"
    using m(2) md(2,3) by (simp_all add: md'_def take_Suc_conv_app_nth)
  have cur: "md_curlen md' = of_nat (Suc (length t))" by (simp add: md'_def md(4))
  have full: "md_curlen md' = 64 \<longleftrightarrow> Suc (length t) = 64"
  proof -
    have "md_curlen md' = 64 \<longleftrightarrow> unat (md_curlen md') = 64" by (simp add: word_unat_eq_iff)
    also have "unat (md_curlen md') = Suc (length t)" using m(2) unfolding cur by (subst unat_of_nat) simp
    finally show ?thesis .
  qed
  have byte: "SM3_byte b md = (if md_curlen md' = 64
      then (SM3_compress md')\<lparr>md_length := md_length (SM3_compress md') + 512, md_curlen := 0\<rparr> else md')"
    by (simp only: SM3_byte_def Let_def u md'_def)
  show ?thesis
  proof (cases "Suc (length t) = 64")
    case True
    then have e: "SM3_byte b md = (SM3_compress md')\<lparr>md_length := md_length md' + 512, md_curlen := 0\<rparr>"
      using full by (simp add: byte)
    have "md_buf md' = t @ [b]" using buf True by simp
    moreover have "md_state md' = sm3_blocks SM3_IV a" by (simp add: md'_def md(1))
    moreover have "sm3_blocks V (t @ [b]) = sm3_cf V (t @ [b])" for V
      using sm3_blocks_Cons [of "t @ [b]" V "[]"] True by (simp add: sm3_blocks_short)
    moreover have "sm3_blocks V (a @ t @ [b]) = sm3_blocks (sm3_blocks V a) (t @ [b])" for V
      using m(3) by (intro sm3_blocks_append [of a "length a div 64"]) simp
    ultimately have st: "md_state (SM3_byte b md) = sm3_blocks SM3_IV (a @ t @ [b])"
      using buf(2) by (simp add: e SM3_compress_state)
    have len: "length (a @ t @ [b]) = length a + 64" using True by simp
    have "md_length (SM3_byte b md) = of_nat (8 * length (a @ t @ [b]))"
      unfolding len by (simp add: e md'_def md(5))
    then show ?thesis
      unfolding sm3_inv_def using m(1,3) st buf(2) len
      by (intro exI [of _ "a @ t @ [b]"] exI [of _ "[]"]) (simp add: e del: length_append)
  next
    case False
    then have "SM3_byte b md = md'" using full by (simp add: byte)
    then show ?thesis
      unfolding sm3_inv_def
      by (intro exI [of _ a] exI [of _ "t @ [b]"]) (use m md False buf cur in \<open>auto simp: md'_def\<close>)
  qed
qed

lemma SM3_process_inv: "sm3_inv m md \<Longrightarrow> sm3_inv (m @ take len buf) (SM3_process md buf len)"
proof -
  have "sm3_inv m md \<Longrightarrow> sm3_inv (m @ xs) (fold SM3_byte xs md)" for xs
  proof (induction xs arbitrary: m md)
    case (Cons x xs)
    then show ?case using Cons.IH [OF SM3_byte_inv [OF Cons.prems, of x]] by simp
  qed simp
  then show "sm3_inv m md \<Longrightarrow> ?thesis" by (simp add: SM3_process_def)
qed

lemma SM3_fill_eq:
  assumes "md_curlen md \<le> n" and "unat n \<le> length (md_buf md)"
  shows "SM3_fill n md = md\<lparr>md_curlen := n, md_buf := take (unat (md_curlen md)) (md_buf md) @
      replicate (unat n - unat (md_curlen md)) 0 @ drop (unat n) (md_buf md)\<rparr>"
  using assms
proof (induction n md rule: SM3_fill.induct)
  case (1 n md)
  let ?c = "unat (md_curlen md)"
  show ?case
  proof (cases "md_curlen md < n")
    case True
    then have c: "?c < unat n" "unat (md_curlen md + 1) = Suc ?c" "md_curlen md + 1 \<le> n"
      by (simp_all add: word_less_nat_alt unat_plus_one inc_le)
    then have r: "unat n - ?c = Suc (unat n - Suc ?c)" by simp
    show ?thesis
      using 1 True c by (subst SM3_fill.simps) (simp add: take_Suc_conv_app_nth r)
  next
    case False
    then have "md_curlen md = n" using 1(2) by simp
    then show ?thesis by (subst SM3_fill.simps) simp
  qed
qed

text \<open>The last eight bytes of the padding, when the length fits 32 bits.\<close>

lemma be_bytes64_small:
  assumes "n < 2 ^ 32"
  shows "be_bytes64 (of_nat n) = [0, 0, 0, 0] @ be_bytes32 (of_nat n)"
proof -
  have n: "bit n i \<Longrightarrow> i < 32" for i
    using assms by (metis bit_take_bit_iff take_bit_nat_eq_self)
  have bits: "bit (of_nat n :: u64) i = bit (of_nat n :: u32) i" for i
    using n [of i] by (auto simp: bit_of_nat_iff)
  have hi: "ucast (drop_bit k (of_nat n :: u64)) = (0 :: u8)" if "32 \<le> k" for k
    by (rule bit_word_eqI) (use that in \<open>auto simp: bits bit_drop_bit_eq bit_ucast_iff dest: bit_imp_le_length\<close>)
  have lo: "ucast (drop_bit k (of_nat n :: u64)) = byte_at k (of_nat n)" for k
    by (rule bit_word_eqI) (simp add: bits bit_drop_bit_eq bit_ucast_iff byte_at_def bit_and_iff
        bit_255_iff bit_numeral_word_iff)
  show ?thesis by (simp add: be_bytes64_def be_bytes32_def hi lo [of 24] lo [of 16] lo [of 8] lo [of 0, simplified])
qed

lemma list8_cases:
  assumes "length xs = 8"
  obtains a b c d e f g h where "xs = [a, b, c, d, e, f, g, h]"
  using assms by (auto simp: length_Suc_conv eval_nat_numeral)

lemma SM3_append_length_buf:
  assumes "length (md_buf md) = 64"
  shows "md_buf (SM3_append_length md) = take 56 (md_buf md) @ [0, 0, 0, 0] @ be_bytes32 (md_length md)"
proof -
  have "length (drop 56 (md_buf md)) = 8" using assms by simp
  then obtain a b c d e f g h where d: "drop 56 (md_buf md) = [a, b, c, d, e, f, g, h]"
    by (rule list8_cases)
  define xs where "xs = take 56 (md_buf md)"
  have "md_buf md = xs @ [a, b, c, d, e, f, g, h]" unfolding xs_def d [symmetric] by simp
  moreover have "length xs = 56" using assms by (simp add: xs_def)
  ultimately show ?thesis
    by (simp add: SM3_append_length_def be_bytes32_def list_update_append)
qed

lemma store_BigEndian:
  assumes "length V = 8"
  shows "BigEndian 0 32 0 (concat (map store_u32 V)) = concat (map be_bytes32 V)"
proof -
  obtain a b c d e f g h where "V = [a, b, c, d, e, f, g, h]"
    using assms by (rule list8_cases)
  then show ?thesis
    by (simp add: BigEndian_def BigEndian_step_def store_u32_def be_bytes32_def upt_rec Let_def)
qed

lemma SM3_fill_simps [simp]:
  "md_state (SM3_fill n md) = md_state md" "md_length (SM3_fill n md) = md_length md"
  "length (md_buf (SM3_fill n md)) = length (md_buf md)"
  by (induction n md rule: SM3_fill.induct; subst SM3_fill.simps; simp)+

lemma SM3_append_length_simps [simp]:
  "md_state (SM3_append_length md) = md_state md"
  "length (md_buf (SM3_append_length md)) = length (md_buf md)"
  by (simp_all add: SM3_append_length_def)

lemma length_be_bytes32 [len_simps, simp]: "length (be_bytes32 w) = 4"
  by (simp add: be_bytes32_def)

lemma SM3_last_block:
  assumes "length (md_buf md) = 64" and "unat (md_curlen md) = c" and "c \<le> 56"
  shows "md_state (SM3_compress (SM3_append_length (SM3_fill 56 md))) =
    sm3_cf (md_state md) (take c (md_buf md) @ replicate (56 - c) 0 @ [0, 0, 0, 0] @ be_bytes32 (md_length md))"
proof -
  have "md_curlen md \<le> 56" using assms by (simp add: word_le_nat_alt)
  then have "SM3_fill 56 md = md\<lparr>md_curlen := 56, md_buf := take c (md_buf md) @
      replicate (56 - c) 0 @ drop 56 (md_buf md)\<rparr>"
    using assms SM3_fill_eq [of md 56] by simp
  then have "take 56 (md_buf (SM3_fill 56 md)) = take c (md_buf md) @ replicate (56 - c) 0"
    using assms by simp
  then show ?thesis
    using assms by (simp add: SM3_compress_state SM3_append_length_buf)
qed

lemma SM3_extra_block:
  assumes "length (md_buf md) = 64" and "unat (md_curlen md) = c" and "c \<le> 64"
  shows "md_state (SM3_compress (SM3_fill 64 md)) =
    sm3_cf (md_state md) (take c (md_buf md) @ replicate (64 - c) 0)"
proof -
  have "md_curlen md \<le> 64" using assms by (simp add: word_le_nat_alt)
  then show ?thesis
    using assms SM3_fill_eq [of md 64] by (simp add: SM3_compress_state)
qed

definition SM3_finish :: "SM3_STATE \<Rightarrow> u32 list" where
  "SM3_finish md = md_state (SM3_compress (SM3_append_length (SM3_fill 56
     (if md_curlen md > 56 then (SM3_compress (SM3_fill 64 md))\<lparr>md_curlen := 0\<rparr> else md))))"

lemma SM3_finish_eq:
  assumes "length (md_buf md) = 64" and "unat (md_curlen md) = Suc r" and "r < 64"
    and "take (Suc r) (md_buf md) = p"
  shows "SM3_finish md = sm3_blocks (md_state md)
    (p @ replicate ((119 - r) mod 64) 0 @ [0, 0, 0, 0] @ be_bytes32 (md_length md))"
proof (cases "56 < Suc r")
  case True
  let ?len = "[0, 0, 0, 0] @ be_bytes32 (md_length md)"
  have len: "length ?len = 8" "length p = Suc r" using assms by (auto simp: be_bytes32_def)
  have c: "md_curlen md > 56" using True assms(2) by (simp add: word_less_nat_alt)
  have r: "(119 - r) mod 64 = (63 - r) + 56" using True assms(3) by simp
  have "sm3_blocks (md_state md) ((p @ replicate (63 - r) 0) @ (replicate 56 0 @ ?len)) =
      sm3_cf (sm3_cf (md_state md) (p @ replicate (63 - r) 0)) (replicate 56 0 @ ?len)"
    using len True assms(3) sm3_blocks_Cons [of "replicate 56 0 @ ?len" _ "[]"]
      sm3_blocks_Cons [of "p @ replicate (63 - r) 0" "md_state md" "replicate 56 0 @ ?len"]
    by (simp add: sm3_blocks_short)
  moreover have "SM3_finish md = sm3_cf (sm3_cf (md_state md) (p @ replicate (63 - r) 0)) (replicate 56 0 @ ?len)"
    using c assms SM3_extra_block [of md "Suc r"]
      SM3_last_block [of "(SM3_compress (SM3_fill 64 md))\<lparr>md_curlen := 0\<rparr>" 0]
    by (simp add: SM3_finish_def)
  ultimately show ?thesis unfolding r replicate_add by simp
next
  case False
  let ?len = "[0, 0, 0, 0] @ be_bytes32 (md_length md)"
  have "\<not> md_curlen md > 56" using False assms(2) by (simp add: word_less_nat_alt)
  moreover have "(119 - r) mod 64 = 55 - r" using False by (simp add: mod_if)
  moreover have "length (p @ replicate (55 - r) 0 @ ?len) = 64"
    using assms(1,4) False by (auto simp: be_bytes32_def)
  ultimately show ?thesis
    using False assms SM3_last_block [of md "Suc r"] sm3_blocks_Cons [of _ "md_state md" "[]"]
    by (simp add: SM3_finish_def sm3_blocks_short)
qed

lemma length_SM3_finish: "length (SM3_finish md) = 8"
  by (simp add: SM3_finish_def SM3_compress_def Let_def CF_def regs_xor_def split: prod.split)

lemma SM3_done_finish:
  "SM3_done md = concat (map be_bytes32 (SM3_finish
     (md\<lparr>md_length := md_length md + push_bit 3 (md_curlen md),
         md_buf := (md_buf md)[unat (md_curlen md) := 0x80], md_curlen := md_curlen md + 1\<rparr>)))"
  unfolding SM3_done_def Let_def store_BigEndian [OF length_SM3_finish, unfolded SM3_finish_def, symmetric]
    SM3_finish_def by simp

lemma SM3_done_eq:
  assumes "sm3_inv m md" and "8 * length m < 2 ^ 32"
  shows "SM3_done md = sm3_hash m"
proof -
  from assms(1) obtain a t where m: "m = a @ t" "length t < 64" "64 dvd length a"
    and md: "md_state md = sm3_blocks SM3_IV a" "length (md_buf md) = 64" "take (length t) (md_buf md) = t"
      "md_curlen md = of_nat (length t)" "md_length md = of_nat (8 * length a)"
    unfolding sm3_inv_def by blast
  let ?L = "of_nat (8 * length m) :: u32" and ?r = "length t"
  define md1 where "md1 = md\<lparr>md_length := md_length md + push_bit 3 (md_curlen md),
         md_buf := (md_buf md)[unat (md_curlen md) := 0x80], md_curlen := md_curlen md + 1\<rparr>"
  have u: "unat (md_curlen md) = ?r" using m(2) md(4) by (simp add: unat_of_nat)
  have L: "md_length md + push_bit 3 (md_curlen md) = ?L"
    by (simp add: md(4,5) m(1) push_bit_eq_mult algebra_simps)
  have "md_curlen md < 64" using u m(2) by (simp add: word_less_nat_alt)
  then have c1: "unat (md_curlen md1) = Suc ?r" by (simp add: md1_def u unat_plus_one)
  have b1: "length (md_buf md1) = 64" "take (Suc ?r) (md_buf md1) = t @ [0x80]"
    using m(2) md(2,3) by (simp_all add: md1_def u take_Suc_conv_app_nth)
  have s1: "md_state md1 = sm3_blocks SM3_IV a" "md_length md1 = ?L" by (simp_all add: md1_def md(1) L)
  have r: "length m mod 64 = ?r" using m by (auto elim!: dvdE)
  have "sm3_blocks SM3_IV (sm3_pad m) = sm3_blocks (sm3_blocks SM3_IV a)
      ((t @ [0x80]) @ replicate ((119 - ?r) mod 64) 0 @ [0, 0, 0, 0] @ be_bytes32 ?L)"
    unfolding sm3_pad_def r be_bytes64_small [OF assms(2)] using m(3)
    by (simp add: m(1) sm3_blocks_append [of a "length a div 64"])
  then show ?thesis
    using SM3_finish_eq [OF b1(1) c1 m(2) b1(2)]
    by (simp only: SM3_done_finish sm3_hash_def s1 flip: md1_def)
qed

subsection \<open>The interface of a message digest\<close>

text \<open>
  What the callers of the streaming interface rely on: \<open>init\<close> makes a usable state out of
  any struct of the right shape, \<open>update\<close> appends bytes, \<open>finish\<close> gives the digest
  of all bytes so far. \<open>absorbed m s\<close> says that \<open>s\<close> has taken in \<open>m\<close>.
\<close>

locale message_digest =
  fixes shape :: "'s \<Rightarrow> bool" and init :: "'s \<Rightarrow> 's" and update :: "'s \<Rightarrow> bytes \<Rightarrow> nat \<Rightarrow> 's"
    and finish :: "'s \<Rightarrow> bytes" and absorbed :: "bytes \<Rightarrow> 's \<Rightarrow> bool" and H :: "bytes \<Rightarrow> bytes"
    and bound :: nat
  assumes absorbed_init: "shape s \<Longrightarrow> absorbed [] (init s)"
    and absorbed_update: "absorbed m s \<Longrightarrow> absorbed (m @ take n b) (update s b n)"
    and finish_absorbed: "absorbed m s \<Longrightarrow> length m < bound \<Longrightarrow> finish s = H m"
begin

definition updates :: "(bytes \<times> nat) list \<Rightarrow> 's \<Rightarrow> 's" where
  "updates ps s = fold (\<lambda>(b, n) s. update s b n) ps s"

lemma absorbed_updates:
  "absorbed m s \<Longrightarrow> absorbed (m @ concat (map (\<lambda>(b, n). take n b) ps)) (updates ps s)"
proof (induction ps arbitrary: m s)
  case (Cons p ps)
  obtain b n where p: "p = (b, n)" by fastforce
  show ?case
    using Cons.IH [OF absorbed_update [OF Cons.prems, of n b]] by (simp add: updates_def p)
qed (simp add: updates_def)

lemma digest_pieces:
  assumes "shape s" and "length (concat (map (\<lambda>(b, n). take n b) ps)) < bound"
  shows "finish (updates ps (init s)) = H (concat (map (\<lambda>(b, n). take n b) ps))"
  using finish_absorbed [OF absorbed_updates [OF absorbed_init [OF assms(1)], of ps]] assms(2) by simp

lemma digest_once:
  assumes "shape s" and "length (take n b) < bound"
  shows "finish (update (init s) b n) = H (take n b)"
  using digest_pieces [of s "[(b, n)]"] assms by (simp add: updates_def)

end

interpretation sm3: message_digest "\<lambda>md. length (md_buf md) = 64" SM3_init SM3_process SM3_done sm3_inv sm3_hash
  "2 ^ 29"
  by unfold_locales (simp_all add: SM3_init_inv SM3_process_inv SM3_done_eq)

subsection \<open>Properties\<close>



text \<open>
  C27: The digest does not depend on how a message is cut into calls of \<open>SM3_process\<close>:
  any sequence of calls gives the hash of the concatenation.
\<close>

theorem SM3_streaming:
  assumes "length (md_buf md) = 64" and "length (concat (map (\<lambda>(b, n). take n b) ps)) < 2 ^ 29"
  shows "SM3_done (fold (\<lambda>(b, n) md. SM3_process md b n) ps (SM3_init md)) =
    sm3_hash (concat (map (\<lambda>(b, n). take n b) ps))"
  using sm3.digest_pieces [OF assms] by (simp add: sm3.updates_def)

theorem SM3_streaming_witness:
  "SM3_done (SM3_process (SM3_process (SM3_init
      \<lparr>md_state = [], md_length = 7, md_curlen = 9, md_buf = replicate 64 0xAA\<rparr>) [1, 2, 3] 2) [4] 1) =
    sm3_hash [1, 2, 4]"
  using SM3_streaming [of "\<lparr>md_state = [], md_length = 7, md_curlen = 9, md_buf = replicate 64 0xAA\<rparr>"
      "[([1, 2, 3], 2), ([4], 1)]"] by (simp add: take_Cons')

text \<open>
  \<open>BigEndian\<close> called, as everywhere in the file, with the same address for source and
  destination reverses the bytes of every word, and doing it twice changes nothing.
\<close>

lemma BigEndian_in_place:
  assumes "4 * n \<le> length mem"
  shows "(\<forall>i k. i < n \<and> k < 4 \<longrightarrow> BigEndian 0 (4 * n) 0 mem ! (4 * i + k) = mem ! (4 * i + (3 - k))) \<and>
    BigEndian 0 (4 * n) 0 (BigEndian 0 (4 * n) 0 mem) = mem"
proof (intro conjI nth_equalityI allI impI)
  fix p assume "p < length (BigEndian 0 (4 * n) 0 (BigEndian 0 (4 * n) 0 mem))"
  then have p: "p = 4 * (p div 4) + p mod 4" "p mod 4 < 4" "p < length mem" by simp_all
  have "BigEndian 0 (4 * n) 0 (BigEndian 0 (4 * n) 0 mem) ! (4 * (p div 4) + p mod 4) =
      mem ! (4 * (p div 4) + p mod 4)"
    using assms p(2,3) nth_BigEndian_all [of n "BigEndian 0 (4 * n) 0 mem" "p mod 4" "p div 4"]
      nth_BigEndian_all [of n mem "if p div 4 < n then 3 - p mod 4 else p mod 4" "p div 4"]
    by (cases "p div 4 < n") simp_all
  then show "BigEndian 0 (4 * n) 0 (BigEndian 0 (4 * n) 0 mem) ! p = mem ! p" by (simp only: flip: p(1))
qed (use assms nth_BigEndian in auto)

lemma BigEndian_in_place_example:
  "BigEndian 0 8 0 (BigEndian 0 8 0 [1, 2, 3, 4, 5, 6, 7, 8, 9]) = [1, 2, 3, 4, 5, 6, 7, 8, 9]"
  using BigEndian_in_place [of 2 "[1, 2, 3, 4, 5, 6, 7, 8, 9]"] by simp

text \<open>
  Called with two disjoint arrays \<open>BigEndian\<close> does not convert: the upper half of each
  destination word keeps old destination bytes and the last source byte is overwritten. Only
  the calls with one array work, although the function's interface has two.
\<close>

lemma BigEndian_two_arrays:
  "BigEndian 0 4 4 [s0, s1, s2, s3, d0, d1, d2, d3] = [s0, s1, s2, d0, s3, s2, d1, d3]"
  by (simp add: BigEndian_def BigEndian_step_def Let_def)

text \<open>The self test tells whether the hash of the standard has the two test vectors.\<close>

lemma SM3_SelfTest_iff:
  assumes "length (md_buf md1) = 64" and "length (md_buf md2) = 64"
  shows "SM3_SelfTest md1 md2 = (if sm3_hash SM3_Msg1 = SM3_StdHash1 \<and> sm3_hash SM3_Msg2 = SM3_StdHash2 then 0 else 1)"
proof -
  have "length SM3_Msg1 = 3" "length SM3_Msg2 = 64" by (simp_all add: SM3_Msg1_def SM3_Msg2_def)
  then have "SM3_256 md1 SM3_Msg1 3 = sm3_hash SM3_Msg1" "SM3_256 md2 SM3_Msg2 64 = sm3_hash SM3_Msg2"
    using sm3.digest_once [OF assms(1), of 3 SM3_Msg1] sm3.digest_once [OF assms(2), of 64 SM3_Msg2] by (simp_all add: SM3_256_def)
  then show ?thesis by (simp add: SM3_SelfTest_def)
qed

end
