(* ===== verification/Random_Numbers.thy ===== *)
theory Random_Numbers
  imports Prelude
begin

text \<open>
  The random numbers of the cryptographic library: the generator of MIRACL (\<^verbatim>\<open>mrcore.c\<close>:
  \<open>brand\<close>, \<open>irand\<close> and the quick start in \<open>mirsys\<close>; \<^verbatim>\<open>mrrand.c\<close>: \<open>bigrand\<close>,
  \<open>bigdig\<close>) and the two functions of \<^verbatim>\<open>Random.c\<close> on top of it. Big numbers are natural
  numbers, except in \<open>bigrand\<close>, which builds its number word by word and compares words. A
  loop that ends only when the generator gives a number that is large enough is a partial
  function with the value \<open>None\<close> for not ending.
\<close>

subsection \<open>The generator\<close>

definition NK :: nat where "NK = 37"
definition NJ :: nat where "NJ = 24"
definition NV :: nat where "NV = 14"

record rng =
  ira :: "u32 list"
  rndptr :: nat
  borrow :: u32

primrec quick_ira :: "nat \<Rightarrow> u32 list \<Rightarrow> u32 list" where
  "quick_ira 0 xs = xs"
| "quick_ira (Suc i) xs = quick_ira i (xs @ [xs ! (length xs - 1) + xs ! (length xs - 2) + 0x1379BDF1])"

definition quick_start :: rng where
  "quick_start = \<lparr>ira = quick_ira (NK - 2) [0x55555555, 0x12345678], rndptr = NK, borrow = 0\<rparr>"

text \<open>The next \<open>NK\<close> values, subtracting with borrow; \<open>k\<close> runs \<open>NK - NJ\<close> ahead of \<open>i\<close>.\<close>

function brand_fill :: "nat \<Rightarrow> nat \<Rightarrow> rng \<Rightarrow> rng" where
  "brand_fill i k g =
     (if i < NK
      then let k = (if k = NK then 0 else k);
               t = ira g ! k;
               pdiff = t - ira g ! i - borrow g;
               b = (if pdiff < t then 0 else borrow g);
               b = (if pdiff > t then 1 else b)
           in brand_fill (i + 1) (k + 1) (g\<lparr>ira := (ira g)[i := pdiff], borrow := b\<rparr>)
      else g)"
  by pat_completeness auto
termination by (relation "measure (\<lambda>(i, k, g). NK - i)") auto

declare brand_fill.simps [simp del]

definition brand :: "rng \<Rightarrow> u32 \<times> rng" where
  "brand g =
     (let g = g\<lparr>rndptr := rndptr g + 1\<rparr>
      in if rndptr g < NK then (ira g ! rndptr g, g)
         else let g = brand_fill 0 (NK - NJ) (g\<lparr>rndptr := 0\<rparr>) in (ira g ! 0, g))"

definition irand_step :: "nat \<Rightarrow> u32 list \<times> u32 \<times> u32 \<Rightarrow> u32 list \<times> u32 \<times> u32" where
  "irand_step i = (\<lambda>(xs, seed, m). (xs[(NV * i) mod NK := m], m, seed - m))"

definition irand :: "u32 \<Rightarrow> rng \<Rightarrow> rng" where
  "irand seed g =
     (let (xs, _, _) = fold irand_step [1..<NK] ((ira g)[0 := seed], seed, 1)
      in ((\<lambda>g. snd (brand g)) ^^ 1000) (g\<lparr>ira := xs, rndptr := 0, borrow := 0\<rparr>))"

subsection \<open>Big numbers\<close>

text \<open>The words of a positive big, least significant first, and the comparison of two of them.\<close>

fun big_words :: "nat \<Rightarrow> u32 list" where
  "big_words x = (if x = 0 then [] else of_nat x # big_words (x div 2 ^ 32))"

declare big_words.simps [simp del]

primrec words_val :: "u32 list \<Rightarrow> nat" where
  "words_val [] = 0"
| "words_val (w # ws) = unat w + 2 ^ 32 * words_val ws"

fun compare_digits :: "u32 list \<Rightarrow> u32 list \<Rightarrow> int" where
  "compare_digits (x # xs) (y # ys) = (if x > y then 1 else if x < y then -1 else compare_digits xs ys)"
| "compare_digits _ _ = 0"

definition mr_compare :: "u32 list \<Rightarrow> u32 list \<Rightarrow> int" where
  "mr_compare x y = (if length x > length y then 1 else if length x < length y then -1
     else compare_digits (rev x) (rev y))"

lemma mr_compare_short: "mr_compare x y < 0 \<Longrightarrow> length x \<le> length y"
  by (auto simp: mr_compare_def split: if_splits)

function bigrand_loop :: "u32 list \<Rightarrow> u32 list \<Rightarrow> rng \<Rightarrow> u32 list \<times> rng" where
  "bigrand_loop w w0 g =
     (let w0' = w0 @ [fst (brand g)]; g' = snd (brand g)
      in if mr_compare w0' w < 0 then bigrand_loop w w0' g' else (w0', g'))"
  by pat_completeness auto
termination
  by (relation "measure (\<lambda>(w, w0, g). Suc (length w) - length w0)") (auto dest: mr_compare_short)

declare bigrand_loop.simps [simp del]

definition bigrand :: "nat \<Rightarrow> rng \<Rightarrow> nat \<times> rng" where
  "bigrand w g = (let (w0, g) = bigrand_loop (big_words w) [] g in (words_val w0 mod w, g))"

text \<open>
  The loop \<open>do bigrand(w, x); while (...)\<close>, which \<open>bigdig\<close> here and the generation of keys
  and nonces of SM2 have: numbers below \<open>w\<close> are drawn until one is good.
\<close>

partial_function (option) draw_until :: "nat \<Rightarrow> (nat \<Rightarrow> bool) \<Rightarrow> rng \<Rightarrow> (nat \<times> rng) option" where
  "draw_until w good g =
     (if good (fst (bigrand w g)) then Some (bigrand w g) else draw_until w good (snd (bigrand w g)))"

definition bigdig :: "nat \<Rightarrow> nat \<Rightarrow> nat \<Rightarrow> rng \<Rightarrow> (nat \<times> rng) option" where
  "bigdig n b x g =
     (if b < 2 \<or> b > 256 then Some (x, g)
      else draw_until (b ^ n) (\<lambda>x. \<not> x < b ^ n div b) g)"

text \<open>
  Conversions with bytes, most significant first: \<open>big_to_bytes\<close> fills \<open>n\<close> bytes with leading
  zeros, and leaves the buffer as it was when the number does not fit.
\<close>

definition bytes_to_big :: "bytes \<Rightarrow> nat" where
  "bytes_to_big bs = foldl (\<lambda>x b. 256 * x + unat b) 0 bs"

definition big_to_bytes :: "nat \<Rightarrow> nat \<Rightarrow> bytes \<Rightarrow> bytes" where
  "big_to_bytes n x buf = (if x < 256 ^ n then map (\<lambda>i. of_nat (x div 256 ^ (n - 1 - i))) [0..<n] else buf)"

subsection \<open>The functions of the library\<close>

text \<open>
  The state: the generator, whether a seed was set, and whether MIRACL has the parameters of a
  curve, which \<open>mirsys\<close> forgets.
\<close>

record rand_state =
  rs_rng :: rng
  set_seed :: bool
  curve_set :: bool

definition mirsys :: "'a rand_state_scheme \<Rightarrow> 'a rand_state_scheme" where
  "mirsys s = s\<lparr>rs_rng := quick_start, curve_set := False\<rparr>"

definition penglai_set_rand_seed :: "u32 \<Rightarrow> 'a rand_state_scheme \<Rightarrow> 'a rand_state_scheme" where
  "penglai_set_rand_seed seed s =
     (let s = mirsys s in s\<lparr>rs_rng := irand seed (rs_rng s), set_seed := True\<rparr>)"

fun read_rand_loop :: "nat list \<Rightarrow> int \<Rightarrow> int \<Rightarrow> bytes \<Rightarrow> 'a rand_state_scheme \<Rightarrow> (bytes \<times> 'a rand_state_scheme) option" where
  "read_rand_loop [] blocks sz rand s = Some (rand, s)"
| "read_rand_loop (i # is) blocks sz rand s =
     (let fill_size = nat (if int i = blocks - 1 then sz - (blocks - 1) * 32 else 32)
      in case bigdig (2 * fill_size) 16 0 (rs_rng s) of
           None \<Rightarrow> None
         | Some (x, g) \<Rightarrow> read_rand_loop is blocks sz
             (buf_write rand (i * 32) (big_to_bytes fill_size x (slice (i * 32) fill_size rand))) (s\<lparr>rs_rng := g\<rparr>))"

definition penglai_read_rand :: "bytes \<Rightarrow> int \<Rightarrow> 'a rand_state_scheme \<Rightarrow> (bytes \<times> 'a rand_state_scheme) option" where
  "penglai_read_rand rand sz s =
     (let s = (if set_seed s then s else penglai_set_rand_seed 0 s);
          blocks = cdiv (sz + 32 - 1) 32
      in read_rand_loop [0..<nat blocks] blocks sz rand s)"

subsection \<open>The invariant of the generator\<close>

definition rng_ok :: "rng \<Rightarrow> bool" where
  "rng_ok g \<longleftrightarrow> length (ira g) = NK \<and> rndptr g \<le> NK"

lemma quick_ira_length: "length (quick_ira n xs) = n + length xs"
  by (induction n arbitrary: xs) simp_all

lemma quick_start_ok: "rng_ok quick_start"
  by (simp add: rng_ok_def quick_start_def quick_ira_length NK_def)

lemma brand_fill_ok: "length (ira (brand_fill i k g)) = length (ira g) \<and> rndptr (brand_fill i k g) = rndptr g"
proof (induction i k g rule: brand_fill.induct)
  case (1 i k g)
  then show ?case by (subst (1 2) brand_fill.simps) (simp add: Let_def)
qed

lemma brand_ok: "rng_ok g \<Longrightarrow> rng_ok (snd (brand g)) \<and> rndptr (snd (brand g)) < NK"
  by (simp add: brand_def rng_ok_def Let_def brand_fill_ok NK_def)

lemma irand_fill_length: "length (fst (fold irand_step is x)) = length (fst x)"
  by (induction "is" arbitrary: x) (auto simp: irand_step_def split: prod.split)

lemma brands_ok: "rng_ok g \<Longrightarrow> rng_ok (((\<lambda>g. snd (brand g)) ^^ n) g)"
  by (induction n) (simp_all add: brand_ok)

lemma irand_ok: "length (ira g) = NK \<Longrightarrow> rng_ok (irand seed g)"
  using irand_fill_length [of "[1..<NK]" "((ira g)[0 := seed], seed, 1)"]
  by (auto simp: irand_def case_prod_beta intro!: brands_ok) (simp add: rng_ok_def)

subsection \<open>Numbers of a given length\<close>

lemma bigrand_less: "0 < w \<Longrightarrow> fst (bigrand w g) < w"
  by (simp add: bigrand_def case_prod_beta)

text \<open>The numbers that are drawn one after the other.\<close>

definition drawn :: "nat \<Rightarrow> rng \<Rightarrow> nat \<Rightarrow> nat" where
  "drawn w g j = fst (bigrand w (((\<lambda>g. snd (bigrand w g)) ^^ j) g))"

lemma drawn_0: "drawn w g 0 = fst (bigrand w g)"
  by (simp add: drawn_def)

lemma drawn_Suc: "drawn w g (Suc j) = drawn w (snd (bigrand w g)) j"
  by (simp add: drawn_def funpow_Suc_right del: funpow.simps)

lemma drawn_less: "0 < w \<Longrightarrow> drawn w g j < w"
  by (simp add: drawn_def bigrand_less)

lemma draw_until_induct:
  assumes "draw_until w good g = Some r"
    and "\<And>g r. good (fst (bigrand w g)) \<Longrightarrow> r = bigrand w g \<Longrightarrow> P g r"
    and "\<And>g r. \<not> good (fst (bigrand w g)) \<Longrightarrow> P (snd (bigrand w g)) r \<Longrightarrow> P g r"
  shows "P g r"
proof -
  have "w' = w \<and> good' = good \<longrightarrow> P g r" if "draw_until w' good' g = Some r" for w' good' g r
    by (rule draw_until.raw_induct [where P = "\<lambda>w' good' g r. w' = w \<and> good' = good \<longrightarrow> P g r", OF _ that])
      (auto split: if_splits intro: assms(2,3))
  then show ?thesis using assms(1) by blast
qed

lemma draw_until_good: "draw_until w good g = Some r \<Longrightarrow> good (fst r) \<and> (\<exists>j. fst r = drawn w g j)"
  by (erule draw_until_induct) (auto simp: drawn_0 [symmetric], metis drawn_Suc)

lemma draw_until_returns: "good (drawn w g j) \<Longrightarrow> \<exists>r. draw_until w good g = Some r"
proof (induction j arbitrary: g)
  case 0
  then show ?case by (subst draw_until.simps) (simp add: drawn_0)
next
  case (Suc j)
  then show ?case by (subst draw_until.simps) (simp add: drawn_Suc)
qed

text \<open>The loop ends just when one of the numbers is good.\<close>

lemma draw_until_iff: "(\<exists>r. draw_until w good g = Some r) \<longleftrightarrow> (\<exists>j. good (drawn w g j))"
  using draw_until_good draw_until_returns by metis

lemma bigdig_range:
  assumes "bigdig n b x g = Some (y, g')" and "2 \<le> b" "b \<le> 256"
  shows "b ^ n div b \<le> y \<and> y < b ^ n"
proof -
  have "draw_until (b ^ n) (\<lambda>x. \<not> x < b ^ n div b) g = Some (y, g')"
    using assms unfolding bigdig_def by (simp split: if_splits)
  from draw_until_good [OF this] show ?thesis using drawn_less [of "b ^ n" g] assms(2) by auto
qed

lemma bigdig_iff: "2 \<le> b \<Longrightarrow> b \<le> 256 \<Longrightarrow> (\<exists>r. bigdig n b x g = Some r) \<longleftrightarrow> (\<exists>j. b ^ n div b \<le> drawn (b ^ n) g j)"
  using draw_until_iff [of "b ^ n" "\<lambda>x. \<not> x < b ^ n div b" g] by (auto simp: bigdig_def not_less)

subsection \<open>Numbers as bytes\<close>

lemma length_big_to_bytes [simp]: "length buf = n \<Longrightarrow> length (big_to_bytes n x buf) = n"
  by (simp add: big_to_bytes_def)

lemma bytes_to_big_snoc: "bytes_to_big (bs @ [b]) = 256 * bytes_to_big bs + unat b"
  by (simp add: bytes_to_big_def)

lemma unat_of_nat_byte: "unat (of_nat x :: u8) = x mod 256"
  by (simp add: unat_of_nat)

lemma big_bytes_roundtrip: "x < 256 ^ n \<Longrightarrow> bytes_to_big (big_to_bytes n x buf) = x"
proof (induction n arbitrary: x)
  case (Suc n)
  have lt: "x div 256 < 256 ^ n" using Suc.prems by (simp add: less_mult_imp_div_less mult.commute)
  have "map (\<lambda>i. of_nat (x div 256 ^ (Suc n - 1 - i))) [0..<Suc n] =
      map (\<lambda>i. of_nat (x div 256 div 256 ^ (n - 1 - i))) [0..<n] @ [of_nat x :: u8]"
  proof -
    have "x div 256 ^ (n - i) = x div 256 div 256 ^ (n - Suc i)" if "i < n" for i
      using that by (simp add: Suc_diff_Suc flip: div_mult2_eq power_Suc)
    then show ?thesis by simp
  qed
  then have "big_to_bytes (Suc n) x buf = big_to_bytes n (x div 256) buf @ [of_nat x]"
    using Suc.prems lt by (simp add: big_to_bytes_def)
  then show ?case using Suc.IH [OF lt] by (simp add: bytes_to_big_snoc unat_of_nat_byte)
qed (simp add: bytes_to_big_def big_to_bytes_def)

lemma bytes_to_big_less: "bytes_to_big bs < 256 ^ length bs"
proof (induction bs rule: rev_induct)
  case (snoc b bs)
  have "unat b < 256" using unsigned_less [of b, where ?'a = nat] by simp
  then show ?case using snoc by (simp add: bytes_to_big_snoc)
qed (simp add: bytes_to_big_def)

lemma big_to_bytes_first:
  assumes "16 ^ (2 * n) div 16 \<le> x" and "x < 16 ^ (2 * n)" and "0 < n"
  shows "16 \<le> big_to_bytes n x buf ! 0"
proof -
  obtain m where m: "n = Suc m" using assms(3) by (cases n) auto
  have p: "(16 :: nat) ^ (2 * k) = 256 ^ k" for k by (simp add: power_mult)
  have lt: "x < 256 ^ n" using assms(2) p by simp
  have "16 * 256 ^ m \<le> x" using assms(1) unfolding p m by simp
  then have ge: "16 \<le> x div 256 ^ m" by (simp add: less_eq_div_iff_mult_less_eq)
  have "x div 256 ^ m < 256" using lt unfolding m by (simp add: less_mult_imp_div_less)
  then have "unat (of_nat (x div 256 ^ m) :: u8) = x div 256 ^ m" by (simp add: unat_of_nat_byte)
  then have "(16 :: u8) \<le> of_nat (x div 256 ^ m)" using ge by (simp add: word_le_nat_alt)
  moreover have "big_to_bytes n x buf ! 0 = of_nat (x div 256 ^ m)" using lt unfolding m by (simp add: big_to_bytes_def nth_append del: upt_Suc)
  ultimately show ?thesis by simp
qed

subsection \<open>Properties\<close>

lemma read_rand_loop_spec:
  assumes "read_rand_loop [j..<m] (int m) (int n) rand s = Some (rand', s')" and "n = 32 * (m - 1) + l" and "0 < l" "l \<le> 32"
    and "n \<le> length rand" and "j \<le> m" and "0 < m"
  shows "length rand' = length rand \<and> drop n rand' = drop n rand \<and> take (32 * j) rand' = take (32 * j) rand \<and>
    (\<forall>i. j \<le> i \<longrightarrow> i < m \<longrightarrow> 16 \<le> rand' ! (32 * i)) \<and> set_seed s' = set_seed s"
  using assms(1,5,6)
proof (induction "m - j" arbitrary: j rand s)
  case 0
  then show ?case by simp
next
  case (Suc d)
  then have jm: "j < m" by simp
  define f where "f = nat (if int j = int m - 1 then int n - (int m - 1) * 32 else 32)"
  have fe: "f = (if j = m - 1 then l else 32)"
    using assms(2,7) unfolding f_def by (auto simp: of_nat_diff)
  have f: "0 < f" "32 * j + f \<le> n" using assms(2-4,7) jm unfolding fe by (auto split: if_splits)
  obtain x g where bd: "bigdig (2 * f) 16 0 (rs_rng s) = Some (x, g)"
    and rec: "read_rand_loop [Suc j..<m] (int m) (int n)
      (buf_write rand (j * 32) (big_to_bytes f x (slice (j * 32) f rand))) (s\<lparr>rs_rng := g\<rparr>) = Some (rand', s')"
    using Suc.prems(1) jm unfolding upt_conv_Cons [OF jm] read_rand_loop.simps Let_def f_def [symmetric]
    by (simp split: option.splits prod.splits)
  define blk where "blk = big_to_bytes f x (slice (j * 32) f rand)"
  define buf where "buf = buf_write rand (j * 32) blk"
  have lb: "length blk = f"
    using f(2) Suc.prems(2) unfolding blk_def by (intro length_big_to_bytes length_slice) simp
  then have buf: "length buf = length rand" "drop n buf = drop n rand" "take (32 * j) buf = take (32 * j) rand" "buf ! (32 * j) = blk ! 0"
    using f Suc.prems(2) by (simp_all add: buf_def buf_write_def mult.commute drop_append nth_append)
  have IH: "length rand' = length buf \<and> drop n rand' = drop n buf \<and> take (32 * Suc j) rand' = take (32 * Suc j) buf \<and>
    (\<forall>i. Suc j \<le> i \<longrightarrow> i < m \<longrightarrow> 16 \<le> rand' ! (32 * i)) \<and> set_seed s' = set_seed (s\<lparr>rs_rng := g\<rparr>)"
    using Suc.hyps(1) [OF _ rec [folded blk_def, folded buf_def]] Suc.hyps(2) Suc.prems(2) buf jm by simp
  have t: "take (32 * j) rand' = take (32 * j) rand"
  proof -
    have "take (32 * j) (take (32 * Suc j) rand') = take (32 * j) (take (32 * Suc j) buf)" using IH by simp
    then show ?thesis using buf(3) by simp
  qed
  have "take (32 * Suc j) rand' ! (32 * j) = take (32 * Suc j) buf ! (32 * j)" using IH by simp
  then have "rand' ! (32 * j) = blk ! 0" using buf(4) by simp
  then have fi: "16 \<le> rand' ! (32 * j)"
    using big_to_bytes_first [OF _ _ f(1)] bigdig_range [OF bd] by (simp add: blk_def)
  have "16 \<le> rand' ! (32 * i)" if "j \<le> i" "i < m" for i using IH fi that by (cases "i = j") simp_all
  then show ?case using IH buf t by simp
qed

text \<open>
  What \<open>penglai_read_rand\<close> writes, for any positive size: it returns only after it filled
  the \<open>n\<close> bytes it was asked for and no byte behind them. But as \<open>bigdig\<close> gives numbers of
  exactly \<open>2 * fill_size\<close> hexadecimal digits, the first byte of every block of 32 is at least
  16: one value in sixteen of that byte never occurs.
\<close>

lemma read_rand_bytes:
  assumes "penglai_read_rand rand (int n) s = Some (rand', s')" and "0 < n" and "n \<le> length rand"
  shows "length rand' = length rand \<and> drop n rand' = drop n rand \<and> (\<forall>i. 32 * i < n \<longrightarrow> 16 \<le> rand' ! (32 * i)) \<and> set_seed s'"
proof -
  define m where "m = (n + 31) div 32"
  define l where "l = n - 32 * (m - 1)"
  have m: "0 < m" "0 < l" "l \<le> 32" "n = 32 * (m - 1) + l" using assms(2) unfolding m_def l_def by linarith+
  have c: "cdiv (int n + 32 - 1) 32 = int m" using assms(2) by (simp add: cdiv_pos m_def zdiv_int)
  define s0 where "s0 = (if set_seed s then s else penglai_set_rand_seed 0 s)"
  have "set_seed s0" by (simp add: s0_def penglai_set_rand_seed_def Let_def)
  moreover have "read_rand_loop [0..<m] (int m) (int n) rand s0 = Some (rand', s')"
    using assms(1) c by (simp add: penglai_read_rand_def s0_def Let_def)
  note read_rand_loop_spec [OF this m(4) m(2,3) _ _ m(1)]
  moreover have "i < m" if "32 * i < n" for i using that unfolding m_def by linarith
  ultimately show ?thesis using assms(3) by auto
qed

definition example_rng :: rng where
  "example_rng = \<lparr>ira = replicate 37 0xFFFFFFFF, rndptr = 0, borrow = 0\<rparr>"

definition example_rand :: rand_state where
  "example_rand = \<lparr>rs_rng = example_rng, set_seed = True, curve_set = False\<rparr>"

lemma example_brands:
  "i < 36 \<Longrightarrow> brand (example_rng\<lparr>rndptr := i\<rparr>) = (0xFFFFFFFF, example_rng\<lparr>rndptr := Suc i\<rparr>)"
  by (simp add: brand_def example_rng_def NK_def)

lemma example_bigrand: "bigrand (2 ^ 32) example_rng = (0xFFFFFFFF, example_rng\<lparr>rndptr := 2\<rparr>)"
proof -
  have w: "big_words 4294967296 = [0, 1]" by (simp add: big_words.simps)
  have b: "brand example_rng = (0xFFFFFFFF, example_rng\<lparr>rndptr := 1\<rparr>)" "brand (example_rng\<lparr>rndptr := 1\<rparr>) = (0xFFFFFFFF, example_rng\<lparr>rndptr := 2\<rparr>)"
    using example_brands [of 0] example_brands [of 1] by (simp_all add: example_rng_def)
  show ?thesis by (simp add: bigrand_def w bigrand_loop.simps b [simplified] mr_compare_def Let_def)
qed

lemma example_read: "penglai_read_rand [0, 0, 0, 0, 7] 4 example_rand = Some ([0xFF, 0xFF, 0xFF, 0xFF, 7], example_rand\<lparr>rs_rng := example_rng\<lparr>rndptr := 2\<rparr>\<rparr>)"
  using example_bigrand
  by (simp add: penglai_read_rand_def example_rand_def cdiv_def bigdig_def draw_until.simps big_to_bytes_def buf_write_def upt_rec)

lemma read_rand_bytes_example:
  "penglai_read_rand [0, 0, 0, 0, 7] 4 example_rand \<noteq> None \<and> (16 :: u8) \<le> 0xFF"
proof -
  have "penglai_read_rand [0, 0, 0, 0, 7] (int 4) example_rand = Some ([0xFF, 0xFF, 0xFF, 0xFF, 7], example_rand\<lparr>rs_rng := example_rng\<lparr>rndptr := 2\<rparr>\<rparr>)"
    using example_read by simp
  from read_rand_bytes [OF this] have "\<forall>i. 32 * i < (4 :: nat) \<longrightarrow> 16 \<le> [0xFF, 0xFF, 0xFF, 0xFF, 7 :: u8] ! (32 * i)" by simp
  then show ?thesis using example_read by (auto dest: spec [of _ 0])
qed



end
