(* ===== verification/SM2.thy ===== *)
theory SM2
  imports SM3 Random_Numbers
begin

text \<open>
  SM2 signatures, \<^verbatim>\<open>lib/gm/source/SM2_sv.c\<close>. Big numbers of MIRACL are integers, with
  \<open>divide\<close> as remainder that has the sign of the dividend. The points of a curve and the
  operations on them (\<^verbatim>\<open>mrcurve.c\<close> of the vendored MIRACL) are a parameter; the laws of the
  group the correctness of signatures rests on are the predicate \<open>curve_laws\<close>. The random
  numbers are those of \<open>Random_Numbers\<close>, whose state the functions pass on.
\<close>

subsection \<open>Constants\<close>

definition SM2_NUMWORD :: nat where "SM2_NUMWORD = 32"
definition MAX_MESSAGE_SIZE :: nat where "MAX_MESSAGE_SIZE = 1024"
definition SM3_bytes :: nat where "SM3_bytes = 32"

definition ERR_ECURVE_INIT :: int where "ERR_ECURVE_INIT = 1"
definition ERR_INFINITY_POINT :: int where "ERR_INFINITY_POINT = 2"
definition ERR_NOT_VALID_POINT :: int where "ERR_NOT_VALID_POINT = 3"
definition ERR_ORDER :: int where "ERR_ORDER = 4"
definition ERR_NOT_VALID_ELEMENT :: int where "ERR_NOT_VALID_ELEMENT = 5"
definition ERR_GENERATE_R :: int where "ERR_GENERATE_R = 6"
definition ERR_GENERATE_S :: int where "ERR_GENERATE_S = 7"
definition ERR_OUTRANGE_R :: int where "ERR_OUTRANGE_R = 8"
definition ERR_OUTRANGE_S :: int where "ERR_OUTRANGE_S = 9"
definition ERR_GENERATE_T :: int where "ERR_GENERATE_T = 10"
definition ERR_PUBKEY_INIT :: int where "ERR_PUBKEY_INIT = 11"
definition ERR_DATA_MEMCMP :: int where "ERR_DATA_MEMCMP = 12"

lemmas sm2_errors = ERR_ECURVE_INIT_def ERR_INFINITY_POINT_def ERR_NOT_VALID_POINT_def ERR_ORDER_def ERR_NOT_VALID_ELEMENT_def
  ERR_GENERATE_R_def ERR_GENERATE_S_def ERR_OUTRANGE_R_def ERR_OUTRANGE_S_def ERR_GENERATE_T_def ERR_PUBKEY_INIT_def ERR_DATA_MEMCMP_def

definition SM2_p :: bytes where
  "SM2_p = [
    0xff, 0xff, 0xff, 0xfe, 0xff, 0xff, 0xff, 0xff, 0xff, 0xff, 0xff, 0xff, 0xff, 0xff, 0xff, 0xff,
    0xff, 0xff, 0xff, 0xff, 0x00, 0x00, 0x00, 0x00, 0xff, 0xff, 0xff, 0xff, 0xff, 0xff, 0xff, 0xff]"

definition SM2_a :: bytes where
  "SM2_a = [
    0xff, 0xff, 0xff, 0xfe, 0xff, 0xff, 0xff, 0xff, 0xff, 0xff, 0xff, 0xff, 0xff, 0xff, 0xff, 0xff,
    0xff, 0xff, 0xff, 0xff, 0x00, 0x00, 0x00, 0x00, 0xff, 0xff, 0xff, 0xff, 0xff, 0xff, 0xff, 0xfc]"

definition SM2_b :: bytes where
  "SM2_b = [
    0x28, 0xe9, 0xfa, 0x9e, 0x9d, 0x9f, 0x5e, 0x34, 0x4d, 0x5a, 0x9e, 0x4b, 0xcf, 0x65, 0x09, 0xa7,
    0xf3, 0x97, 0x89, 0xf5, 0x15, 0xab, 0x8f, 0x92, 0xdd, 0xbc, 0xbd, 0x41, 0x4d, 0x94, 0x0e, 0x93]"

definition SM2_Gx :: bytes where
  "SM2_Gx = [
    0x32, 0xc4, 0xae, 0x2c, 0x1f, 0x19, 0x81, 0x19, 0x5f, 0x99, 0x04, 0x46, 0x6a, 0x39, 0xc9, 0x94,
    0x8f, 0xe3, 0x0b, 0xbf, 0xf2, 0x66, 0x0b, 0xe1, 0x71, 0x5a, 0x45, 0x89, 0x33, 0x4c, 0x74, 0xc7]"

definition SM2_Gy :: bytes where
  "SM2_Gy = [
    0xbc, 0x37, 0x36, 0xa2, 0xf4, 0xf6, 0x77, 0x9c, 0x59, 0xbd, 0xce, 0xe3, 0x6b, 0x69, 0x21, 0x53,
    0xd0, 0xa9, 0x87, 0x7c, 0xc6, 0x2a, 0x47, 0x40, 0x02, 0xdf, 0x32, 0xe5, 0x21, 0x39, 0xf0, 0xa0]"

definition SM2_n :: bytes where
  "SM2_n = [
    0xff, 0xff, 0xff, 0xfe, 0xff, 0xff, 0xff, 0xff, 0xff, 0xff, 0xff, 0xff, 0xff, 0xff, 0xff, 0xff,
    0x72, 0x03, 0xdf, 0x6b, 0x21, 0xc6, 0x05, 0x2b, 0x53, 0xbb, 0xf4, 0x09, 0x39, 0xd5, 0x41, 0x23]"

text \<open>The global bigs.\<close>

definition big_of :: "bytes \<Rightarrow> int" where
  "big_of bs = int (bytes_to_big (take SM2_NUMWORD bs))"

definition big_p :: int where "big_p = big_of SM2_p"
definition big_a :: int where "big_a = big_of SM2_a"
definition big_b :: int where "big_b = big_of SM2_b"
definition big_n :: int where "big_n = big_of SM2_n"

subsection \<open>Points\<close>

text \<open>
  The operations of MIRACL on points: making one of its coordinates, which fails off the curve,
  multiplication, addition, the test for infinity and the coordinates.
\<close>

record 'p curve =
  epoint_set :: "int \<Rightarrow> int \<Rightarrow> 'p option"
  ecurve_mult :: "int \<Rightarrow> 'p \<Rightarrow> 'p"
  ecurve_add :: "'p \<Rightarrow> 'p \<Rightarrow> 'p"
  point_at_infinity :: "'p \<Rightarrow> bool"
  epoint_get :: "'p \<Rightarrow> int \<times> int"

text \<open>
  The state: that of the random numbers, the flag that initialisation was done and the global
  point \<open>G\<close>. What uninitialised arrays on the stack hold is a parameter.
\<close>

record 'p sm2_state = rand_state +
  success_excuted :: bool
  point_G :: 'p

record sm2_junk =
  jk_md :: SM3_STATE
  jk_x :: bytes
  jk_y :: bytes

text \<open>\<open>xgcd(x, n, x, x, x)\<close>: the coefficient of \<open>x\<close> in \<open>gcd(x, n)\<close>, made positive.\<close>

definition xgcd_coeff :: "int \<Rightarrow> int \<Rightarrow> int" where
  "xgcd_coeff x m = fst (bezw (nat x) (nat m)) mod m"

subsection \<open>Initialisation\<close>

definition MIRACL_Init :: "'p sm2_state \<Rightarrow> fault + 'p sm2_state" where
  "MIRACL_Init s =
     (case penglai_read_rand [0, 0, 0, 0] 4 (mirsys s) of
        None \<Rightarrow> Inl (Diverges ''bigdig'')
      | Some (seed, s) \<Rightarrow> Inr (s\<lparr>rs_rng := irand (be32 (seed ! 3) (seed ! 2) (seed ! 1) (seed ! 0)) (rs_rng s)\<rparr>))"

definition SM2_Init :: "'p curve \<Rightarrow> 'p sm2_state \<Rightarrow> fault + int \<times> 'p sm2_state" where
  "SM2_Init C s =
     (if success_excuted s then Inr (0, s)
      else case MIRACL_Init s of
        Inl f \<Rightarrow> Inl f
      | Inr s \<Rightarrow>
          let s = s\<lparr>curve_set := True\<rparr>
          in case epoint_set C (big_of SM2_Gx) (big_of SM2_Gy) of
               None \<Rightarrow> Inr (ERR_ECURVE_INIT, s)
             | Some G \<Rightarrow>
                 let s = s\<lparr>point_G := G\<rparr>
                 in if \<not> point_at_infinity C (ecurve_mult C big_n G) then Inr (ERR_ORDER, s)
                    else Inr (0, s\<lparr>success_excuted := True\<rparr>))"

subsection \<open>Tests\<close>

definition Test_Point :: "'p curve \<Rightarrow> 'p \<Rightarrow> int" where
  "Test_Point C point =
     (let (x, y) = epoint_get C point;
          x_3 = x ^ 3 mod big_p;
          x = x * big_a;
          x = crem x big_p;
          x = x_3 + x;
          x = x + big_b;
          x = crem x big_p;
          y = y ^ 2 mod big_p
      in if x \<noteq> y then ERR_NOT_VALID_POINT else 0)"

definition Test_PubKey :: "'p curve \<Rightarrow> 'p \<Rightarrow> int" where
  "Test_PubKey C pubKey =
     (if point_at_infinity C pubKey then ERR_INFINITY_POINT
      else let (x, y) = epoint_get C pubKey
           in if \<not> x < big_p \<or> \<not> y < big_p then ERR_NOT_VALID_ELEMENT
              else if Test_Point C pubKey \<noteq> 0 then ERR_NOT_VALID_POINT
              else if \<not> point_at_infinity C (ecurve_mult C big_n pubKey) then ERR_ORDER
              else 0)"

definition Test_Zero :: "int \<Rightarrow> bool" where
  "Test_Zero x \<longleftrightarrow> x = 0"

definition Test_n :: "int \<Rightarrow> bool" where
  "Test_n x \<longleftrightarrow> x = big_n"

definition Test_Range :: "int \<Rightarrow> bool" where
  "Test_Range x \<longleftrightarrow> x < 1 \<or> x > big_n - 1"

subsection \<open>Keys\<close>

definition SM2_make_prikey :: "bytes \<Rightarrow> 'p sm2_state \<Rightarrow> fault + bytes \<times> 'p sm2_state" where
  "SM2_make_prikey prikey s =
     (case draw_until (nat big_n) (\<lambda>x. \<not> (int x < 1 \<or> int x > big_n - 2)) (rs_rng s) of
        None \<Rightarrow> Inl (Diverges ''bigrand'')
      | Some (x, g) \<Rightarrow> Inr (big_to_bytes SM2_NUMWORD x prikey, s\<lparr>rs_rng := g\<rparr>))"

text \<open>Bytes of a coordinate; MIRACL's coordinates are not negative.\<close>

definition put_big :: "int \<Rightarrow> bytes \<Rightarrow> bytes" where
  "put_big x buf = big_to_bytes SM2_NUMWORD (nat x) buf"

definition SM2_make_pubkey :: "'p curve \<Rightarrow> bytes \<Rightarrow> bytes \<Rightarrow> bytes \<Rightarrow> 'p sm2_state \<Rightarrow> fault + int \<times> bytes \<times> bytes \<times> 'p sm2_state" where
  "SM2_make_pubkey C PriKey Px Py s =
     (case SM2_Init C s of
        Inl f \<Rightarrow> Inl f
      | Inr (i, s) \<Rightarrow>
          if i \<noteq> 0 then Inr (i, Px, Py, s)
          else if \<not> curve_set s then Inl (UseAfterFree ''curve'')
          else let d = big_of PriKey;
                   PA = ecurve_mult C d (point_G s);
                   (PAx, PAy) = epoint_get C PA
               in Inr (Test_PubKey C PA, put_big PAx Px, put_big PAy Py, s))"

definition SM2_KeyGeneration :: "'p curve \<Rightarrow> bytes \<Rightarrow> bytes \<Rightarrow> bytes \<Rightarrow> 'p sm2_state \<Rightarrow> fault + int \<times> bytes \<times> bytes \<times> bytes \<times> 'p sm2_state" where
  "SM2_KeyGeneration C PriKey Px Py s =
     (case SM2_Init C s of
        Inl f \<Rightarrow> Inl f
      | Inr (i, s) \<Rightarrow>
          if i \<noteq> 0 then Inr (i, PriKey, Px, Py, s)
          else case SM2_make_prikey PriKey s of
                 Inl f \<Rightarrow> Inl f
               | Inr (PriKey, s) \<Rightarrow>
                   (case SM2_make_pubkey C PriKey Px Py s of
                      Inl f \<Rightarrow> Inl f
                    | Inr (i, Px, Py, s) \<Rightarrow> Inr (i, PriKey, Px, Py, s)))"

definition SM2_gen_random :: "bytes \<Rightarrow> 'p sm2_state \<Rightarrow> fault + bytes \<times> 'p sm2_state" where
  "SM2_gen_random rand s =
     (case draw_until (nat big_n) (\<lambda>x. \<not> (int x < 1 \<or> int x > big_n - 1)) (rs_rng s) of
        None \<Rightarrow> Inl (Diverges ''bigrand'')
      | Some (x, g) \<Rightarrow> Inr (big_to_bytes SM2_NUMWORD x rand, s\<lparr>rs_rng := g\<rparr>))"

definition SM2_compute_ZA :: "SM3_STATE \<Rightarrow> bytes \<Rightarrow> bytes \<Rightarrow> bytes" where
  "SM2_compute_ZA md Px Py =
     (let IDA = [0x31, 0x32, 0x33, 0x34, 0x35, 0x36, 0x37, 0x38, 0x31, 0x32, 0x33, 0x34, 0x35, 0x36, 0x37, 0x38];
          ENTLA = [0x00, 0x80];
          Msg = ENTLA @ IDA @ SM2_a @ SM2_b @ SM2_Gx @ SM2_Gy @ take SM2_NUMWORD Px @ take SM2_NUMWORD Py
      in SM3_256 md Msg 210)"

subsection \<open>Signatures\<close>

text \<open>
  The array \<open>M\<close> has room for a message of \<open>MAX_MESSAGE_SIZE + 1\<close> bytes behind the digest; the
  copy of a longer one leaves it. \<open>sm2_digest\<close> is \<open>e\<close>.
\<close>

definition sm2_digest :: "SM3_STATE \<Rightarrow> bytes \<Rightarrow> bytes \<Rightarrow> bytes \<Rightarrow> fault + int" where
  "sm2_digest md Px Py message =
     (if SM3_bytes + length message > MAX_MESSAGE_SIZE + SM3_bytes + 1
      then Inl (OutOfBounds ''M'' (int (MAX_MESSAGE_SIZE + SM3_bytes + 1)))
      else let M = SM2_compute_ZA md Px Py @ message;
               hash = SM3_256 md M (length message + SM3_bytes)
           in Inr (int (bytes_to_big hash)))"

definition SM2_Sign ::
  "'p curve \<Rightarrow> sm2_junk \<Rightarrow> bytes \<Rightarrow> bytes \<Rightarrow> bytes \<Rightarrow> bytes \<Rightarrow> 'p sm2_state \<Rightarrow> fault + int \<times> bytes \<times> bytes \<times> 'p sm2_state" where
  "SM2_Sign C jk message d R S s =
     (case SM2_Init C s of
        Inl f \<Rightarrow> Inl f
      | Inr (i, s) \<Rightarrow>
          if i \<noteq> 0 then Inr (i, R, S, s)
          else let dA = big_of d
               in case SM2_make_pubkey C d (jk_x jk) (jk_y jk) s of
                    Inl f \<Rightarrow> Inl f
                  | Inr (_, Px, Py, s) \<Rightarrow>
                    (case sm2_digest (jk_md jk) Px Py message of
                       Inl f \<Rightarrow> Inl f
                     | Inr e \<Rightarrow>
                       (case SM2_gen_random (jk_x jk) s of
                          Inl f \<Rightarrow> Inl f
                        | Inr (rand, s) \<Rightarrow>
                            let k = big_of rand;
                                (KGx, KGy) = epoint_get C (ecurve_mult C k (point_G s));
                                r = e + KGx;
                                r = crem r big_n;
                                rk = r + k
                            in if Test_Zero r \<or> Test_n rk then Inr (ERR_GENERATE_R, R, S, s)
                               else let z1 = dA + 1;
                                        z1 = xgcd_coeff z1 big_n;
                                        z2 = r * dA;
                                        z2 = crem z2 big_n;
                                        z2 = k - z2;
                                        z2 = z2 + big_n;
                                        sg = z1 * z2;
                                        sg = crem sg big_n
                                    in if Test_Zero sg then Inr (ERR_GENERATE_S, R, S, s)
                                       else Inr (0, put_big r R, put_big sg S, s))))"

definition SM2_Verify ::
  "'p curve \<Rightarrow> sm2_junk \<Rightarrow> bytes \<Rightarrow> bytes \<Rightarrow> bytes \<Rightarrow> bytes \<Rightarrow> bytes \<Rightarrow> 'p sm2_state \<Rightarrow> fault + int \<times> 'p sm2_state" where
  "SM2_Verify C jk message Px Py R S s =
     (case SM2_Init C s of
        Inl f \<Rightarrow> Inl f
      | Inr (i, s) \<Rightarrow>
          if i \<noteq> 0 then Inr (i, s)
          else let PAx = big_of Px; PAy = big_of Py; r = big_of R; sg = big_of S
               in if \<not> curve_set s then Inl (UseAfterFree ''curve'')
                  else case epoint_set C PAx PAy of
                    None \<Rightarrow> Inr (ERR_PUBKEY_INIT, s)
                  | Some PA \<Rightarrow>
                      if Test_Range r then Inr (ERR_OUTRANGE_R, s)
                      else if Test_Range sg then Inr (ERR_OUTRANGE_S, s)
                      else case sm2_digest (jk_md jk) Px Py message of
                        Inl f \<Rightarrow> Inl f
                      | Inr e \<Rightarrow>
                          let t = r + sg;
                              t = crem t big_n
                          in if Test_Zero t then Inr (ERR_GENERATE_T, s)
                             else let sG = ecurve_mult C sg (point_G s);
                                      tPA = ecurve_mult C t PA;
                                      tPA = ecurve_add C sG tPA;
                                      (x1, y1) = epoint_get C tPA;
                                      RR = e + x1;
                                      RR = crem RR big_n
                                  in if RR = r then Inr (0, s) else Inr (ERR_DATA_MEMCMP, s))"

definition SM2_SelfCheck :: "'p curve \<Rightarrow> sm2_junk \<Rightarrow> 'p sm2_state \<Rightarrow> fault + int \<times> 'p sm2_state" where
  "SM2_SelfCheck C jk s =
     (let message = map (\<lambda>c. of_char c) ''message digest''
      in case SM2_Init C s of
           Inl f \<Rightarrow> Inl f
         | Inr (temp, s) \<Rightarrow>
             if temp \<noteq> 0 then Inr (temp, s)
             else case SM2_KeyGeneration C (jk_x jk) (jk_x jk) (jk_y jk) s of
                    Inl f \<Rightarrow> Inl f
                  | Inr (temp, dA, xA, yA, s) \<Rightarrow>
                      if temp \<noteq> 0 then Inr (temp, s)
                      else case SM2_Sign C jk message dA (jk_x jk) (jk_y jk) s of
                             Inl f \<Rightarrow> Inl f
                           | Inr (temp, r, sg, s) \<Rightarrow>
                               if temp \<noteq> 0 then Inr (temp, s)
                               else SM2_Verify C jk message xA yA r sg s)"

subsection \<open>Numbers\<close>

lemma big_n_val: "big_n = 0xfffffffeffffffffffffffffffffffff7203df6b21c6052b53bbf40939d54123"
  by (simp add: big_n_def big_of_def SM2_NUMWORD_def SM2_n_def bytes_to_big_def)

lemma big_n_pos: "0 < big_n" "2 < big_n"
  by (simp_all add: big_n_val)

lemma big_n_fits: "big_n < 256 ^ 32"
  by (simp add: big_n_val)

lemma big_of_nonneg [simp]: "0 \<le> big_of bs"
  by (simp add: big_of_def)

lemma big_of_put_big:
  assumes "0 \<le> x" and "x < 256 ^ 32" and "length buf = 32"
  shows "big_of (put_big x buf) = x"
proof -
  have "nat x < 256 ^ 32" using assms(1,2) by (simp add: nat_less_iff)
  moreover have "length (big_to_bytes 32 (nat x) buf) = 32" using assms(3) by simp
  ultimately show ?thesis
    using assms(1) big_bytes_roundtrip [of "nat x" 32 buf] by (simp add: big_of_def put_big_def SM2_NUMWORD_def)
qed

lemma curve_params: "0 < big_p" "0 \<le> big_a" "0 \<le> big_b"
  by (simp_all add: big_p_def big_a_def big_b_def) (simp add: big_of_def SM2_NUMWORD_def SM2_p_def bytes_to_big_def)

lemma Test_Point_eq:
  assumes "0 \<le> x"
  shows "crem (x ^ 3 mod big_p + crem (x * big_a) big_p + big_b) big_p = (x ^ 3 + big_a * x + big_b) mod big_p"
  using assms curve_params by (simp add: crem_pos mult.commute) (metis mod_add_left_eq mod_add_eq)

lemma xgcd_inverse:
  assumes "0 < x" and "0 < m" and "coprime x m"
  shows "(xgcd_coeff x m * x) mod m = 1 mod m"
proof -
  have "int (gcd (nat x) (nat m)) = fst (bezw (nat x) (nat m)) * x + snd (bezw (nat x) (nat m)) * m"
    using bezw_aux [of "nat x" "nat m"] assms(1,2) by simp
  moreover have "gcd (nat x) (nat m) = 1" using assms by (simp add: coprime_iff_gcd_eq_1 gcd_int_def)
  ultimately have "fst (bezw (nat x) (nat m)) * x = 1 - snd (bezw (nat x) (nat m)) * m" by simp
  then have "(fst (bezw (nat x) (nat m)) * x) mod m = 1 mod m"
    by (metis add.commute diff_add_cancel mod_mult_self1 mult.commute)
  then show ?thesis by (simp add: xgcd_coeff_def mod_mult_left_eq)
qed

subsection \<open>The laws of the curve\<close>

text \<open>
  What a signature relies on of MIRACL's curve arithmetic: \<open>G\<close> generates a group of order
  \<open>n\<close> under multiplication and addition of points, and coordinates are not negative.
\<close>

definition curve_laws :: "'p curve \<Rightarrow> 'p \<Rightarrow> bool" where
  "curve_laws C G \<longleftrightarrow>
     (\<forall>a b. 0 \<le> a \<longrightarrow> 0 \<le> b \<longrightarrow> ecurve_add C (ecurve_mult C a G) (ecurve_mult C b G) = ecurve_mult C (a + b) G) \<and>
     (\<forall>a b. 0 \<le> a \<longrightarrow> 0 \<le> b \<longrightarrow> ecurve_mult C a (ecurve_mult C b G) = ecurve_mult C (a * b) G) \<and>
     (\<forall>a. 0 \<le> a \<longrightarrow> ecurve_mult C (a mod big_n) G = ecurve_mult C a G) \<and>
     (\<forall>P. 0 \<le> fst (epoint_get C P))"

text \<open>A state in which initialisation was done and MIRACL still has the curve.\<close>

definition sm2_ready :: "'p \<Rightarrow> 'p sm2_state \<Rightarrow> bool" where
  "sm2_ready G s \<longleftrightarrow> success_excuted s \<and> curve_set s \<and> point_G s = G"

lemma SM2_Init_ready: "sm2_ready G s \<Longrightarrow> SM2_Init C s = Inr (0, s)"
  by (simp add: SM2_Init_def sm2_ready_def)

lemma gen_random_range:
  assumes "SM2_gen_random rand s = Inr (rand', s')" and "length rand = 32"
  shows "1 \<le> big_of rand' \<and> big_of rand' < big_n \<and> s' = s\<lparr>rs_rng := rs_rng s'\<rparr>"
proof -
  obtain x g where d: "draw_until (nat big_n) (\<lambda>x. \<not> (int x < 1 \<or> int x > big_n - 1)) (rs_rng s) = Some (x, g)"
    and r: "rand' = big_to_bytes SM2_NUMWORD x rand" "s' = s\<lparr>rs_rng := g\<rparr>"
    using assms(1) by (auto simp: SM2_gen_random_def split: option.splits)
  have x: "1 \<le> int x" "int x \<le> big_n - 1" using draw_until_good [OF d] by auto
  then have "int x < 256 ^ 32" using big_n_fits by linarith
  then have "big_of rand' = int x"
    using big_of_put_big [of "int x" rand] assms(2) r by (simp add: put_big_def)
  then show ?thesis using x r by simp
qed

lemma make_pubkey_ready:
  assumes "sm2_ready G s"
  shows "SM2_make_pubkey C d Px Py s = (case epoint_get C (ecurve_mult C (big_of d) G) of (x, y) \<Rightarrow>
    Inr (Test_PubKey C (ecurve_mult C (big_of d) G), put_big x Px, put_big y Py, s))"
  using assms SM2_Init_ready [OF assms, of C] by (simp add: SM2_make_pubkey_def sm2_ready_def split: prod.split)

text \<open>The arithmetic of signing: \<open>s + (r + s) d\<close> is \<open>k\<close>, and \<open>r + s\<close> is 0 only if \<open>r + k\<close> is \<open>n\<close>.\<close>

lemma sign_arith:
  fixes d k r m z :: int
  assumes inv: "(z * (d + 1)) mod m = 1 mod m"
  defines "s \<equiv> (z * (k - (r * d) mod m + m)) mod m"
  shows "(s + ((r + s) mod m) * d) mod m = k mod m" and "(r + s) mod m = 0 \<Longrightarrow> (r + k) mod m = 0"
proof -
  have s: "m dvd s - z * (k - r * d)"
  proof -
    have "z * (k - (r * d) mod m + m) - z * (k - r * d) = z * (r * d - (r * d) mod m + m)" by (simp add: algebra_simps)
    moreover have "m dvd r * d - (r * d) mod m" by (rule dvd_minus_mod)
    ultimately have "m dvd z * (k - (r * d) mod m + m) - z * (k - r * d)" by (simp add: dvd_add dvd_mult)
    then show ?thesis unfolding s_def by (simp add: mod_eq_dvd_iff [symmetric] mod_diff_left_eq dvd_eq_mod_eq_0)
  qed
  have i: "m dvd z * (d + 1) - 1" using inv by (simp only: mod_eq_dvd_iff)
  have "s * (d + 1) - (k - r * d) = (z * (d + 1) - 1) * (k - r * d) + (s - z * (k - r * d)) * (d + 1)" by (simp add: algebra_simps)
  then have sd: "m dvd s * (d + 1) - (k - r * d)" using s i by (simp add: dvd_add dvd_mult2)
  have t: "m dvd (r + s) mod m - (r + s)" by (metis dvd_minus_iff dvd_minus_mod minus_diff_eq)
  have "s + ((r + s) mod m) * d - k = (s * (d + 1) - (k - r * d)) + ((r + s) mod m - (r + s)) * d" by (simp add: algebra_simps)
  then have "m dvd s + ((r + s) mod m) * d - k" using sd t by (simp only: dvd_add dvd_mult2)
  then show "(s + ((r + s) mod m) * d) mod m = k mod m" by (simp only: mod_eq_dvd_iff)
  assume "(r + s) mod m = 0"
  then have "m dvd r + s" by (simp add: dvd_eq_mod_eq_0)
  moreover have "r + k = (r + s) * (d + 1) - (s * (d + 1) - (k - r * d))" by (simp add: algebra_simps)
  ultimately have "m dvd r + k" using sd by (simp only: dvd_diff dvd_mult2)
  then show "(r + k) mod m = 0" by simp
qed

lemma sign_numbers:
  assumes d: "0 \<le> d" "coprime (d + 1) big_n" and k: "1 \<le> k" "k < big_n" and rr: "0 < r" "r < big_n" "r + k \<noteq> big_n"
    and sg: "sg = crem (xgcd_coeff (d + 1) big_n * (k - crem (r * d) big_n + big_n)) big_n" "sg \<noteq> 0"
  shows "0 < sg" "sg < big_n" "0 \<le> crem (r + sg) big_n" "crem (r + sg) big_n \<noteq> 0" "(sg + crem (r + sg) big_n * d) mod big_n = k"
proof -
  define z where "z = xgcd_coeff (d + 1) big_n"
  have rd: "crem (r * d) big_n = (r * d) mod big_n" using rr d(1) big_n_pos(1) by (intro crem_pos) simp_all
  have "0 \<le> z" by (simp add: z_def xgcd_coeff_def big_n_pos(1))
  moreover have "0 \<le> k - (r * d) mod big_n + big_n" using k pos_mod_bound [OF big_n_pos(1), of "r * d"] by linarith
  ultimately have s: "sg = (z * (k - (r * d) mod big_n + big_n)) mod big_n"
    using sg(1) crem_pos big_n_pos(1) unfolding rd z_def by simp
  then show ss: "0 < sg" "sg < big_n" using sg(2) big_n_pos(1) pos_mod_sign pos_mod_bound by (simp_all add: less_le)
  have inv: "(z * (d + 1)) mod big_n = 1 mod big_n"
    unfolding z_def using d big_n_pos(1) by (intro xgcd_inverse) linarith+
  note ar = sign_arith [OF inv, where k = k and r = r, folded s]
  have t: "crem (r + sg) big_n = (r + sg) mod big_n" using rr ss big_n_pos(1) by (simp add: crem_pos)
  then show "0 \<le> crem (r + sg) big_n" "(sg + crem (r + sg) big_n * d) mod big_n = k" using ar(1) k big_n_pos(1) by simp_all
  show "crem (r + sg) big_n \<noteq> 0"
  proof
    assume "crem (r + sg) big_n = 0"
    then have "(r + k) mod big_n = 0" using ar(2) t by simp
    then obtain q where q: "r + k = big_n * q" by (auto simp: mod_eq_0_iff_dvd elim: dvdE)
    then have "0 < big_n * q" "big_n * q < big_n * 2" using rr k by linarith+
    then have "0 < q" "q < 2" using big_n_pos(1) by (simp_all add: zero_less_mult_iff)
    then show False using q rr(3) by simp
  qed
qed

lemma sm3_any_state: "length (md_buf md) = 64 \<Longrightarrow> len < 2 ^ 29 \<Longrightarrow> SM3_256 md buf len = sm3_hash (take len buf)"
  using sm3.digest_once [of md len buf] by (simp add: SM3_256_def min_def)

lemma digest_any_state:
  assumes "length (md_buf md) = 64" "length (md_buf md') = 64"
  shows "sm2_digest md Px Py message = sm2_digest md' Px Py message"
  using assms by (simp add: sm2_digest_def SM2_compute_ZA_def sm3_any_state Let_def SM3_bytes_def MAX_MESSAGE_SIZE_def)

lemma put_big_any: "0 \<le> x \<Longrightarrow> x < 256 ^ 32 \<Longrightarrow> put_big x buf = put_big x buf'"
  by (simp add: put_big_def big_to_bytes_def SM2_NUMWORD_def nat_less_iff)

lemma length_put_big [simp]: "length buf = 32 \<Longrightarrow> length (put_big x buf) = 32"
  by (simp add: put_big_def SM2_NUMWORD_def)

text \<open>What a successful signature is made of.\<close>

lemma SM2_Sign_success:
  assumes ready: "sm2_ready G s" and jk: "length (jk_x jk) = 32"
    and pt: "epoint_get C (ecurve_mult C (big_of d) G) = (x, y)"
    and sign: "SM2_Sign C jk message d R S s = Inr (0, R', S', s2)"
  obtains e k r sg where "sm2_digest (jk_md jk) (put_big x (jk_x jk)) (put_big y (jk_y jk)) message = Inr e"
    and "1 \<le> k" "k < big_n" and "r = crem (e + fst (epoint_get C (ecurve_mult C k G))) big_n"
    and "r \<noteq> 0" "r + k \<noteq> big_n"
    and "sg = crem (xgcd_coeff (big_of d + 1) big_n * (k - crem (r * big_of d) big_n + big_n)) big_n" "sg \<noteq> 0"
    and "R' = put_big r R" "S' = put_big sg S"
proof -
  have pk: "SM2_make_pubkey C d (jk_x jk) (jk_y jk) s =
      Inr (Test_PubKey C (ecurve_mult C (big_of d) G), put_big x (jk_x jk), put_big y (jk_y jk), s)"
    unfolding make_pubkey_ready [OF ready] by (simp add: pt)
  obtain e where e: "sm2_digest (jk_md jk) (put_big x (jk_x jk)) (put_big y (jk_y jk)) message = Inr e"
    using sign SM2_Init_ready [OF ready, of C] pk by (auto simp: SM2_Sign_def Let_def split: sum.splits)
  obtain rand s4 where g: "SM2_gen_random (jk_x jk) s = Inr (rand, s4)"
    using sign SM2_Init_ready [OF ready, of C] pk e by (auto simp: SM2_Sign_def Let_def split: sum.splits)
  note k = gen_random_range [OF g jk]
  have G: "point_G s4 = G" using k ready by (metis sm2_ready_def sm2_state.select_convs(2) sm2_state.surjective sm2_state.update_convs(1) rand_state.update_convs(1))
  show ?thesis
    using sign SM2_Init_ready [OF ready, of C] pk e g k G
    by (intro that [of e "big_of rand"])
      (auto simp: SM2_Sign_def Let_def case_prod_beta Test_Zero_def Test_n_def sm2_errors split: if_splits)
qed

text \<open>What \<open>SM2_Sign\<close> returns with success, \<open>SM2_Verify\<close> accepts.\<close>

lemma sign_verifies:
  assumes laws: "curve_laws C G" and ready: "sm2_ready G s" "sm2_ready G s3"
    and key: "coprime (big_of d + 1) big_n" "epoint_get C (ecurve_mult C (big_of d) G) = (x, y)"
      "epoint_set C x y = Some (ecurve_mult C (big_of d) G)" "0 \<le> x" "x < 256 ^ 32" "0 \<le> y" "y < 256 ^ 32"
    and len: "length Px = 32" "length Py = 32" "length R = 32" "length S = 32" "length (jk_x jk) = 32" "length (jk_y jk) = 32"
    and md: "length (md_buf (jk_md jk)) = 64" "length (md_buf (jk_md jk')) = 64"
    and pk: "SM2_make_pubkey C d Px Py s = Inr (i, Px', Py', s1)"
    and sign: "SM2_Sign C jk message d R S s = Inr (0, R', S', s2)"
  shows "SM2_Verify C jk' message Px' Py' R' S' s3 = Inr (0, s3)"
proof -
  let ?d = "big_of d"
  obtain e k r sg where e: "sm2_digest (jk_md jk) (put_big x (jk_x jk)) (put_big y (jk_y jk)) message = Inr e"
    and k: "1 \<le> k" "k < big_n" and r: "r = crem (e + fst (epoint_get C (ecurve_mult C k G))) big_n" "r \<noteq> 0" "r + k \<noteq> big_n"
    and sg: "sg = crem (xgcd_coeff (?d + 1) big_n * (k - crem (r * ?d) big_n + big_n)) big_n" "sg \<noteq> 0"
    and out: "R' = put_big r R" "S' = put_big sg S"
    using SM2_Sign_success [OF ready(1) len(5) key(2) sign] by blast
  have P: "Px' = put_big x Px" "Py' = put_big y Py"
    using pk make_pubkey_ready [OF ready(1), of C d Px Py] key(2) by simp_all
  have "0 \<le> e" using e by (auto simp: sm2_digest_def Let_def split: if_splits)
  moreover have "0 \<le> fst (epoint_get C (ecurve_mult C k G))" using laws by (simp add: curve_laws_def)
  ultimately have rr: "0 < r" "r < big_n"
    using r(1,2) crem_pos [of "e + fst (epoint_get C (ecurve_mult C k G))" big_n] big_n_pos(1) pos_mod_bound pos_mod_sign
    by (simp_all add: less_le)
  define t where "t = crem (r + sg) big_n"
  note nums = sign_numbers [OF big_of_nonneg key(1) k rr r(3) sg, folded t_def]
  have sum: "ecurve_add C (ecurve_mult C sg G) (ecurve_mult C t (ecurve_mult C ?d G)) = ecurve_mult C k G"
  proof -
    have "ecurve_add C (ecurve_mult C sg G) (ecurve_mult C t (ecurve_mult C ?d G)) = ecurve_mult C (sg + t * ?d) G"
      using laws nums(1-4) by (simp add: curve_laws_def)
    also have "\<dots> = ecurve_mult C ((sg + t * ?d) mod big_n) G" using laws nums(1-4) by (simp add: curve_laws_def)
    finally show ?thesis using nums(5) by simp
  qed
  have bigs: "big_of Px' = x" "big_of Py' = y" "big_of R' = r" "big_of S' = sg"
    using P out key(4-7) rr nums(1,2) len big_n_fits by (simp_all add: big_of_put_big)
  have "sm2_digest (jk_md jk') Px' Py' message = Inr e"
    using e P put_big_any [OF key(4,5), of Px "jk_x jk"] put_big_any [OF key(6,7), of Py "jk_y jk"]
      digest_any_state [OF md] by metis
  then show ?thesis
    using SM2_Init_ready [OF ready(2), of C] ready(2) bigs key(3) rr nums sum r(1) [symmetric] t_def [symmetric]
    by (simp add: SM2_Verify_def sm2_ready_def Test_Range_def Test_Zero_def case_prod_beta Let_def)
qed

lemma generated_keys:
  assumes ready: "sm2_ready G s" and len: "length PriKey = 32" and pos: "\<forall>P. 0 \<le> fst (epoint_get C P)"
    and gen: "SM2_KeyGeneration C PriKey Px Py s = Inr (0, d, Px', Py', s')"
  shows "\<exists>x y. 1 \<le> big_of d \<and> big_of d \<le> big_n - 2 \<and> epoint_get C (ecurve_mult C (big_of d) G) = (x, y) \<and>
    Px' = put_big x Px \<and> Py' = put_big y Py \<and> x < big_p \<and> y < big_p \<and> (x ^ 3 + big_a * x + big_b) mod big_p = y ^ 2 mod big_p \<and>
    \<not> point_at_infinity C (ecurve_mult C (big_of d) G) \<and>
    point_at_infinity C (ecurve_mult C big_n (ecurve_mult C (big_of d) G))"
proof -
  obtain s1 where pr: "SM2_make_prikey PriKey s = Inr (d, s1)" and pu: "SM2_make_pubkey C d Px Py s1 = Inr (0, Px', Py', s')"
    using gen SM2_Init_ready [OF ready, of C] by (auto simp: SM2_KeyGeneration_def split: sum.splits)
  obtain v g where dr: "draw_until (nat big_n) (\<lambda>x. \<not> (int x < 1 \<or> int x > big_n - 2)) (rs_rng s) = Some (v, g)"
    and d: "d = big_to_bytes SM2_NUMWORD v PriKey" "s1 = s\<lparr>rs_rng := g\<rparr>"
    using pr by (auto simp: SM2_make_prikey_def split: option.splits)
  have v: "1 \<le> int v" "int v \<le> big_n - 2" using draw_until_good [OF dr] by auto
  then have "int v < 256 ^ 32" using big_n_fits by linarith
  then have dv: "big_of d = int v" using big_of_put_big [of "int v" PriKey] len d by (simp add: put_big_def)
  have "sm2_ready G s1" using ready d by (simp add: sm2_ready_def)
  note mp = make_pubkey_ready [OF this, of C d Px Py]
  obtain x y where xy: "epoint_get C (ecurve_mult C (big_of d) G) = (x, y)" by fastforce
  have t: "Test_PubKey C (ecurve_mult C (big_of d) G) = 0" "Px' = put_big x Px" "Py' = put_big y Py"
    using pu mp xy by simp_all
  have x0: "0 \<le> x" using pos xy by (metis fst_conv)
  show ?thesis
    using Test_Point_eq [OF x0] t(1) xy dv v t(2,3) by (auto simp: Test_PubKey_def Test_Point_def Let_def sm2_errors split: if_splits)
qed

subsection \<open>Properties\<close>

text \<open>
  C4: Signatures verify. For a curve with the laws of a group, a private key \<open>d\<close> for which
  \<open>1 + d\<close> has an inverse, and its public key as \<open>SM2_make_pubkey\<close> computes it: whatever
  \<open>SM2_Sign\<close> returns with success, \<open>SM2_Verify\<close> accepts for the same message and key, with any
  contents of the uninitialised arrays and in any state in which the library is initialised.
\<close>

theorem SM2_sign_verify:
  assumes laws: "curve_laws C G" and ready: "sm2_ready G s" "sm2_ready G s3"
    and key: "coprime (big_of d + 1) big_n" "epoint_get C (ecurve_mult C (big_of d) G) = (x, y)"
      "epoint_set C x y = Some (ecurve_mult C (big_of d) G)" "0 \<le> x" "x < 256 ^ 32" "0 \<le> y" "y < 256 ^ 32"
    and len: "length Px = 32" "length Py = 32" "length R = 32" "length S = 32" "length (jk_x jk) = 32" "length (jk_y jk) = 32"
    and md: "length (md_buf (jk_md jk)) = 64" "length (md_buf (jk_md jk')) = 64"
    and pk: "SM2_make_pubkey C d Px Py s = Inr (i, Px', Py', s1)"
    and sign: "SM2_Sign C jk message d R S s = Inr (0, R', S', s2)"
  shows "SM2_Verify C jk' message Px' Py' R' S' s3 = Inr (0, s3)"
  using assms by (rule sign_verifies)

text \<open>
  An instance: the integers modulo \<open>n\<close> with generator 1, in which all points but \<open>G\<close> get the
  first coordinate that makes \<open>r\<close> be 1.
\<close>

definition example_junk :: sm2_junk where
  "example_junk = \<lparr>jk_md = \<lparr>md_state = [], md_length = 0, md_curlen = 0, md_buf = replicate 64 0\<rparr>, jk_x = replicate 32 0, jk_y = replicate 32 0\<rparr>"

definition example_e :: int where
  "example_e = (case sm2_digest (jk_md example_junk) (put_big (big_of SM2_Gx) (replicate 32 0)) (put_big (big_of SM2_Gy) (replicate 32 0)) [0x61] of
     Inr e \<Rightarrow> e | Inl f \<Rightarrow> 0)"

definition example_curve :: "int curve" where
  "example_curve = \<lparr>epoint_set = (\<lambda>x y. if x = big_of SM2_Gx \<and> y = big_of SM2_Gy then Some 1 else None),
     ecurve_mult = (\<lambda>a P. (a * P) mod big_n), ecurve_add = (\<lambda>P Q. (P + Q) mod big_n), point_at_infinity = (\<lambda>P. P = 0),
     epoint_get = (\<lambda>P. if P = 1 then (big_of SM2_Gx, big_of SM2_Gy) else ((1 - example_e) mod big_n, 0))\<rparr>"

definition example_prikey :: bytes where
  "example_prikey = replicate 31 0 @ [1]"

definition example_two :: rng where
  "example_two = \<lparr>ira = [0, 0x39d54125, 0x53bbf409, 0x21c6052b, 0x7203df6b, 0xffffffff, 0xffffffff, 0xffffffff, 0xfffffffe] @ replicate 28 0,
     rndptr = 0, borrow = 0\<rparr>"

definition example_sm2 :: "int sm2_state" where
  "example_sm2 = \<lparr>rs_rng = example_two, set_seed = True, curve_set = True, success_excuted = True, point_G = 1\<rparr>"

lemma big_of_less: "big_of bs < 256 ^ 32"
proof -
  have "bytes_to_big (take 32 bs) < 256 ^ length (take 32 bs)" by (rule bytes_to_big_less)
  also have "(256 :: nat) ^ length (take 32 bs) \<le> 256 ^ 32" by (rule power_increasing) simp_all
  finally have "int (bytes_to_big (take 32 bs)) < int (256 ^ 32)" by (simp only: of_nat_less_iff)
  then show ?thesis by (simp add: big_of_def SM2_NUMWORD_def)
qed

lemma example_laws: "curve_laws example_curve 1"
proof -
  have "(a mod big_n + b mod big_n) mod big_n = (a + b) mod big_n" "(a * (b mod big_n)) mod big_n = (a * b) mod big_n" for a b
    by (simp_all add: mod_simps)
  moreover have "0 \<le> big_of SM2_Gx" "0 \<le> (1 - example_e) mod big_n" using big_n_pos(1) by simp_all
  ultimately show ?thesis by (simp add: curve_laws_def example_curve_def)
qed

lemma example_draw: "\<exists>g. bigrand (nat big_n) example_two = (2, g)"
proof -
  have w: "big_words (nat big_n) = [0x39d54123, 0x53bbf409, 0x21c6052b, 0x7203df6b, 0xffffffff, 0xffffffff, 0xffffffff, 0xfffffffe]"
    unfolding big_n_val by (simp add: big_words.simps)
  have b: "brand (example_two\<lparr>rndptr := i\<rparr>) = (ira example_two ! Suc i, example_two\<lparr>rndptr := Suc i\<rparr>)" if "i < 36" for i
    using that by (simp add: brand_def NK_def example_two_def)
  have st: "bigrand_loop w w0 (example_two\<lparr>rndptr := i\<rparr>) = bigrand_loop w (w0 @ [ira example_two ! Suc i]) (example_two\<lparr>rndptr := Suc i\<rparr>)"
    if "i < 36" "Suc (length w0) < length w" for i w w0
    using that by (subst bigrand_loop.simps) (simp add: b mr_compare_def Let_def)
  have "example_two = example_two\<lparr>rndptr := 0\<rparr>" by (simp add: example_two_def)
  then have "bigrand_loop (big_words (nat big_n)) [] example_two =
      bigrand_loop (big_words (nat big_n)) [0x39d54125, 0x53bbf409, 0x21c6052b, 0x7203df6b, 0xffffffff, 0xffffffff, 0xffffffff] (example_two\<lparr>rndptr := 7\<rparr>)"
    using st [of 0 "[]" "big_words (nat big_n)"] st [of _ _ "big_words (nat big_n)"] unfolding w
    by (simp add: st example_two_def eval_nat_numeral)
  also have "\<dots> = ([0x39d54125, 0x53bbf409, 0x21c6052b, 0x7203df6b, 0xffffffff, 0xffffffff, 0xffffffff, 0xfffffffe], example_two\<lparr>rndptr := 8\<rparr>)"
    unfolding w by (subst bigrand_loop.simps) (use b [of 7] in \<open>simp add: mr_compare_def Let_def example_two_def\<close>)
  finally show ?thesis by (simp add: bigrand_def big_n_val)
qed

lemma example_key_val: "big_of example_prikey = 1"
  by (simp add: big_of_def SM2_NUMWORD_def example_prikey_def bytes_to_big_def eval_nat_numeral)

lemma example_digest: "sm2_digest (jk_md example_junk) (put_big (big_of SM2_Gx) (replicate 32 0)) (put_big (big_of SM2_Gy) (replicate 32 0)) [0x61] = Inr example_e"
  and example_e_nonneg: "0 \<le> example_e"
  by (simp_all add: example_e_def sm2_digest_def MAX_MESSAGE_SIZE_def SM3_bytes_def Let_def)

lemma example_sm2_ready: "sm2_ready 1 example_sm2"
  by (simp add: sm2_ready_def example_sm2_def)

lemma example_pubkey: "\<exists>i. SM2_make_pubkey example_curve example_prikey (replicate 32 0) (replicate 32 0) example_sm2 =
    Inr (i, put_big (big_of SM2_Gx) (replicate 32 0), put_big (big_of SM2_Gy) (replicate 32 0), example_sm2)"
  unfolding make_pubkey_ready [OF example_sm2_ready] example_key_val
  by (simp add: example_curve_def big_n_val)

lemma example_random: "\<exists>s. SM2_gen_random (replicate 32 0) example_sm2 = Inr (put_big 2 (replicate 32 0), s) \<and> point_G s = 1"
proof -
  obtain g where "bigrand (nat big_n) example_two = (2, g)" using example_draw by blast
  then show ?thesis
    by (simp add: SM2_gen_random_def draw_until.simps example_sm2_def put_big_def big_n_val)
qed

lemma example_sign: "\<exists>R S s. SM2_Sign example_curve example_junk [0x61] example_prikey (replicate 32 0) (replicate 32 0) example_sm2 = Inr (0, R, S, s)"
proof -
  obtain i where pk: "SM2_make_pubkey example_curve example_prikey (replicate 32 0) (replicate 32 0) example_sm2 =
    Inr (i, put_big (big_of SM2_Gx) (replicate 32 0), put_big (big_of SM2_Gy) (replicate 32 0), example_sm2)"
    using example_pubkey by blast
  obtain s where g: "SM2_gen_random (replicate 32 0) example_sm2 = Inr (put_big 2 (replicate 32 0), s)" "point_G s = 1"
    using example_random by blast
  have k: "big_of (put_big 2 (replicate 32 0)) = 2" by (rule big_of_put_big) simp_all
  have "0 \<le> (1 - example_e) mod big_n" using big_n_pos(1) by simp
  then have r: "crem (example_e + (1 - example_e) mod big_n) big_n = 1"
    using example_e_nonneg big_n_pos by (simp add: crem_pos mod_add_right_eq)
  have x: "xgcd_coeff 2 big_n = 0x7fffffff7fffffffffffffffffffffffb901efb590e30295a9ddfa049ceaa092"
    by (simp add: xgcd_coeff_def big_n_val bezw.simps)
  have c: "crem 1 big_n = 1" "crem (0x7fffffff7fffffffffffffffffffffffb901efb590e30295a9ddfa049ceaa092 * (2 - 1 + big_n)) big_n \<noteq> 0" "3 \<noteq> big_n"
    by (simp_all add: crem_pos big_n_val)
  have j: "jk_x example_junk = replicate 32 0" "jk_y example_junk = replicate 32 0" by (simp_all add: example_junk_def)
  have p: "ecurve_mult example_curve 2 1 = 2" "epoint_get example_curve 2 = ((1 - example_e) mod big_n, 0)"
    by (simp_all add: example_curve_def big_n_val)
  show ?thesis
    using SM2_Init_ready [OF example_sm2_ready, of example_curve] pk g k r x example_digest c
    by (simp add: SM2_Sign_def j p example_key_val Let_def Test_Zero_def Test_n_def)
qed

theorem SM2_sign_verify_witness:
  "\<exists>R S s. SM2_Sign example_curve example_junk [0x61] example_prikey (replicate 32 0) (replicate 32 0) example_sm2 = Inr (0, R, S, s) \<and>
    SM2_Verify example_curve example_junk [0x61] (put_big (big_of SM2_Gx) (replicate 32 0)) (put_big (big_of SM2_Gy) (replicate 32 0)) R S
      example_sm2 = Inr (0, example_sm2)"
proof -
  obtain R S s where sg: "SM2_Sign example_curve example_junk [0x61] example_prikey (replicate 32 0) (replicate 32 0) example_sm2 = Inr (0, R, S, s)"
    using example_sign by blast
  obtain i where pk: "SM2_make_pubkey example_curve example_prikey (replicate 32 0) (replicate 32 0) example_sm2 =
    Inr (i, put_big (big_of SM2_Gx) (replicate 32 0), put_big (big_of SM2_Gy) (replicate 32 0), example_sm2)"
    using example_pubkey by blast
  have co: "coprime (1 + 1) big_n" by (simp add: big_n_val coprime_left_2_iff_odd)
  have m: "ecurve_mult example_curve 1 1 = 1" by (simp add: example_curve_def big_n_val)
  have "SM2_Verify example_curve example_junk [0x61] (put_big (big_of SM2_Gx) (replicate 32 0)) (put_big (big_of SM2_Gy) (replicate 32 0)) R S
      example_sm2 = Inr (0, example_sm2)"
    by (rule SM2_sign_verify [OF example_laws example_sm2_ready example_sm2_ready, where d = example_prikey and x = "big_of SM2_Gx" and y = "big_of SM2_Gy",
          unfolded example_key_val m, OF co _ _ _ _ _ _ _ _ _ _ _ _ _ _ pk sg])
      (simp_all add: example_curve_def example_junk_def big_of_less [simplified])
  then show ?thesis using sg by blast
qed

text \<open>
  C10: The seed has no effect on SM2. \<open>SM2_Init\<close> starts MIRACL anew, which puts the generator
  into its fixed first state, and then draws its own seed from that generator: whatever seed
  the application set before, \<open>SM2_KeyGeneration\<close> gives the same key pair and \<open>SM2_Sign\<close> the
  same signature, with the same secret number \<open>k\<close>.
\<close>

theorem SM2_ignores_seed:
  assumes "\<not> success_excuted s"
  shows "SM2_KeyGeneration C PriKey Px Py (penglai_set_rand_seed seed1 s) = SM2_KeyGeneration C PriKey Px Py (penglai_set_rand_seed seed2 s) \<and>
    SM2_Sign C jk message d R S (penglai_set_rand_seed seed1 s) = SM2_Sign C jk message d R S (penglai_set_rand_seed seed2 s)"
proof -
  have "mirsys (penglai_set_rand_seed seed1 s) = mirsys (penglai_set_rand_seed seed2 s)"
    by (simp add: mirsys_def penglai_set_rand_seed_def Let_def)
  then have "SM2_Init C (penglai_set_rand_seed seed1 s) = SM2_Init C (penglai_set_rand_seed seed2 s)"
    using assms by (simp add: SM2_Init_def MIRACL_Init_def) (simp add: penglai_set_rand_seed_def mirsys_def Let_def)
  then show ?thesis by (simp add: SM2_KeyGeneration_def SM2_Sign_def)
qed

definition example_fresh :: "int sm2_state" where
  "example_fresh = \<lparr>rs_rng = quick_start, set_seed = False, curve_set = False, success_excuted = False, point_G = 0\<rparr>"

theorem SM2_ignores_seed_witness:
  "SM2_KeyGeneration example_curve example_prikey [] [] (penglai_set_rand_seed 0x12345678 example_fresh) =
   SM2_KeyGeneration example_curve example_prikey [] [] (penglai_set_rand_seed 0x9abcdef0 example_fresh)"
  using SM2_ignores_seed [of example_fresh example_curve example_prikey "[]" "[]" "0x12345678" "0x9abcdef0" example_junk "[]" "[]" "[]" "[]"]
  by (simp add: example_fresh_def)

text \<open>
  C26: Generated keys. When \<open>SM2_KeyGeneration\<close> succeeds, the private key is between 1 and
  \<open>n - 2\<close>, the public key is its multiple of \<open>G\<close>, a point of the curve other than infinity with
  coordinates below \<open>p\<close> whose order divides \<open>n\<close>.
\<close>

theorem SM2_KeyGeneration_correct:
  assumes ready: "sm2_ready G s" and len: "length PriKey = 32" and pos: "\<forall>P. 0 \<le> fst (epoint_get C P)"
    and gen: "SM2_KeyGeneration C PriKey Px Py s = Inr (0, d, Px', Py', s')"
  shows "\<exists>x y. 1 \<le> big_of d \<and> big_of d \<le> big_n - 2 \<and> epoint_get C (ecurve_mult C (big_of d) G) = (x, y) \<and>
    Px' = put_big x Px \<and> Py' = put_big y Py \<and> x < big_p \<and> y < big_p \<and> (x ^ 3 + big_a * x + big_b) mod big_p = y ^ 2 mod big_p \<and>
    \<not> point_at_infinity C (ecurve_mult C (big_of d) G) \<and>
    point_at_infinity C (ecurve_mult C big_n (ecurve_mult C (big_of d) G))"
  using assms by (rule generated_keys)

definition example_flat :: "int curve" where
  "example_flat = example_curve\<lparr>epoint_get := (\<lambda>P. (big_of SM2_Gx, big_of SM2_Gy))\<rparr>"

lemma curve_vals:
  "big_p = 0xfffffffeffffffffffffffffffffffffffffffff00000000ffffffffffffffff"
  "big_a = 0xfffffffeffffffffffffffffffffffffffffffff00000000fffffffffffffffc"
  "big_b = 0x28e9fa9e9d9f5e344d5a9e4bcf6509a7f39789f515ab8f92ddbcbd414d940e93"
  "big_of SM2_Gx = 0x32c4ae2c1f1981195f9904466a39c9948fe30bbff2660be1715a4589334c74c7"
  "big_of SM2_Gy = 0xbc3736a2f4f6779c59bdcee36b692153d0a9877cc62a474002df32e52139f0a0"
  by (simp_all add: big_p_def big_a_def big_b_def big_of_def SM2_NUMWORD_def bytes_to_big_def SM2_p_def SM2_a_def SM2_b_def SM2_Gx_def SM2_Gy_def)

lemma G_on_curve:
  "(big_of SM2_Gx ^ 3 + big_a * big_of SM2_Gx + big_b) mod big_p = big_of SM2_Gy ^ 2 mod big_p" "big_of SM2_Gx < big_p" "big_of SM2_Gy < big_p"
proof -
  have "big_of SM2_Gx ^ 3 + big_a * big_of SM2_Gx + big_b = big_of SM2_Gy ^ 2 +
      big_p * 0x1ff231cb8de202f6800e795420b806030333747296cf08ae9f5b2ba2fe5ba24316cb8ab1e12d8e77df677a1e1d27abd2c3f24d34899b94abecd8e8e33d54cf2"
    unfolding curve_vals by simp
  then show "(big_of SM2_Gx ^ 3 + big_a * big_of SM2_Gx + big_b) mod big_p = big_of SM2_Gy ^ 2 mod big_p" by (simp only: mod_mult_self2)
qed (simp_all add: curve_vals)

lemma example_prikey_2: "\<exists>g. SM2_make_prikey (replicate 32 0) example_sm2 = Inr (put_big 2 (replicate 32 0), example_sm2\<lparr>rs_rng := g\<rparr>)"
proof -
  obtain g where g: "bigrand (nat big_n) example_two = (2, g)" using example_draw by blast
  have "draw_until (nat big_n) (\<lambda>x. \<not> (int x < 1 \<or> int x > big_n - 2)) example_two = Some (2, g)"
    by (subst draw_until.simps) (simp add: g, simp add: big_n_val)
  then have "SM2_make_prikey (replicate 32 0) example_sm2 = Inr (put_big 2 (replicate 32 0), example_sm2\<lparr>rs_rng := g\<rparr>)"
    by (simp add: SM2_make_prikey_def put_big_def example_sm2_def)
  then show ?thesis by blast
qed

lemma example_flat_test: "Test_PubKey example_flat 2 = 0"
proof -
  have "Test_Point example_flat 2 = 0"
    using G_on_curve(1) Test_Point_eq [of "big_of SM2_Gx"] by (simp add: Test_Point_def example_flat_def)
  then show ?thesis
    using G_on_curve(2,3) by (simp add: Test_PubKey_def) (simp add: example_flat_def example_curve_def)
qed

lemma example_flat_mult: "ecurve_mult example_flat 2 1 = 2" "epoint_get example_flat P = (big_of SM2_Gx, big_of SM2_Gy)"
  by (simp_all add: example_flat_def example_curve_def big_n_val)

theorem SM2_KeyGeneration_correct_witness:
  "\<exists>d s'. SM2_KeyGeneration example_flat (replicate 32 0) [] [] example_sm2 = Inr (0, d, put_big (big_of SM2_Gx) [], put_big (big_of SM2_Gy) [], s') \<and>
     1 \<le> big_of d \<and> big_of d \<le> big_n - 2"
proof -
  obtain g where pr: "SM2_make_prikey (replicate 32 0) example_sm2 = Inr (put_big 2 (replicate 32 0), example_sm2\<lparr>rs_rng := g\<rparr>)"
    using example_prikey_2 by blast
  have k: "big_of (put_big 2 (replicate 32 0)) = 2" by (rule big_of_put_big) simp_all
  have rd: "sm2_ready 1 (example_sm2\<lparr>rs_rng := g\<rparr>)" by (simp add: sm2_ready_def example_sm2_def)
  have "SM2_make_pubkey example_flat (put_big 2 (replicate 32 0)) [] [] (example_sm2\<lparr>rs_rng := g\<rparr>) =
      Inr (0, put_big (big_of SM2_Gx) [], put_big (big_of SM2_Gy) [], example_sm2\<lparr>rs_rng := g\<rparr>)"
    unfolding make_pubkey_ready [OF rd] k example_flat_mult example_flat_test by simp
  then have gen: "SM2_KeyGeneration example_flat (replicate 32 0) [] [] example_sm2 =
      Inr (0, put_big 2 (replicate 32 0), put_big (big_of SM2_Gx) [], put_big (big_of SM2_Gy) [], example_sm2\<lparr>rs_rng := g\<rparr>)"
    using SM2_Init_ready [OF example_sm2_ready, of example_flat] pr by (simp add: SM2_KeyGeneration_def)
  have pos: "\<forall>P. 0 \<le> fst (epoint_get example_flat P)" unfolding example_flat_mult by simp
  have "1 \<le> big_of (put_big 2 (replicate 32 0)) \<and> big_of (put_big 2 (replicate 32 0)) \<le> big_n - 2"
    using SM2_KeyGeneration_correct [OF example_sm2_ready _ pos gen] unfolding k length_replicate by blast
  then show ?thesis using gen by blast
qed



text \<open>
  C35: What \<open>SM2_Verify\<close> refuses, before it looks at the message: a public key that is no point
  of the curve, and \<open>R\<close> and \<open>S\<close> outside the range from 1 to \<open>n - 1\<close>, each with its error code.
  A message of more than 1025 bytes with a signature in range is copied past the end of the
  array on the stack.
\<close>

theorem SM2_Verify_refuses:
  assumes "sm2_ready G s"
  shows "(epoint_set C (big_of Px) (big_of Py) = None \<longrightarrow> SM2_Verify C jk message Px Py R S s = Inr (11, s)) \<and>
    (epoint_set C (big_of Px) (big_of Py) = Some PA \<longrightarrow>
      (big_of R = 0 \<or> big_of R \<ge> big_n \<longrightarrow> SM2_Verify C jk message Px Py R S s = Inr (8, s)) \<and>
      (0 < big_of R \<longrightarrow> big_of R < big_n \<longrightarrow>
        (big_of S = 0 \<or> big_of S \<ge> big_n \<longrightarrow> SM2_Verify C jk message Px Py R S s = Inr (9, s)) \<and>
        (0 < big_of S \<longrightarrow> big_of S < big_n \<longrightarrow> 1025 < length message \<longrightarrow>
          SM2_Verify C jk message Px Py R S s = Inl (OutOfBounds ''M'' 1057))))"
  using assms SM2_Init_ready [OF assms, of C] big_of_nonneg [of R] big_of_nonneg [of S]
  by (auto simp: SM2_Verify_def sm2_ready_def Test_Range_def sm2_errors sm2_digest_def MAX_MESSAGE_SIZE_def SM3_bytes_def Let_def)

theorem SM2_Verify_refuses_witness:
  "SM2_Verify example_curve example_junk (replicate 1026 0) SM2_Gx SM2_Gy example_prikey example_prikey example_sm2 = Inl (OutOfBounds ''M'' 1057)"
proof -
  have "epoint_set example_curve (big_of SM2_Gx) (big_of SM2_Gy) = Some 1" by (simp add: example_curve_def)
  then show ?thesis
    using SM2_Verify_refuses [OF example_sm2_ready, of example_curve SM2_Gx SM2_Gy example_junk "replicate 1026 0" example_prikey example_prikey 1]
      big_n_pos by (simp add: example_key_val)
qed

end
