(* ===== verification/Miracl_Core.thy ===== *)
theory Miracl_Core
  imports Prelude "HOL-Library.Monad_Syntax"
begin

text \<open>
  The numbers of MIRACL, \<^verbatim>\<open>lib/gm/source/miracl/mrcore.c\<close>, as \<^verbatim>\<open>mirdef.h\<close> configures the
  library: words of 32 bits in base \<open>2 ^ 32\<close>, no floating slashes, no tracing, no output of
  errors. A number is a length whose top bit is the sign and an array of words; numbers live
  in a store, so that an operation called with the same number twice reads and writes the
  same array. The routines are functions on the state of the library. Access to a number that
  is not there or to a word past the end of its array is the result \<open>None\<close>.
\<close>

subsection \<open>Numbers in the store\<close>

record bigtype =
  blen :: u32
  bw :: "u32 list"

record miracl =
  ERNUM :: int
  ERCON :: bool
  nib :: int
  mr_check :: bool
  mr_w0 :: nat
  mr_w5 :: nat
  bigs :: "nat \<rightharpoonup> bigtype"

definition NULL :: nat where "NULL = 0"
definition PLUS :: int where "PLUS = 1"
definition MINUS :: int where "MINUS = - 1"
definition MR_MSBIT :: u32 where "MR_MSBIT = push_bit 31 1"
definition MR_OBITS :: u32 where "MR_OBITS = MR_MSBIT - 1"
definition MR_TOOBIG :: u32 where "MR_TOOBIG = push_bit 30 1"
definition MR_ERR_OVERFLOW :: int where "MR_ERR_OVERFLOW = 3"
definition MR_ERR_NEG_RESULT :: int where "MR_ERR_NEG_RESULT = 4"

definition upd_big :: "nat \<Rightarrow> (bigtype \<Rightarrow> bigtype) \<Rightarrow> miracl \<Rightarrow> miracl" where
  "upd_big x f s = s\<lparr>bigs := (bigs s)(x := map_option f (bigs s x))\<rparr>"

definition get_len :: "nat \<Rightarrow> miracl \<Rightarrow> u32 option" where
  "get_len x s = map_option blen (bigs s x)"

definition set_len :: "nat \<Rightarrow> u32 \<Rightarrow> miracl \<Rightarrow> miracl option" where
  "set_len x l s = (if bigs s x = None then None else Some (upd_big x (blen_update (\<lambda>_. l)) s))"

definition rd :: "nat \<Rightarrow> nat \<Rightarrow> miracl \<Rightarrow> u32 option" where
  "rd x i s =
     (case bigs s x of None \<Rightarrow> None | Some b \<Rightarrow> if i < length (bw b) then Some (bw b ! i) else None)"

definition wr :: "nat \<Rightarrow> nat \<Rightarrow> u32 \<Rightarrow> miracl \<Rightarrow> miracl option" where
  "wr x i v s =
     (case bigs s x of None \<Rightarrow> None
      | Some b \<Rightarrow> if i < length (bw b) then Some (upd_big x (bw_update (\<lambda>ws. ws[i := v])) s) else None)"

text \<open>The loop \<open>for (; i < n; i++) body\<close>.\<close>

function for_up :: "nat \<Rightarrow> nat \<Rightarrow> (nat \<Rightarrow> 's \<Rightarrow> 's option) \<Rightarrow> 's \<Rightarrow> 's option" where
  "for_up i n body s = (if i < n then body i s \<bind> for_up (Suc i) n body else Some s)"
  by pat_completeness auto
termination by (relation "measure (\<lambda>(i, n, _). n - i)") auto

declare for_up.simps [simp del]

text \<open>The loop \<open>for (i--; i >= n; i--) body\<close>.\<close>

function for_down :: "nat \<Rightarrow> nat \<Rightarrow> (nat \<Rightarrow> 's \<Rightarrow> 's option) \<Rightarrow> 's \<Rightarrow> 's option" where
  "for_down i n body s = (if n < i then body (i - 1) s \<bind> for_down (i - 1) n body else Some s)"
  by pat_completeness auto
termination by (relation "measure (\<lambda>(i, n, _). i - n)") auto

declare for_down.simps [simp del]

subsection \<open>The routines\<close>

definition mr_berror :: "int \<Rightarrow> miracl \<Rightarrow> miracl" where
  "mr_berror nerr s = (if ERCON s then s\<lparr>ERNUM := nerr\<rparr> else s)"

definition mr_zero :: "nat \<Rightarrow> miracl \<Rightarrow> miracl option" where
  "mr_zero x s =
     (if x = NULL then Some s
      else do {
        l \<leftarrow> get_len x s;
        let n = unat (l AND MR_OBITS);
        s \<leftarrow> for_up 0 n (\<lambda>i. wr x i 0) s;
        set_len x 0 s
      })"

definition uconvert :: "u32 \<Rightarrow> nat \<Rightarrow> miracl \<Rightarrow> miracl option" where
  "uconvert n x s = do {
     s \<leftarrow> mr_zero x s;
     if n = 0 then Some s
     else do {
       s \<leftarrow> wr x 0 n s;
       set_len x 1 s
     }
   }"

definition tconvert :: "int \<Rightarrow> nat \<Rightarrow> miracl \<Rightarrow> miracl option" where
  "tconvert n x s =
     (if n = 0 then mr_zero x s
      else do {
        let sg = (if n < 0 then MR_MSBIT else 0);
        let n = (if n < 0 then - n else n);
        s \<leftarrow> wr x 0 (word_of_int n) s;
        s \<leftarrow> set_len x 1 s;
        l \<leftarrow> get_len x s;
        set_len x (l OR sg) s
      })"

definition mr_convert :: "int \<Rightarrow> nat \<Rightarrow> miracl \<Rightarrow> miracl option" where
  "mr_convert n x s =
     (if n = 0 then mr_zero x s
      else do {
        let sg = (if n < 0 then MR_MSBIT else 0);
        let n = (if n < 0 then - n else n);
        s \<leftarrow> uconvert (word_of_int n) x s;
        l \<leftarrow> get_len x s;
        set_len x (l OR sg) s
      })"

definition exsign :: "nat \<Rightarrow> miracl \<Rightarrow> int option" where
  "exsign x s = map_option (\<lambda>l. if l AND MR_MSBIT = 0 then PLUS else MINUS) (get_len x s)"

definition insign :: "int \<Rightarrow> nat \<Rightarrow> miracl \<Rightarrow> miracl option" where
  "insign sg x s = do {
     l \<leftarrow> get_len x s;
     if l = 0 then Some s
     else if sg < 0 then set_len x (l OR MR_MSBIT) s
     else set_len x (l AND MR_OBITS) s
   }"

fun lzero_loop :: "nat \<Rightarrow> nat \<Rightarrow> miracl \<Rightarrow> nat option" where
  "lzero_loop x 0 s = Some 0"
| "lzero_loop x (Suc m) s = do {
     v \<leftarrow> rd x m s;
     if v = 0 then lzero_loop x m s else Some (Suc m)
   }"

definition mr_lzero :: "nat \<Rightarrow> miracl \<Rightarrow> miracl option" where
  "mr_lzero x s = do {
     l \<leftarrow> get_len x s;
     let sg = l AND MR_MSBIT;
     m \<leftarrow> lzero_loop x (unat (l AND MR_OBITS)) s;
     s \<leftarrow> set_len x (of_nat m) s;
     if 0 < m then set_len x (of_nat m OR sg) s else Some s
   }"

definition mr_copy :: "nat \<Rightarrow> nat \<Rightarrow> miracl \<Rightarrow> miracl option" where
  "mr_copy x y s =
     (if x = y \<or> y = NULL then Some s
      else if x = NULL then mr_zero y s
      else do {
        ly \<leftarrow> get_len y s;
        lx \<leftarrow> get_len x s;
        let ny = unat (ly AND MR_OBITS);
        let nx = unat (lx AND MR_OBITS);
        s \<leftarrow> for_up nx ny (\<lambda>i. wr y i 0) s;
        s \<leftarrow> for_up 0 nx (\<lambda>i s. do { v \<leftarrow> rd x i s; wr y i v s }) s;
        l \<leftarrow> get_len x s;
        set_len y l s
      })"

definition negify :: "nat \<Rightarrow> nat \<Rightarrow> miracl \<Rightarrow> miracl option" where
  "negify x y s = do {
     s \<leftarrow> mr_copy x y s;
     l \<leftarrow> get_len y s;
     if l \<noteq> 0 then set_len y (l XOR MR_MSBIT) s else Some s
   }"

definition absol :: "nat \<Rightarrow> nat \<Rightarrow> miracl \<Rightarrow> miracl option" where
  "absol x y s = do {
     s \<leftarrow> mr_copy x y s;
     l \<leftarrow> get_len y s;
     set_len y (l AND MR_OBITS) s
   }"

definition mr_shift :: "nat \<Rightarrow> int \<Rightarrow> nat \<Rightarrow> miracl \<Rightarrow> miracl option" where
  "mr_shift x n w s =
     (if ERNUM s \<noteq> 0 then Some s
      else do {
        s \<leftarrow> mr_copy x w s;
        l \<leftarrow> get_len w s;
        if l = 0 \<or> n = 0 then Some s
        else do {
          let sg = l AND MR_MSBIT;
          let bl = uint (l AND MR_OBITS) + n;
          if bl \<le> 0 then mr_zero w s
          else do {
            let s = (if bl > nib s \<and> mr_check s then mr_berror MR_ERR_OVERFLOW s else s);
            if ERNUM s \<noteq> 0 then Some s
            else do {
              s \<leftarrow> (if n > 0 then do {
                     s \<leftarrow> for_down (nat bl) (nat n) (\<lambda>i s. do { v \<leftarrow> rd w (i - nat n) s; wr w i v s }) s;
                     for_up 0 (nat n) (\<lambda>i. wr w i 0) s
                   }
                   else do {
                     let n = - n;
                     s \<leftarrow> for_up 0 (nat bl) (\<lambda>i s. do { v \<leftarrow> rd w (i + nat n) s; wr w i v s }) s;
                     for_up 0 (nat n) (\<lambda>i. wr w (nat bl + i) 0) s
                   });
              set_len w (word_of_int bl OR sg) s
            }
          }
        }
      })"

definition mr_size :: "nat \<Rightarrow> miracl \<Rightarrow> int option" where
  "mr_size x s =
     (if x = NULL then Some 0
      else do {
        l \<leftarrow> get_len x s;
        let sg = l AND MR_MSBIT;
        let m = l AND MR_OBITS;
        if m = 0 then Some 0
        else do {
          v \<leftarrow> (if m = 1 then rd x 0 s else Some MR_TOOBIG);
          let n = (if v < MR_TOOBIG then uint v else uint MR_TOOBIG);
          Some (if sg = MR_MSBIT then - n else n)
        }
      })"

fun compare_loop :: "nat \<Rightarrow> nat \<Rightarrow> int \<Rightarrow> nat \<Rightarrow> miracl \<Rightarrow> int option" where
  "compare_loop x y sig 0 s = Some 0"
| "compare_loop x y sig (Suc m) s = do {
     a \<leftarrow> rd x m s;
     b \<leftarrow> rd y m s;
     if a > b then Some sig
     else if a < b then Some (- sig)
     else compare_loop x y sig m s
   }"

definition mr_compare_big :: "nat \<Rightarrow> nat \<Rightarrow> miracl \<Rightarrow> int option" where
  "mr_compare_big x y s =
     (if x = y then Some 0
      else do {
        lx \<leftarrow> get_len x s;
        ly \<leftarrow> get_len y s;
        let sx = lx AND MR_MSBIT;
        let sy = ly AND MR_MSBIT;
        let sig = (if sx = 0 then PLUS else MINUS);
        if sx \<noteq> sy then Some sig
        else do {
          let m = unat (lx AND MR_OBITS);
          let n = unat (ly AND MR_OBITS);
          if m > n then Some sig
          else if m < n then Some (- sig)
          else compare_loop x y sig m s
        }
      })"

subsection \<open>Loops and the store\<close>

lemma for_up_inv:
  assumes "i \<le> n" "P i s"
    and "\<And>j t. i \<le> j \<Longrightarrow> j < n \<Longrightarrow> P j t \<Longrightarrow> \<exists>u. body j t = Some u \<and> P (Suc j) u"
  shows "\<exists>t. for_up i n body s = Some t \<and> P n t"
  using assms
proof (induction i n body s rule: for_up.induct)
  case (1 i n body s)
  show ?case
  proof (cases "i < n")
    case True
    with 1 obtain u where u: "body i s = Some u" "P (Suc i) u" by blast
    have "\<exists>t. for_up (Suc i) n body u = Some t \<and> P n t"
      using True u 1 by (intro "1.IH") auto
    with True u show ?thesis by (subst for_up.simps) simp
  next
    case False
    with 1 show ?thesis by (subst for_up.simps) simp
  qed
qed

lemma for_down_inv:
  assumes "n \<le> i" "P i s"
    and "\<And>j t. n \<le> j \<Longrightarrow> j < i \<Longrightarrow> P (Suc j) t \<Longrightarrow> \<exists>u. body j t = Some u \<and> P j u"
  shows "\<exists>t. for_down i n body s = Some t \<and> P n t"
  using assms
proof (induction i n body s rule: for_down.induct)
  case (1 i n body s)
  show ?case
  proof (cases "n < i")
    case True
    with 1 obtain u where u: "body (i - 1) s = Some u" "P (i - 1) u"
      by (metis Suc_pred' gr_implies_not0 less_Suc_eq_le less_nat_zero_code lessI linorder_neqE_nat)
    have "\<exists>t. for_down (i - 1) n body u = Some t \<and> P n t"
      using True u 1 by (intro "1.IH") auto
    with True u show ?thesis by (subst for_down.simps) simp
  next
    case False
    with 1 show ?thesis by (subst for_down.simps) simp
  qed
qed

definition store_big :: "nat \<Rightarrow> bigtype \<Rightarrow> miracl \<Rightarrow> miracl" where
  "store_big x b s = s\<lparr>bigs := (bigs s)(x \<mapsto> b)\<rparr>"

lemma bigs_store_big [simp]: "bigs (store_big x b s) y = (if y = x then Some b else bigs s y)"
  by (simp add: store_big_def)

lemma store_big_fields [simp]:
  "ERNUM (store_big x b s) = ERNUM s" "ERCON (store_big x b s) = ERCON s" "nib (store_big x b s) = nib s"
  "mr_check (store_big x b s) = mr_check s" "mr_w0 (store_big x b s) = mr_w0 s" "mr_w5 (store_big x b s) = mr_w5 s"
  by (simp_all add: store_big_def)

lemma store_big_put [simp]: "store_big x b (store_big x c s) = store_big x b s"
  by (simp add: store_big_def)

lemma store_big_swap: "x \<noteq> y \<Longrightarrow> store_big x b (store_big y c s) = store_big y c (store_big x b s)"
  by (simp add: store_big_def fun_upd_twist)

lemma store_big_same: "bigs s x = Some b \<Longrightarrow> store_big x b s = s"
  by (simp add: store_big_def fun_upd_idem)

lemma upd_big_store_big: "bigs s x = Some b \<Longrightarrow> upd_big x f s = store_big x (f b) s"
  by (simp add: upd_big_def store_big_def)

lemma set_len_store_big: "bigs s x = Some b \<Longrightarrow> set_len x l s = Some (store_big x (b\<lparr>blen := l\<rparr>) s)"
  by (simp add: set_len_def upd_big_store_big)

lemma wr_store_big: "bigs s x = Some b \<Longrightarrow> i < length (bw b) \<Longrightarrow> wr x i v s = Some (store_big x (b\<lparr>bw := (bw b)[i := v]\<rparr>) s)"
  by (cases b) (simp add: wr_def upd_big_store_big)

lemma rd_some: "bigs s x = Some b \<Longrightarrow> i < length (bw b) \<Longrightarrow> rd x i s = Some (bw b ! i)"
  by (simp add: rd_def)

lemma get_len_some: "bigs s x = Some b \<Longrightarrow> get_len x s = Some (blen b)"
  by (simp add: get_len_def)

lemmas store_simps = set_len_store_big wr_store_big rd_some get_len_some

subsection \<open>The value of a number\<close>

definition base :: nat where "base = 2 ^ 32"

lemma unat_less_base [simp]: "unat (v :: u32) < base"
  using unsigned_less [of v] by (simp add: base_def)

lemma base_pos [simp]: "0 < base" "base \<noteq> 0" by (simp_all add: base_def)

definition wval :: "u32 list \<Rightarrow> nat" where
  "wval ws = horner_sum unat base ws"

lemma wval_simps [simp]: "wval [] = 0" "wval (v # ws) = unat v + base * wval ws"
  by (simp_all add: wval_def)

lemma wval_append: "wval (us @ vs) = wval us + base ^ length us * wval vs"
  by (simp add: wval_def horner_sum_append)

lemma wval_less: "wval ws < base ^ length ws"
proof (induction ws)
  case (Cons v ws)
  have "unat v + base * wval ws < base + base * wval ws" by simp
  also have "\<dots> = base * Suc (wval ws)" by simp
  also have "\<dots> \<le> base * base ^ length ws" using Cons by (intro mult_le_mono) simp_all
  finally show ?case by simp
qed simp

lemma wval_eq_0 [simp]: "wval ws = 0 \<longleftrightarrow> (\<forall>v \<in> set ws. v = 0)"
  by (induction ws) (auto simp: unat_eq_0)

lemma wval_zeros [simp]: "wval (replicate k 0) = 0"
  by simp

lemma wval_split: "i \<le> length ws \<Longrightarrow> wval ws = wval (take i ws) + base ^ i * wval (drop i ws)"
  by (metis append_take_drop_id length_take min.absorb2 wval_append)

lemma wval_take_Suc: "i < length ws \<Longrightarrow> wval (take (Suc i) ws) = wval (take i ws) + base ^ i * unat (ws ! i)"
  by (simp add: take_Suc_conv_app_nth wval_append)

definition mlen :: "bigtype \<Rightarrow> nat" where
  "mlen b = unat (blen b AND MR_OBITS)"

definition mneg :: "bigtype \<Rightarrow> bool" where
  "mneg b \<longleftrightarrow> blen b AND MR_MSBIT \<noteq> 0"

definition big_val :: "bigtype \<Rightarrow> int" where
  "big_val b = (if mneg b then - int (wval (bw b)) else int (wval (bw b)))"

text \<open>
  The form the routines keep numbers in: the words above the length are zero, the highest word
  below it is not, and zero has no sign.
\<close>

definition big_ok :: "nat \<Rightarrow> bigtype \<Rightarrow> bool" where
  "big_ok n b \<longleftrightarrow> length (bw b) = n \<and> mlen b \<le> n \<and> (\<forall>v \<in> set (drop (mlen b) (bw b)). v = 0) \<and>
     (if mlen b = 0 then blen b = 0 else bw b ! (mlen b - 1) \<noteq> 0)"

lemma bit_MR_MSBIT [simp]: "bit MR_MSBIT i \<longleftrightarrow> i = 31"
  unfolding MR_MSBIT_def bit_push_bit_iff by (auto simp: bit_1_iff possible_bit_word)

lemma MR_OBITS_mask: "MR_OBITS = mask 31"
  by (simp add: MR_OBITS_def MR_MSBIT_def mask_eq_exp_minus_1 push_bit_eq_mult)

lemma bit_MR_OBITS [simp]: "bit MR_OBITS i \<longleftrightarrow> i < 31"
  by (auto simp: MR_OBITS_mask bit_simps)

lemma mlen_bits: "mlen b = unat (take_bit 31 (blen b))"
  by (simp add: mlen_def MR_OBITS_mask take_bit_eq_mask and.commute)

lemma MSBIT_not_0 [simp]: "MR_MSBIT \<noteq> 0"
  by (metis bit_0_eq bit_MR_MSBIT bot_apply bot_bool_def)

lemma and_MSBIT: "l AND MR_MSBIT = (if bit (l :: u32) 31 then MR_MSBIT else 0)"
  by (rule bit_word_eqI) (auto simp: bit_simps)

lemma and_MSBIT_0: "l AND MR_MSBIT = 0 \<longleftrightarrow> \<not> bit (l :: u32) 31"
  by (simp add: and_MSBIT)

lemma mneg_bit: "mneg b \<longleftrightarrow> bit (blen b) 31"
  by (simp add: mneg_def and_MSBIT_0)

lemma mneg_same: "l AND MR_MSBIT = k AND MR_MSBIT \<longleftrightarrow> (bit (l :: u32) 31 \<longleftrightarrow> bit k 31)"
  using MSBIT_not_0 by (simp add: and_MSBIT)

lemma mlen_less: "mlen b < 2 ^ 31"
proof -
  have "take_bit 31 (unat (blen b)) < 2 ^ 31" by (rule take_bit_nat_less_exp)
  then show ?thesis by (simp add: mlen_bits unsigned_take_bit_eq)
qed

lemma bit_small: "m < 2 ^ 31 \<Longrightarrow> \<not> bit (of_nat m :: u32) 31"
  by (metis bit_take_bit_iff less_irrefl of_nat_take_bit take_bit_nat_eq_self)

lemma mlen_of_nat [simp]: "m < 2 ^ 31 \<Longrightarrow> mlen (b\<lparr>blen := of_nat m\<rparr>) = m"
  by (simp add: mlen_bits unsigned_take_bit_eq take_bit_nat_eq_self unat_of_nat)

lemma mneg_of_nat [simp]: "m < 2 ^ 31 \<Longrightarrow> \<not> mneg (b\<lparr>blen := of_nat m\<rparr>)"
  by (simp add: mneg_bit bit_small)

lemma mlen_sign [simp]:
  "mlen (b\<lparr>blen := l OR MR_MSBIT\<rparr>) = mlen (b\<lparr>blen := l\<rparr>)"
  "mlen (b\<lparr>blen := l XOR MR_MSBIT\<rparr>) = mlen (b\<lparr>blen := l\<rparr>)"
  "mlen (b\<lparr>blen := l AND MR_OBITS\<rparr>) = mlen (b\<lparr>blen := l\<rparr>)"
  unfolding mlen_bits by (rule arg_cong [where f = unat], rule bit_word_eqI, auto simp: bit_simps)+

lemma mneg_sign [simp]:
  "mneg (b\<lparr>blen := l OR MR_MSBIT\<rparr>)"
  "mneg (b\<lparr>blen := l XOR MR_MSBIT\<rparr>) \<longleftrightarrow> \<not> mneg (b\<lparr>blen := l\<rparr>)"
  "\<not> mneg (b\<lparr>blen := l AND MR_OBITS\<rparr>)"
  by (simp_all add: mneg_bit bit_simps)

lemma sint_len: "\<not> mneg b \<Longrightarrow> sint (blen b) = int (mlen b)"
  unfolding mneg_bit mlen_bits
  by (simp add: sint_uint signed_take_bit_eq_if_positive bit_uint_iff unsigned_take_bit_eq of_nat_take_bit)

lemma len_of_mlen: "\<not> mneg b \<Longrightarrow> blen b = of_nat (mlen b)"
proof -
  assume "\<not> mneg b"
  then have "word_of_int (sint (blen b)) = (word_of_int (int (mlen b)) :: u32)" by (simp add: sint_len)
  then show ?thesis by simp
qed

subsection \<open>Zero and copies\<close>

lemma fold_at: "j < length ws \<Longrightarrow> (us @ drop j ws)[length us := v] = us @ v # drop (Suc j) ws"
  by (simp add: list_update_append flip: Cons_nth_drop_Suc)

lemma clear_loop:
  assumes "bigs s x = Some b" "i \<le> k" "k \<le> length (bw b)"
  shows "for_up i k (\<lambda>i. wr x i 0) s =
         Some (store_big x (b\<lparr>bw := take i (bw b) @ replicate (k - i) 0 @ drop k (bw b)\<rparr>) s)"
proof -
  define st where "st j = store_big x (b\<lparr>bw := (take i (bw b) @ replicate (j - i) 0) @ drop j (bw b)\<rparr>) s" for j
  have "\<exists>t. for_up i k (\<lambda>i. wr x i 0) s = Some t \<and> t = st k"
  proof (rule for_up_inv)
    show "i \<le> k" by fact
    show "s = st i" using assms by (simp add: st_def store_big_same)
    fix j t assume j: "i \<le> j" "j < k" "t = st j"
    have "((take i (bw b) @ replicate (j - i) 0) @ drop j (bw b))[j := 0] =
      (take i (bw b) @ replicate (Suc j - i) 0) @ drop (Suc j) (bw b)"
      using fold_at [of j "bw b" "take i (bw b) @ replicate (j - i) 0" 0] j assms
      by (simp add: Suc_diff_le replicate_append_same)
    then show "\<exists>u. wr x j 0 t = Some u \<and> u = st (Suc j)"
      using j assms by (simp add: st_def wr_store_big [where b = "b\<lparr>bw := _\<rparr>"])
  qed
  then show ?thesis by (simp add: st_def)
qed

lemma zeros_replicate: "(\<forall>v \<in> set ws. v = 0) \<longleftrightarrow> ws = replicate (length ws) (0 :: u32)"
proof
  show "\<forall>v \<in> set ws. v = 0 \<Longrightarrow> ws = replicate (length ws) 0" by (simp add: replicate_length_same)
  show "ws = replicate (length ws) 0 \<Longrightarrow> \<forall>v \<in> set ws. v = 0" by (metis in_set_replicate)
qed

lemma big_ok_len: "big_ok n b \<Longrightarrow> length (bw b) = n" "big_ok n b \<Longrightarrow> mlen b \<le> n"
  by (simp_all add: big_ok_def)

lemma big_ok_drop: "big_ok n b \<Longrightarrow> mlen b \<le> i \<Longrightarrow> drop i (bw b) = replicate (n - i) 0"
proof -
  assume "big_ok n b" "mlen b \<le> i"
  then have "drop (mlen b) (bw b) = replicate (n - mlen b) 0"
    unfolding big_ok_def zeros_replicate by auto
  then have "drop (i - mlen b) (drop (mlen b) (bw b)) = replicate (n - mlen b - (i - mlen b)) 0" by simp
  with \<open>mlen b \<le> i\<close> show ?thesis by simp
qed

definition big_zero :: "nat \<Rightarrow> bigtype" where
  "big_zero n = \<lparr>blen = 0, bw = replicate n 0\<rparr>"

lemma big_zero_ok [simp]: "big_ok n (big_zero n)" "big_val (big_zero n) = 0"
  by (auto simp: big_zero_def big_ok_def mlen_def big_val_def mneg_def)

lemma mr_zero_eq:
  assumes "bigs s x = Some b" "big_ok n b" "x \<noteq> NULL"
  shows "mr_zero x s = Some (store_big x (big_zero n) s)"
proof -
  have "for_up 0 (mlen b) (\<lambda>i. wr x i 0) s = Some (store_big x (b\<lparr>bw := replicate n 0\<rparr>) s)"
    using clear_loop [of s x b 0 "mlen b"] assms big_ok_drop [of n b "mlen b"]
    by (simp add: big_ok_len replicate_add [symmetric])
  then show ?thesis
    using assms by (cases b) (simp add: mr_zero_def store_simps mlen_def big_zero_def)
qed

lemma copy_loop:
  assumes "bigs s x = Some a" "bigs s y = Some b" "x \<noteq> y" "k \<le> length (bw a)" "k \<le> length (bw b)"
  shows "for_up 0 k (\<lambda>i s. rd x i s \<bind> (\<lambda>v. wr y i v s)) s =
         Some (store_big y (b\<lparr>bw := take k (bw a) @ drop k (bw b)\<rparr>) s)"
proof -
  define st where "st j = store_big y (b\<lparr>bw := take j (bw a) @ drop j (bw b)\<rparr>) s" for j
  have "\<exists>t. for_up 0 k (\<lambda>i s. rd x i s \<bind> (\<lambda>v. wr y i v s)) s = Some t \<and> t = st k"
  proof (rule for_up_inv)
    show "s = st 0" using assms by (simp add: st_def store_big_same)
    fix j t assume j: "0 \<le> j" "j < k" "t = st j"
    have "(take j (bw a) @ drop j (bw b))[j := bw a ! j] = take (Suc j) (bw a) @ drop (Suc j) (bw b)"
      using fold_at [of j "bw b" "take j (bw a)" "bw a ! j"] j assms
      by (simp add: take_Suc_conv_app_nth)
    then show "\<exists>u. rd x j t \<bind> (\<lambda>v. wr y j v t) = Some u \<and> u = st (Suc j)"
      using j assms by (simp add: st_def store_simps)
  qed simp
  then show ?thesis by (simp add: st_def)
qed

lemma overwrite: "b\<lparr>bw := bw a, blen := blen a\<rparr> = (a :: bigtype)"
  by (cases a, cases b) simp

lemma clear_above:
  assumes "bigs s y = Some b" "big_ok n b" "k \<le> n"
  shows "\<exists>ws. for_up k (mlen b) (\<lambda>i. wr y i 0) s = Some (store_big y (b\<lparr>bw := ws\<rparr>) s) \<and>
    length ws = n \<and> drop k ws = replicate (n - k) 0"
proof (cases "k \<le> mlen b")
  case True
  have m: "mlen b \<le> n" "length (bw b) = n" "drop (mlen b) (bw b) = replicate (n - mlen b) 0"
    using assms by (simp_all add: big_ok_len big_ok_drop)
  with True assms show ?thesis
    by (intro exI [of _ "take k (bw b) @ replicate (mlen b - k) 0 @ drop (mlen b) (bw b)"] conjI clear_loop)
      (simp_all add: replicate_add [symmetric])
next
  case False
  with assms show ?thesis
    by (intro exI [of _ "bw b"]) (subst for_up.simps, simp add: store_big_same big_ok_len big_ok_drop)
qed

lemma mr_copy_eq:
  assumes "bigs s x = Some a" "bigs s y = Some b" "big_ok n a" "big_ok n b" "x \<noteq> NULL" "y \<noteq> NULL"
  shows "mr_copy x y s = Some (store_big y a s)"
proof (cases "x = y")
  case True
  with assms show ?thesis by (simp add: mr_copy_def store_big_same)
next
  case False
  have m: "mlen a \<le> n" "length (bw a) = n" "drop (mlen a) (bw a) = replicate (n - mlen a) 0"
    using assms by (simp_all add: big_ok_len big_ok_drop)
  obtain ws where 1: "for_up (mlen a) (mlen b) (\<lambda>i. wr y i 0) s = Some (store_big y (b\<lparr>bw := ws\<rparr>) s)"
    and ws: "length ws = n" "drop (mlen a) ws = replicate (n - mlen a) 0"
    using clear_above [OF assms(2,4) m(1)] by blast
  have "take (mlen a) (bw a) @ drop (mlen a) ws = bw a"
    by (metis append_take_drop_id m(3) ws(2))
  then have 2: "for_up 0 (mlen a) (\<lambda>i s. rd x i s \<bind> (\<lambda>v. wr y i v s)) (store_big y (b\<lparr>bw := ws\<rparr>) s) =
      Some (store_big y (b\<lparr>bw := bw a\<rparr>) s)"
    using copy_loop [of "store_big y (b\<lparr>bw := ws\<rparr>) s" x a y "b\<lparr>bw := ws\<rparr>" "mlen a"] False assms m ws by simp
  from False assms 1 2 show ?thesis
    by (simp add: mr_copy_def store_simps overwrite flip: mlen_def)
qed

subsection \<open>Comparison\<close>

lemma wval_take_less: "wval (take m ws) < base ^ m"
  using wval_less [of "take m ws"] order_less_le_trans power_increasing [of "min (length ws) m" m base]
  by (simp add: Suc_leI)

lemma big_ok_take: "big_ok n b \<Longrightarrow> wval (take (mlen b) (bw b)) = wval (bw b)"
  by (subst (2) wval_split [of "mlen b"]) (simp_all add: big_ok_len big_ok_drop)

lemma big_ok_upper: "big_ok n b \<Longrightarrow> wval (bw b) < base ^ mlen b"
  using wval_take_less [of "mlen b" "bw b"] by (simp add: big_ok_take)

lemma big_ok_lower:
  assumes "big_ok n b" "0 < mlen b"
  shows "base ^ (mlen b - 1) \<le> wval (bw b)"
proof -
  obtain m where m: "mlen b = Suc m" using assms(2) gr0_conv_Suc by blast
  then have "bw b ! m \<noteq> 0" "m < length (bw b)" using assms(1) by (simp_all add: big_ok_def)
  then have "base ^ m * 1 \<le> base ^ m * unat (bw b ! m)"
    by (intro mult_le_mono) (simp_all add: Suc_le_eq unat_gt_0)
  also have "\<dots> \<le> wval (take (Suc m) (bw b))" using \<open>m < length (bw b)\<close> by (simp add: wval_take_Suc)
  finally show ?thesis using m big_ok_take [OF assms(1)] by simp
qed

lemma mlen_eq_0: "big_ok n b \<Longrightarrow> mlen b = 0 \<longleftrightarrow> wval (bw b) = 0"
  using big_ok_upper [of n b] big_ok_lower [of n b] by (metis base_pos(1) gr0I less_one not_gr0 power_0 zero_less_power le_zero_eq)

lemma mneg_val: "big_ok n b \<Longrightarrow> mneg b \<longleftrightarrow> big_val b < 0"
  using mlen_eq_0 [of n b] by (cases "mlen b = 0") (auto simp: big_val_def big_ok_def mneg_def simp del: wval_eq_0)

lemma abs_big_val: "\<bar>big_val b\<bar> = int (wval (bw b))"
  by (simp add: big_val_def)

lemma mlen_less_val: "big_ok n a \<Longrightarrow> big_ok n b \<Longrightarrow> mlen a < mlen b \<Longrightarrow> wval (bw a) < wval (bw b)"
  using big_ok_upper [of n a] big_ok_lower [of n b] power_increasing [of "mlen a" "mlen b - 1" base]
  by (cases "mlen b") (simp_all add: Suc_leI less_Suc_eq_le)

lemma column_less:
  assumes "unat (u :: u32) < unat v" "a < base ^ m"
  shows "a + base ^ m * unat u < c + base ^ m * unat v"
proof -
  have "a + base ^ m * unat u < base ^ m * Suc (unat u)" using assms(2) by simp
  also have "\<dots> \<le> base ^ m * unat v" using assms(1) by (intro mult_le_mono) simp_all
  finally show ?thesis by simp
qed

lemma compare_loop_eq:
  assumes "bigs s x = Some a" "bigs s y = Some b" "m \<le> length (bw a)" "m \<le> length (bw b)"
  shows "compare_loop x y sig m s = Some (sig * sgn (int (wval (take m (bw a))) - int (wval (take m (bw b)))))"
  using assms(3,4)
proof (induction m)
  case (Suc m)
  let ?u = "bw a ! m" and ?v = "bw b ! m"
  have r: "rd x m s = Some ?u" "rd y m s = Some ?v" using Suc.prems assms(1,2) by (simp_all add: rd_some)
  have w: "wval (take (Suc m) (bw a)) = wval (take m (bw a)) + base ^ m * unat ?u"
    "wval (take (Suc m) (bw b)) = wval (take m (bw b)) + base ^ m * unat ?v"
    using Suc.prems by (simp_all add: wval_take_Suc)
  consider "?u < ?v" | "?v < ?u" | "?u = ?v" by force
  then show ?case
  proof cases
    case 1
    then have "wval (take (Suc m) (bw a)) < wval (take (Suc m) (bw b))"
      unfolding w by (intro column_less wval_take_less) (simp add: word_less_nat_alt)
    with 1 r show ?thesis by (simp add: less_not_sym)
  next
    case 2
    then have "wval (take (Suc m) (bw b)) < wval (take (Suc m) (bw a))"
      unfolding w by (intro column_less wval_take_less) (simp add: word_less_nat_alt)
    with 2 r show ?thesis by simp
  next
    case 3
    with Suc r w show ?thesis by simp
  qed
qed simp

lemma mr_compare_big_eq:
  assumes "bigs s x = Some a" "bigs s y = Some b" "big_ok n a" "big_ok n b"
  shows "mr_compare_big x y s = Some (sgn (big_val a - big_val b))"
proof -
  have sg: "mneg a \<longleftrightarrow> big_val a < 0" "mneg b \<longleftrightarrow> big_val b < 0" using assms by (simp_all add: mneg_val)
  have lens: "get_len x s = Some (blen a)" "get_len y s = Some (blen b)" using assms by (simp_all add: get_len_some)
  note u = mr_compare_big_def lens mneg_same and_MSBIT_0 mneg_bit [symmetric] PLUS_def MINUS_def
  consider "x = y" | "x \<noteq> y" "mneg a \<noteq> mneg b" | "x \<noteq> y" "mneg a = mneg b" "mlen a < mlen b"
    | "x \<noteq> y" "mneg a = mneg b" "mlen b < mlen a" | "x \<noteq> y" "mneg a = mneg b" "mlen a = mlen b" by force
  then show ?thesis
  proof cases
    case 1
    with assms show ?thesis by (simp add: mr_compare_big_def)
  next
    case 2
    with sg show ?thesis by (auto simp: u)
  next
    case 3
    with mlen_less_val [OF assms(3,4)] show ?thesis by (simp add: u mlen_def [symmetric] big_val_def)
  next
    case 4
    with mlen_less_val [OF assms(4,3)] show ?thesis by (simp add: u mlen_def [symmetric] big_val_def)
  next
    case 5
    with compare_loop_eq [OF assms(1,2), of "mlen a"] big_ok_len(2) [OF assms(3)] big_ok_take [OF assms(3)] big_ok_take [OF assms(4)] assms
    show ?thesis by (simp add: u mlen_def [symmetric] big_val_def big_ok_len sgn_if)
  qed
qed

subsection \<open>The normal form\<close>

lemma big_ok_sign:
  assumes "big_ok n b" "mlen (b\<lparr>blen := l\<rparr>) = mlen b" "mlen b = 0 \<Longrightarrow> l = 0"
  shows "big_ok n (b\<lparr>blen := l\<rparr>)"
  using assms by (auto simp: big_ok_def)

text \<open>Two numbers in this form with the same value are the same.\<close>

lemma wval_inj: "length us = length vs \<Longrightarrow> wval us = wval vs \<Longrightarrow> us = vs"
proof (induction us vs rule: list_induct2)
  case (Cons u us v vs)
  then have "(unat u + base * wval us) mod base = (unat v + base * wval vs) mod base"
    "(unat u + base * wval us) div base = (unat v + base * wval vs) div base" by simp_all
  then have "unat u = unat v" "wval us = wval vs" by simp_all
  with Cons.IH show ?case by (simp add: word_unat_eq_iff)
qed simp

lemma big_ok_unique:
  assumes "big_ok n a" "big_ok n b" "big_val a = big_val b"
  shows "a = b"
proof -
  have "wval (bw a) = wval (bw b)" using assms(3) by (metis abs_big_val of_nat_eq_iff)
  with wval_inj have ws: "bw a = bw b" using assms(1,2) by (simp add: big_ok_len)
  have sg: "mneg a = mneg b" using assms by (simp add: mneg_val)
  have "\<not> mlen a < mlen b" "\<not> mlen b < mlen a"
    using mlen_less_val [of n a b] mlen_less_val [of n b a] assms ws by auto
  then have "mlen a = mlen b" by simp
  then have "unat (take_bit 31 (blen a)) = unat (take_bit 31 (blen b))" unfolding mlen_bits .
  then have "take_bit 31 (blen a) = take_bit 31 (blen b)" by (simp only: word_unat_eq_iff)
  then have "bit (blen a) i = bit (blen b) i" if "i < 31" for i
    using that by (metis bit_take_bit_iff)
  moreover have "bit (blen a) 31 = bit (blen b) 31" using sg by (simp add: mneg_bit)
  ultimately have "blen a = blen b"
    by (intro bit_word_eqI) (simp add: less_Suc_eq [of _ 31, simplified], blast)
  with ws show ?thesis by (cases a, cases b) simp
qed

lemma lzero_loop_ok:
  assumes "bigs s x = Some b" "m \<le> length (bw b)"
  shows "\<exists>k. lzero_loop x m s = Some k \<and> k \<le> m \<and> (\<forall>i. k \<le> i \<longrightarrow> i < m \<longrightarrow> bw b ! i = 0) \<and>
    (0 < k \<longrightarrow> bw b ! (k - 1) \<noteq> 0)"
  using assms(2)
proof (induction m)
  case (Suc m)
  show ?case
  proof (cases "bw b ! m = 0")
    case True
    obtain k where "lzero_loop x m s = Some k" "k \<le> m" "\<forall>i. k \<le> i \<longrightarrow> i < m \<longrightarrow> bw b ! i = 0"
      "0 < k \<longrightarrow> bw b ! (k - 1) \<noteq> 0" using Suc by auto
    with True Suc.prems assms(1) show ?thesis by (intro exI [of _ k]) (auto simp: rd_some less_Suc_eq)
  next
    case False
    with Suc.prems assms(1) show ?thesis by (auto simp: rd_some)
  qed
qed simp

lemma drop_zero_nth: "(\<forall>v \<in> set (drop k ws). v = 0) \<longleftrightarrow> (\<forall>i. k \<le> i \<longrightarrow> i < length ws \<longrightarrow> ws ! i = (0 :: u32))"
proof
  assume z: "\<forall>v \<in> set (drop k ws). v = 0"
  show "\<forall>i. k \<le> i \<longrightarrow> i < length ws \<longrightarrow> ws ! i = 0"
  proof (intro allI impI)
    fix i assume "k \<le> i" "i < length ws"
    then have "drop k ws ! (i - k) \<in> set (drop k ws)" by (intro nth_mem) simp
    with z \<open>k \<le> i\<close> \<open>i < length ws\<close> show "ws ! i = 0" by simp
  qed
qed (simp add: all_set_conv_all_nth)

lemma mr_lzero_ok:
  assumes "bigs s x = Some b" "length (bw b) = n" "mlen b \<le> n" "n < 2 ^ 31"
    and "\<forall>v \<in> set (drop (mlen b) (bw b)). v = 0"
  shows "\<exists>c. mr_lzero x s = Some (store_big x c s) \<and> bw c = bw b \<and> big_ok n c \<and> big_val c = big_val b"
proof -
  obtain k where k: "lzero_loop x (mlen b) s = Some k" "k \<le> mlen b"
      "\<forall>i. k \<le> i \<longrightarrow> i < mlen b \<longrightarrow> bw b ! i = 0" "0 < k \<Longrightarrow> bw b ! (k - 1) \<noteq> 0"
    using lzero_loop_ok [OF assms(1), of "mlen b"] assms(2,3) by auto
  have k31: "k < 2 ^ 31" using k(2) assms(3,4) by linarith
  define l where "l = (if 0 < k \<and> mneg b then of_nat k OR MR_MSBIT else of_nat k :: u32)"
  define c where "c = b\<lparr>blen := l\<rparr>"
  have mk: "mlen c = k" "mneg c \<longleftrightarrow> 0 < k \<and> mneg b"
    using k31 by (simp_all add: c_def l_def)
  have z: "\<forall>v \<in> set (drop k (bw b)). v = 0"
    using k(3) assms(2,5) unfolding drop_zero_nth by (meson not_le)
  have "mr_lzero x s = Some (store_big x c s)"
    using assms(1) k(1) by (auto simp: mr_lzero_def store_simps mlen_def [symmetric] and_MSBIT mneg_bit c_def l_def)
  moreover have "big_ok n c"
    using mk z k assms by (auto simp: big_ok_def c_def l_def)
  moreover have "big_val c = big_val b"
    using mk z by (cases "k = 0") (auto simp: big_val_def c_def)
  ultimately show ?thesis by (auto simp: c_def)
qed

subsection \<open>Conversion and signs\<close>

text \<open>The routine ends with \<open>x\<close> in normal form and of value \<open>v\<close>, and nothing else changed.\<close>

definition becomes :: "nat \<Rightarrow> nat \<Rightarrow> int \<Rightarrow> miracl \<Rightarrow> miracl option \<Rightarrow> bool" where
  "becomes n x v s r \<longleftrightarrow> (\<exists>c. r = Some (store_big x c s) \<and> big_ok n c \<and> big_val c = v)"

lemma becomesI: "r = Some (store_big x c s) \<Longrightarrow> big_ok n c \<Longrightarrow> big_val c = v \<Longrightarrow> becomes n x v s r"
  by (auto simp: becomes_def)

lemma one_word:
  assumes "v \<noteq> 0" "0 < n"
  shows "big_ok n \<lparr>blen = (if sg then 1 OR MR_MSBIT else 1), bw = v # replicate (n - 1) 0\<rparr>" (is "big_ok n ?c")
    and "big_val \<lparr>blen = (if sg then 1 OR MR_MSBIT else 1), bw = v # replicate (n - 1) 0\<rparr> = (if sg then - uint v else uint v)"
proof -
  let ?d = "?c\<lparr>blen := of_nat 1\<rparr>"
  have "mlen ?d = 1" "\<not> mneg ?d" using mlen_of_nat [of 1 ?c] mneg_of_nat [of 1 ?c] by simp_all
  then have m: "mlen ?c = 1" "mneg ?c \<longleftrightarrow> sg"
    using mlen_sign(1) [where b = "?d" and l = 1] mneg_sign(1) [where b = "?d" and l = 1] by simp_all
  show "big_ok n ?c" unfolding big_ok_def m using assms by simp
  show "big_val ?c = (if sg then - uint v else uint v)" unfolding big_val_def m by simp
qed

lemma uconvert_ok:
  assumes "bigs s x = Some b" "big_ok n b" "x \<noteq> NULL" "0 < n"
  shows "becomes n x (uint v) s (uconvert v x s)"
proof (cases "v = 0")
  case True
  with assms show ?thesis by (auto simp: uconvert_def mr_zero_eq becomes_def)
next
  case False
  then have "uconvert v x s = Some (store_big x \<lparr>blen = 1, bw = v # replicate (n - 1) 0\<rparr> s)"
    using assms by (cases n) (simp_all add: uconvert_def mr_zero_eq store_simps big_zero_def)
  with one_word [OF False assms(4), of False] show ?thesis by (auto intro: becomesI)
qed

lemma convert_ok:
  assumes "bigs s x = Some b" "big_ok n b" "x \<noteq> NULL" "0 < n" "- (2 ^ 31) \<le> k" "k < 2 ^ 31"
  shows "becomes n x k s (mr_convert k x s)"
proof (cases "k = 0")
  case True
  with assms show ?thesis by (auto simp: mr_convert_def mr_zero_eq becomes_def)
next
  case False
  define v where "v = (word_of_int \<bar>k\<bar> :: u32)"
  have u: "uint v = \<bar>k\<bar>" using assms(5,6) by (simp add: v_def uint_word_of_int)
  then have v: "v \<noteq> 0" using False by auto
  then have "uconvert v x s = Some (store_big x \<lparr>blen = 1, bw = v # replicate (n - 1) 0\<rparr> s)"
    using assms by (cases n) (simp_all add: uconvert_def mr_zero_eq store_simps big_zero_def)
  moreover have "(if k < 0 then - k else k) = \<bar>k\<bar>" by simp
  ultimately have "mr_convert k x s =
      Some (store_big x \<lparr>blen = (if k < 0 then 1 OR MR_MSBIT else 1), bw = v # replicate (n - 1) 0\<rparr> s)"
    using False assms by (simp add: mr_convert_def store_simps v_def)
  with one_word [OF v assms(4), of "k < 0"] u show ?thesis by (auto intro!: becomesI)
qed

lemma exsign_eq: "bigs s x = Some b \<Longrightarrow> exsign x s = Some (if mneg b then MINUS else PLUS)"
  by (simp add: exsign_def get_len_some mneg_def)

lemma big_ok_flip: "big_ok n b \<Longrightarrow> blen b \<noteq> 0 \<Longrightarrow> big_ok n (b\<lparr>blen := blen b XOR MR_MSBIT\<rparr>)"
  using mlen_sign(2) [where b = b and l = "blen b"] by (intro big_ok_sign) (auto simp: big_ok_def)

lemma big_ok_abs: "big_ok n b \<Longrightarrow> big_ok n (b\<lparr>blen := blen b AND MR_OBITS\<rparr>)"
  using mlen_sign(3) [where b = b and l = "blen b"] by (intro big_ok_sign) (auto simp: big_ok_def)

lemma big_val_flip: "big_val (b\<lparr>blen := blen b XOR MR_MSBIT\<rparr>) = - big_val b"
  using mneg_sign(2) [where b = b and l = "blen b"] by (simp add: big_val_def)

lemma big_val_abs: "big_val (b\<lparr>blen := blen b AND MR_OBITS\<rparr>) = \<bar>big_val b\<bar>"
  using mneg_sign(3) [where b = b and l = "blen b"] by (simp add: big_val_def)

lemma big_val_0: "big_ok n b \<Longrightarrow> blen b = 0 \<longleftrightarrow> big_val b = 0"
  using mlen_eq_0 [of n b] by (auto simp: big_val_def big_ok_def mlen_def split: if_splits)

lemma negify_ok:
  assumes "bigs s x = Some a" "bigs s y = Some b" "big_ok n a" "big_ok n b" "x \<noteq> NULL" "y \<noteq> NULL"
  shows "becomes n y (- big_val a) s (negify x y s)"
proof (cases "blen a = 0")
  case True
  with assms show ?thesis by (auto simp: negify_def mr_copy_eq [OF assms] store_simps big_val_0 intro!: becomesI)
next
  case False
  with assms big_ok_flip [OF assms(3)] show ?thesis
    by (auto simp: negify_def mr_copy_eq [OF assms] store_simps big_val_flip intro!: becomesI)
qed

lemma absol_ok:
  assumes "bigs s x = Some a" "bigs s y = Some b" "big_ok n a" "big_ok n b" "x \<noteq> NULL" "y \<noteq> NULL"
  shows "becomes n y \<bar>big_val a\<bar> s (absol x y s)"
  using assms big_ok_abs [OF assms(3)]
  by (auto simp: absol_def mr_copy_eq [OF assms] store_simps big_val_abs intro!: becomesI)

lemma insign_ok:
  assumes "bigs s x = Some a" "big_ok n a"
  shows "becomes n x (if sg < 0 then - \<bar>big_val a\<bar> else \<bar>big_val a\<bar>) s (insign sg x s)"
proof (cases "blen a = 0")
  case True
  with assms show ?thesis by (auto simp: insign_def store_simps big_val_0 store_big_same intro!: becomesI)
next
  case False
  then have "mlen a \<noteq> 0" using assms(2) unfolding big_ok_def by presburger
  then have "big_ok n (a\<lparr>blen := blen a OR MR_MSBIT\<rparr>)"
    using assms(2) mlen_sign(1) [where b = a and l = "blen a"] by (intro big_ok_sign) auto
  moreover have "big_val (a\<lparr>blen := blen a OR MR_MSBIT\<rparr>) = - \<bar>big_val a\<bar>"
    using mneg_sign(1) [where b = a and l = "blen a"] by (simp add: big_val_def)
  ultimately show ?thesis
    using False assms big_ok_abs [OF assms(2)] by (auto simp: insign_def store_simps big_val_abs intro!: becomesI)
qed

lemma mr_size_eq:
  assumes "bigs s x = Some a" "big_ok n a" "x \<noteq> NULL"
  shows "mr_size x s = Some (sgn (big_val a) * min \<bar>big_val a\<bar> (2 ^ 30))"
proof (cases "mlen a = 0")
  case True
  then have "blen a = 0" using assms by (auto simp: big_ok_def)
  with assms show ?thesis using big_val_0 [OF assms(2)] by (simp add: mr_size_def store_simps)
next
  case False
  have l: "blen a AND MR_OBITS \<noteq> 0" "blen a AND MR_OBITS = 1 \<longleftrightarrow> mlen a = 1"
    using False by (auto simp: mlen_def word_unat_eq_iff)
  have T: "MR_TOOBIG = 2 ^ 30" by (simp add: MR_TOOBIG_def)
  have sg: "sgn (big_val a) = (if mneg a then - 1 else 1)"
    using False mlen_eq_0 [OF assms(2)] mneg_val [OF assms(2)] by (auto simp: big_val_def sgn_if)
  show ?thesis
  proof (cases "mlen a = 1")
    case True
    then have "wval (take 1 (bw a)) = wval (bw a)" "0 < length (bw a)"
      using assms(2) big_ok_take [of n a] big_ok_len [of n a] by auto
    then have w: "wval (bw a) = unat (bw a ! 0)" by (cases "bw a") auto
    have "(if bw a ! 0 < MR_TOOBIG then uint (bw a ! 0) else uint MR_TOOBIG) = min \<bar>big_val a\<bar> (2 ^ 30)"
      by (auto simp: abs_big_val w T word_less_def min_def)
    with True l sg assms \<open>0 < length (bw a)\<close> show ?thesis
      by (simp add: mr_size_def store_simps and_MSBIT mneg_bit)
  next
    case two: False
    with False have "1 \<le> mlen a - 1" "1 \<le> base" by (simp_all add: base_def)
    then have "base ^ 1 \<le> wval (bw a)"
      using False big_ok_lower [OF assms(2)] power_increasing [of 1 "mlen a - 1" base] by linarith
    then have "min \<bar>big_val a\<bar> (2 ^ 30) = 2 ^ 30" by (simp add: abs_big_val base_def)
    with two l sg assms show ?thesis by (simp add: mr_size_def store_simps and_MSBIT mneg_bit T)
  qed
qed

subsection \<open>Shifts by words\<close>

lemma shift_up_loop:
  assumes "bigs s w = Some b" "length (bw b) = n" "k \<le> bl" "bl \<le> n"
  shows "\<exists>ws. for_down bl k (\<lambda>i s. rd w (i - k) s \<bind> (\<lambda>v. wr w i v s)) s = Some (store_big w (b\<lparr>bw := ws\<rparr>) s) \<and>
    length ws = n \<and> (\<forall>j<n. ws ! j = (if k \<le> j \<and> j < bl then bw b ! (j - k) else bw b ! j))"
proof -
  define P where "P i t \<longleftrightarrow> (\<exists>ws. t = store_big w (b\<lparr>bw := ws\<rparr>) s \<and> length ws = n \<and>
    (\<forall>j<n. ws ! j = (if i \<le> j \<and> j < bl then bw b ! (j - k) else bw b ! j)))" for i t
  have "\<exists>t. for_down bl k (\<lambda>i s. rd w (i - k) s \<bind> (\<lambda>v. wr w i v s)) s = Some t \<and> P k t"
  proof (rule for_down_inv)
    show "P bl s" using assms unfolding P_def by (intro exI [of _ "bw b"]) (auto simp: store_big_same)
    fix j t assume j: "k \<le> j" "j < bl" "P (Suc j) t"
    then obtain ws where ws: "t = store_big w (b\<lparr>bw := ws\<rparr>) s" "length ws = n"
      "\<forall>j'<n. ws ! j' = (if Suc j \<le> j' \<and> j' < bl then bw b ! (j' - k) else bw b ! j')"
      unfolding P_def by blast
    have "ws ! (j - k) = bw b ! (j - k)" using ws(3) j assms by auto
    then have "rd w (j - k) t \<bind> (\<lambda>v. wr w j v t) = Some (store_big w (b\<lparr>bw := ws[j := bw b ! (j - k)]\<rparr>) s)"
      using ws(1,2) j assms by (simp add: store_simps)
    moreover have "P j (store_big w (b\<lparr>bw := ws[j := bw b ! (j - k)]\<rparr>) s)"
      unfolding P_def using ws(2,3) j assms
      by (intro exI [of _ "ws[j := bw b ! (j - k)]"]) (simp add: nth_list_update)
    ultimately show "\<exists>u. rd w (j - k) t \<bind> (\<lambda>v. wr w j v t) = Some u \<and> P j u" by blast
  qed fact
  then show ?thesis unfolding P_def by blast
qed

lemma shift_down_loop:
  assumes "bigs s w = Some b" "length (bw b) = n" "bl + k \<le> n"
  shows "\<exists>ws. for_up 0 bl (\<lambda>i s. rd w (i + k) s \<bind> (\<lambda>v. wr w i v s)) s = Some (store_big w (b\<lparr>bw := ws\<rparr>) s) \<and>
    length ws = n \<and> (\<forall>j<n. ws ! j = (if j < bl then bw b ! (j + k) else bw b ! j))"
proof -
  define P where "P i t \<longleftrightarrow> (\<exists>ws. t = store_big w (b\<lparr>bw := ws\<rparr>) s \<and> length ws = n \<and>
    (\<forall>j<n. ws ! j = (if j < i then bw b ! (j + k) else bw b ! j)))" for i t
  have "\<exists>t. for_up 0 bl (\<lambda>i s. rd w (i + k) s \<bind> (\<lambda>v. wr w i v s)) s = Some t \<and> P bl t"
  proof (rule for_up_inv)
    show "P 0 s" using assms unfolding P_def by (intro exI [of _ "bw b"]) (simp add: store_big_same)
    fix j t assume j: "0 \<le> j" "j < bl" "P j t"
    then obtain ws where ws: "t = store_big w (b\<lparr>bw := ws\<rparr>) s" "length ws = n"
      "\<forall>j'<n. ws ! j' = (if j' < j then bw b ! (j' + k) else bw b ! j')"
      unfolding P_def by blast
    have "ws ! (j + k) = bw b ! (j + k)" using ws(3) j assms by simp
    then have "rd w (j + k) t \<bind> (\<lambda>v. wr w j v t) = Some (store_big w (b\<lparr>bw := ws[j := bw b ! (j + k)]\<rparr>) s)"
      using ws(1,2) j assms by (simp add: store_simps)
    moreover have "P (Suc j) (store_big w (b\<lparr>bw := ws[j := bw b ! (j + k)]\<rparr>) s)"
      unfolding P_def using ws(2,3) j assms
      by (intro exI [of _ "ws[j := bw b ! (j + k)]"]) (auto simp: nth_list_update less_Suc_eq)
    ultimately show "\<exists>u. rd w (j + k) t \<bind> (\<lambda>v. wr w j v t) = Some u \<and> P (Suc j) u" by blast
  qed simp
  then show ?thesis unfolding P_def by blast
qed

lemma clear_at_loop:
  assumes "bigs s w = Some b" "length (bw b) = n" "bl + k \<le> n"
  shows "for_up 0 k (\<lambda>i. wr w (bl + i) 0) s =
    Some (store_big w (b\<lparr>bw := take bl (bw b) @ replicate k 0 @ drop (bl + k) (bw b)\<rparr>) s)"
proof -
  define st where "st j = store_big w (b\<lparr>bw := (take bl (bw b) @ replicate j 0) @ drop (bl + j) (bw b)\<rparr>) s" for j
  have "\<exists>t. for_up 0 k (\<lambda>i. wr w (bl + i) 0) s = Some t \<and> t = st k"
  proof (rule for_up_inv)
    show "s = st 0" using assms by (simp add: st_def store_big_same)
    fix j t assume j: "0 \<le> j" "j < k" "t = st j"
    have "((take bl (bw b) @ replicate j 0) @ drop (bl + j) (bw b))[bl + j := 0] =
      (take bl (bw b) @ replicate (Suc j) 0) @ drop (bl + Suc j) (bw b)"
      using fold_at [of "bl + j" "bw b" "take bl (bw b) @ replicate j 0" 0] j assms
      by (simp add: replicate_append_same)
    then show "\<exists>u. wr w (bl + j) 0 t = Some u \<and> u = st (Suc j)"
      using j assms by (simp add: st_def wr_store_big [where b = "b\<lparr>bw := _\<rparr>"])
  qed simp
  then show ?thesis by (simp add: st_def)
qed

lemma rebuild: "a\<lparr>bw := v, blen := l\<rparr> = \<lparr>blen = l, bw = v\<rparr>"
  by (cases a) simp

lemma signed_len:
  assumes "m < 2 ^ 31"
  shows "mlen (b\<lparr>blen := of_nat m OR (blen a AND MR_MSBIT)\<rparr>) = m"
    and "mneg (b\<lparr>blen := of_nat m OR (blen a AND MR_MSBIT)\<rparr>) \<longleftrightarrow> mneg a"
  using assms mlen_of_nat [of m b] mneg_of_nat [of m b] by (auto simp: and_MSBIT mneg_bit [of a])

lemma big_ok_words:
  assumes "length ws = n" "m \<le> n" "n < 2 ^ 31" "drop m ws = replicate (n - m) 0" "0 < m" "ws ! (m - 1) \<noteq> 0"
  shows "big_ok n \<lparr>blen = of_nat m OR (blen a AND MR_MSBIT), bw = ws\<rparr>"
    and "big_val \<lparr>blen = of_nat m OR (blen a AND MR_MSBIT), bw = ws\<rparr> =
         (if mneg a then - int (wval ws) else int (wval ws))"
proof -
  let ?c = "\<lparr>blen = of_nat m OR (blen a AND MR_MSBIT), bw = ws\<rparr>"
  have "mlen ?c = m" "mneg ?c = mneg a"
    using signed_len [where m = m and b = ?c and a = a] assms(2,3) by simp_all
  then show "big_ok n ?c" "big_val ?c = (if mneg a then - int (wval ws) else int (wval ws))"
    using assms by (simp_all add: big_ok_def big_val_def)
qed

lemma wval_shift_up: "drop (n - k) ws = replicate k 0 \<Longrightarrow> length ws = n \<Longrightarrow> k \<le> n \<Longrightarrow>
    wval (replicate k 0 @ take (n - k) ws) = base ^ k * wval ws"
  using wval_split [of "n - k" ws] by (simp add: wval_append)

lemma wval_shift_down: "k \<le> length ws \<Longrightarrow> wval (drop k ws @ replicate k 0) = wval ws div base ^ k"
  using wval_split [of k ws] wval_take_less [of k ws] by (simp add: wval_append)

lemma mr_shift_up:
  assumes "bigs s x = Some a" "bigs s w = Some b" "big_ok n a" "big_ok n b" "x \<noteq> NULL" "w \<noteq> NULL"
    and "ERNUM s = 0" "nib s = int n" "n < 2 ^ 31" "0 < k" "mlen a + k \<le> n"
  shows "becomes n w (big_val a * int (base ^ k)) s (mr_shift x (int k) w s)"
proof (cases "blen a = 0")
  case True
  with assms show ?thesis
    using big_val_0 [OF assms(3)] by (auto simp: mr_shift_def mr_copy_eq [OF assms(1-6)] store_simps intro!: becomesI)
next
  case False
  let ?m = "mlen a" and ?s = "store_big w a s"
  have m: "0 < ?m" "bw a ! (?m - 1) \<noteq> 0" "length (bw a) = n" "?m \<le> n"
    using False assms(3) by (auto simp: big_ok_def split: if_splits)
  obtain ws where l: "for_down (?m + k) k (\<lambda>i s. rd w (i - k) s \<bind> (\<lambda>v. wr w i v s)) ?s = Some (store_big w (a\<lparr>bw := ws\<rparr>) ?s)"
    and ws: "length ws = n" "\<forall>j<n. ws ! j = (if k \<le> j \<and> j < ?m + k then bw a ! (j - k) else bw a ! j)"
    using shift_up_loop [of ?s w a n k "?m + k"] assms m by auto
  have z: "drop (n - k) (bw a) = replicate k 0" "\<And>j. ?m \<le> j \<Longrightarrow> j < n \<Longrightarrow> bw a ! j = 0"
    using assms(3,11) big_ok_drop [of n a "n - k"] m(3) drop_zero_nth [of ?m "bw a"] by (auto simp: big_ok_def)
  have "drop k ws = take (n - k) (bw a)"
    using ws m assms(11) by (intro nth_equalityI) (auto simp: z(2))
  then have c: "for_up 0 k (\<lambda>i. wr w i 0) (store_big w (a\<lparr>bw := ws\<rparr>) s) =
      Some (store_big w (a\<lparr>bw := replicate k 0 @ take (n - k) (bw a)\<rparr>) s)"
    using clear_loop [of "store_big w (a\<lparr>bw := ws\<rparr>) s" w "a\<lparr>bw := ws\<rparr>" 0 k] ws(1) assms(11) by simp
  define v where "v = replicate k 0 @ take (n - k) (bw a)"
  define d where "d = \<lparr>blen = of_nat (?m + k) OR (blen a AND MR_MSBIT), bw = v\<rparr>"
  have bl: "uint (blen a AND MR_OBITS) + int k = int (?m + k)" by (simp add: mlen_def)
  have r: "mr_shift x (int k) w s = Some (store_big w d s)"
    using False assms l c
    by (simp add: mr_shift_def mr_copy_eq [OF assms(1-6)] store_simps bl v_def d_def rebuild Let_def del: of_nat_add)
  have v: "length v = n" "drop (?m + k) v = replicate (n - (?m + k)) 0" "v ! (?m + k - 1) \<noteq> 0"
    "wval v = base ^ k * wval (bw a)"
    using m assms(11) z big_ok_drop [OF assms(3), of ?m] wval_shift_up [of n k "bw a"]
    by (auto simp: v_def nth_append drop_take)
  have "big_ok n d" "big_val d = big_val a * int (base ^ k)"
    using big_ok_words [OF v(1) assms(11,9) v(2) _ v(3), of a] m(1) v(4) by (auto simp: d_def big_val_def)
  with r show ?thesis by (rule becomesI)
qed

lemma mr_shift_down:
  assumes "bigs s x = Some a" "bigs s w = Some b" "big_ok n a" "big_ok n b" "x \<noteq> NULL" "w \<noteq> NULL"
    and "ERNUM s = 0" "nib s = int n" "n < 2 ^ 31" "0 < k"
  shows "becomes n w (cdiv (big_val a) (int (base ^ k))) s (mr_shift x (- int k) w s)"
proof -
  let ?m = "mlen a" and ?s = "store_big w a s"
  note copied = mr_copy_eq [OF assms(1-6)]
  have q: "cdiv (big_val a) (int (base ^ k)) = (if mneg a then - int (wval (bw a) div base ^ k) else int (wval (bw a) div base ^ k))"
    using mneg_val [OF assms(3)] by (auto simp: cdiv_def big_val_def sgn_if zdiv_int simp del: wval_eq_0)
  consider "blen a = 0" | "blen a \<noteq> 0" "?m \<le> k" | "blen a \<noteq> 0" "k < ?m" by linarith
  then show ?thesis
  proof cases
    case 1
    with assms show ?thesis
      using big_val_0 [OF assms(3)] by (auto simp: mr_shift_def copied store_simps cdiv_def intro!: becomesI)
  next
    case 2
    have "wval (bw a) < base ^ k"
      using big_ok_upper [OF assms(3)] power_increasing [OF 2(2), of base] base_pos by linarith
    moreover have "uint (blen a AND MR_OBITS) \<le> int k" using 2(2) by (metis mlen_def of_nat_mono of_nat_unat)
    then have "mr_shift x (- int k) w s = Some (store_big w (big_zero n) s)"
      using 2 assms by (simp add: mr_shift_def copied store_simps Let_def mr_zero_eq [where b = a])
    ultimately show ?thesis using q by (auto intro!: becomesI)
  next
    case 3
    have m: "bw a ! (?m - 1) \<noteq> 0" "length (bw a) = n" "?m \<le> n"
      using 3 assms(3) by (auto simp: big_ok_def split: if_splits)
    obtain ws where l: "for_up 0 (?m - k) (\<lambda>i s. rd w (i + k) s \<bind> (\<lambda>v. wr w i v s)) ?s = Some (store_big w (a\<lparr>bw := ws\<rparr>) ?s)"
      and ws: "length ws = n" "\<forall>j<n. ws ! j = (if j < ?m - k then bw a ! (j + k) else bw a ! j)"
      using shift_down_loop [of ?s w a n "?m - k" k] 3 m by auto
    have z: "\<And>j. ?m \<le> j \<Longrightarrow> j < n \<Longrightarrow> bw a ! j = 0"
      using assms(3) m(2) drop_zero_nth [of ?m "bw a"] by (auto simp: big_ok_def)
    have "take (?m - k) ws @ replicate k 0 @ drop (?m - k + k) ws = drop k (bw a) @ replicate k 0"
      using ws m 3 z by (intro nth_equalityI) (auto simp: nth_append add.commute [of _ k])
    then have c: "for_up 0 k (\<lambda>i. wr w (?m - k + i) 0) (store_big w (a\<lparr>bw := ws\<rparr>) s) =
        Some (store_big w (a\<lparr>bw := drop k (bw a) @ replicate k 0\<rparr>) s)"
      using clear_at_loop [of "store_big w (a\<lparr>bw := ws\<rparr>) s" w "a\<lparr>bw := ws\<rparr>" n "?m - k" k] ws(1) 3 m by simp
    define v where "v = drop k (bw a) @ replicate k 0"
    define d where "d = \<lparr>blen = of_nat (?m - k) OR (blen a AND MR_MSBIT), bw = v\<rparr>"
    have bl: "uint (blen a AND MR_OBITS) - int k = int (?m - k)" using 3 by (simp add: mlen_def)
    have le: "\<not> n < ?m - k" using m(3) by linarith
    have r: "mr_shift x (- int k) w s = Some (store_big w d s)"
      using 3 assms m l c le
      by (simp add: mr_shift_def copied store_simps bl v_def d_def rebuild Let_def del: of_nat_diff)
    have v: "length v = n" "?m - k \<le> n" "drop (?m - k) v = replicate (n - (?m - k)) 0" "v ! (?m - k - 1) \<noteq> 0"
      "wval v = wval (bw a) div base ^ k"
      using m 3 big_ok_drop [OF assms(3), of ?m] wval_shift_down [of k "bw a"]
      by (auto simp: v_def nth_append replicate_add [symmetric])
    have "big_ok n d" "big_val d = cdiv (big_val a) (int (base ^ k))"
      using big_ok_words [OF v(1,2) assms(9) v(3) _ v(4), of a] 3 v(5) q by (auto simp: d_def)
    with r show ?thesis by (rule becomesI)
  qed
qed

lemma mr_shift_overflow:
  assumes "bigs s x = Some a" "bigs s w = Some b" "big_ok n a" "big_ok n b" "x \<noteq> NULL" "w \<noteq> NULL"
    and "ERNUM s = 0" "nib s = int n" "ERCON s" "mr_check s" "blen a \<noteq> 0" "n < mlen a + k" "0 < k"
  shows "mr_shift x (int k) w s = Some ((store_big w a s)\<lparr>ERNUM := MR_ERR_OVERFLOW\<rparr>)"
proof -
  have bl: "uint (blen a AND MR_OBITS) + int k = int (mlen a + k)" by (simp add: mlen_def)
  show ?thesis
    using assms by (simp add: mr_shift_def mr_copy_eq [OF assms(1-6)] store_simps bl Let_def mr_berror_def MR_ERR_OVERFLOW_def del: of_nat_add)
qed

end
