(* ===== verification/Miracl_Add.thy ===== *)
theory Miracl_Add
  imports Miracl_Core
begin

text \<open>
  Addition and subtraction of MIRACL numbers, \<^verbatim>\<open>lib/gm/source/miracl/mrarth0.c\<close>. The operands and
  the result are places in the store and may be the same place. The theorems say that the
  routines add and subtract integers, that a result that does not fit is reported, and that the
  operands are as before, their signs restored.
\<close>

subsection \<open>The routines\<close>

definition padd_column :: "nat \<Rightarrow> nat \<Rightarrow> nat \<Rightarrow> nat \<Rightarrow> u32 \<times> miracl \<Rightarrow> (u32 \<times> miracl) option" where
  "padd_column x y z i = (\<lambda>(carry, s). do {
     gx \<leftarrow> rd x i s;
     gy \<leftarrow> rd y i s;
     let psum = gx + gy + carry;
     let carry = (if psum > gx then 0 else if psum < gx then 1 else carry);
     s \<leftarrow> wr z i psum s;
     Some (carry, s)
   })"

function padd_carry :: "nat \<Rightarrow> nat \<Rightarrow> nat \<Rightarrow> nat \<Rightarrow> nat \<Rightarrow> u32 \<Rightarrow> miracl \<Rightarrow> (nat \<times> u32 \<times> miracl) option" where
  "padd_carry x y z lz i carry s =
     (if i < lz \<and> carry > 0
      then padd_column x y z i (carry, s) \<bind> (\<lambda>(carry, s). padd_carry x y z lz (Suc i) carry s)
      else Some (i, carry, s))"
  by pat_completeness auto
termination by (relation "measure (\<lambda>(x, y, z, lz, i, _). lz - i)") auto

declare padd_carry.simps [simp del]

definition padd_sum :: "nat \<Rightarrow> nat \<Rightarrow> nat \<Rightarrow> int \<Rightarrow> int \<Rightarrow> miracl \<Rightarrow> miracl option" where
  "padd_sum x y z lz la s = do {
     (carry, s) \<leftarrow> for_up 0 (nat la) (padd_column x y z) (0, s);
     (i, carry, s) \<leftarrow> padd_carry x y z (nat lz) (nat la) carry s;
     if carry \<noteq> 0 \<and> mr_check s \<and> int i \<ge> nib s then Some (mr_berror MR_ERR_OVERFLOW s)
     else do {
       s \<leftarrow> (if carry \<noteq> 0 then wr z i carry s else Some s);
       l \<leftarrow> get_len z s;
       v \<leftarrow> rd z (unat (l - 1)) s;
       if v = 0 then set_len z (l - 1) s else Some s
     }
   }"

definition mr_padd :: "nat \<Rightarrow> nat \<Rightarrow> nat \<Rightarrow> miracl \<Rightarrow> miracl option" where
  "mr_padd x y z s = do {
     lx \<leftarrow> map_option sint (get_len x s);
     ly \<leftarrow> map_option sint (get_len y s);
     (lz, la, s) \<leftarrow>
       (if ly > lx
        then if x \<noteq> z then do { s \<leftarrow> mr_copy y z s; Some (ly, lx, s) } else Some (ly, ly, s)
        else if y \<noteq> z then do { s \<leftarrow> mr_copy x z s; Some (lx, ly, s) } else Some (lx, lx, s));
     s \<leftarrow> set_len z (word_of_int lz) s;
     s \<leftarrow> (if lz < nib s \<or> \<not> mr_check s then do { l \<leftarrow> get_len z s; set_len z (l + 1) s } else Some s);
     padd_sum x y z lz la s
   }"

definition psub_column :: "nat \<Rightarrow> nat \<Rightarrow> nat \<Rightarrow> nat \<Rightarrow> u32 \<Rightarrow> miracl \<Rightarrow> (u32 \<times> miracl) option" where
  "psub_column x y z i borrow s = do {
     gx \<leftarrow> rd x i s;
     gy \<leftarrow> rd y i s;
     let pdiff = gx - gy - borrow;
     let borrow = (if pdiff < gx then 0 else if pdiff > gx then 1 else borrow);
     s \<leftarrow> wr z i pdiff s;
     Some (borrow, s)
   }"

text \<open>The loop of \<open>mr_psub\<close>; the flag of the result says that the routine returned from inside it.\<close>

function psub_loop :: "nat \<Rightarrow> nat \<Rightarrow> nat \<Rightarrow> int \<Rightarrow> int \<Rightarrow> nat \<Rightarrow> u32 \<Rightarrow> miracl \<Rightarrow> (bool \<times> miracl) option" where
  "psub_loop x y z lx ly i borrow s =
     (if int i < ly \<or> borrow > 0
      then if int i > lx then Some (True, mr_berror MR_ERR_NEG_RESULT s)
           else psub_column x y z i borrow s \<bind> (\<lambda>(borrow, s). psub_loop x y z lx ly (Suc i) borrow s)
      else Some (False, s))"
  by pat_completeness auto
termination by (relation "measure (\<lambda>(x, y, z, lx, ly, i, _). nat (lx + 1 - int i))") auto

declare psub_loop.simps [simp del]

definition mr_psub :: "nat \<Rightarrow> nat \<Rightarrow> nat \<Rightarrow> miracl \<Rightarrow> miracl option" where
  "mr_psub x y z s = do {
     lx \<leftarrow> map_option sint (get_len x s);
     ly \<leftarrow> map_option sint (get_len y s);
     if ly > lx then Some (mr_berror MR_ERR_NEG_RESULT s)
     else do {
       s \<leftarrow> (if y \<noteq> z then mr_copy x z s else Some s);
       let ly = (if y \<noteq> z then ly else lx);
       s \<leftarrow> set_len z (word_of_int lx) s;
       (ret, s) \<leftarrow> psub_loop x y z lx ly 0 0 s;
       if ret then Some s else mr_lzero z s
     }
   }"

text \<open>\<open>x->len ^= MR_MSBIT\<close>.\<close>

definition flip_sign :: "nat \<Rightarrow> miracl \<Rightarrow> miracl option" where
  "flip_sign x s = do { l \<leftarrow> get_len x s; set_len x (l XOR MR_MSBIT) s }"

definition mr_select :: "nat \<Rightarrow> int \<Rightarrow> nat \<Rightarrow> nat \<Rightarrow> miracl \<Rightarrow> miracl option" where
  "mr_select x d y z s = do {
     sx \<leftarrow> exsign x s;
     sy \<leftarrow> exsign y s;
     l \<leftarrow> get_len x s;
     s \<leftarrow> set_len x (l AND MR_OBITS) s;
     l \<leftarrow> get_len y s;
     s \<leftarrow> set_len y (l AND MR_OBITS) s;
     xgty \<leftarrow> mr_compare_big x y s;
     let jf = (1 + sx) + cdiv (1 + d * sy) 2;
     (sz, s) \<leftarrow>
       (if jf = 0 then map_option (Pair MINUS) (if xgty \<ge> 0 then mr_padd x y z s else mr_padd y x z s)
        else if jf = 1 then if xgty \<le> 0 then map_option (Pair PLUS) (mr_psub y x z s)
                            else map_option (Pair MINUS) (mr_psub x y z s)
        else if jf = 2 then if xgty \<ge> 0 then map_option (Pair PLUS) (mr_psub x y z s)
                            else map_option (Pair MINUS) (mr_psub y x z s)
        else if jf = 3 then map_option (Pair PLUS) (if xgty \<ge> 0 then mr_padd x y z s else mr_padd y x z s)
        else Some (0, s));
     s \<leftarrow> (if sz < 0 then flip_sign z s else Some s);
     s \<leftarrow> (if x \<noteq> z \<and> sx < 0 then flip_sign x s else Some s);
     if y \<noteq> z \<and> y \<noteq> x \<and> sy < 0 then flip_sign y s else Some s
   }"

definition mr_add :: "nat \<Rightarrow> nat \<Rightarrow> nat \<Rightarrow> miracl \<Rightarrow> miracl option" where
  "mr_add x y z s = (if ERNUM s \<noteq> 0 then Some s else mr_select x PLUS y z s)"

definition mr_subtract :: "nat \<Rightarrow> nat \<Rightarrow> nat \<Rightarrow> miracl \<Rightarrow> miracl option" where
  "mr_subtract x y z s = (if ERNUM s \<noteq> 0 then Some s else mr_select x MINUS y z s)"

definition mr_incr :: "nat \<Rightarrow> int \<Rightarrow> nat \<Rightarrow> miracl \<Rightarrow> miracl option" where
  "mr_incr x n z s =
     (if ERNUM s \<noteq> 0 then Some s
      else do { s \<leftarrow> mr_convert n (mr_w0 s) s; mr_select x PLUS (mr_w0 s) z s })"

definition mr_decr :: "nat \<Rightarrow> int \<Rightarrow> nat \<Rightarrow> miracl \<Rightarrow> miracl option" where
  "mr_decr x n z s =
     (if ERNUM s \<noteq> 0 then Some s
      else do { s \<leftarrow> mr_convert n (mr_w0 s) s; mr_select x MINUS (mr_w0 s) z s })"

subsection \<open>Columns\<close>

lemma add_column:
  fixes u v c :: u32
  assumes "unat c \<le> 1"
  defines "p \<equiv> (u + v + c :: u32)"
  defines "c' \<equiv> (if p > u then 0 else if p < u then 1 else c)"
  shows "unat p + base * unat c' = unat u + unat v + unat c" and "unat c' \<le> 1"
proof -
  have l: "unat u < base" "unat v < base" by simp_all
  have p: "unat p = (unat u + unat v + unat c) mod base"
    by (simp add: p_def base_def unat_word_ariths mod_simps)
  have c1: "c = 0 \<or> c = 1" using assms(1) by (auto simp: le_Suc_eq word_unat_eq_iff)
  show "unat c' \<le> 1" using assms(1) by (simp add: c'_def)
  show "unat p + base * unat c' = unat u + unat v + unat c"
  proof (cases "unat u + unat v + unat c < base")
    case True
    then have "unat p = unat u + unat v + unat c" using p by simp
    with c1 show ?thesis by (auto simp: c'_def word_less_nat_alt word_unat_eq_iff)
  next
    case False
    then have "unat p = unat u + unat v + unat c - base"
      using p l assms(1) by (simp add: le_mod_geq mod_less)
    with False c1 l show ?thesis by (auto simp: c'_def word_less_nat_alt word_unat_eq_iff simp del: unat_less_base)
  qed
qed

lemma sub_column:
  fixes u v c :: u32
  assumes "unat c \<le> 1"
  defines "p \<equiv> (u - v - c :: u32)"
  defines "c' \<equiv> (if p < u then 0 else if p > u then 1 else c)"
  shows "unat p + unat v + unat c = unat u + base * unat c'" and "unat c' \<le> 1"
proof -
  have c1: "c = 0 \<or> c = 1" using assms(1) by (auto simp: le_Suc_eq word_unat_eq_iff)
  have u: "p + v + c = u" by (simp add: p_def)
  have l: "unat p < base" "unat u < base" "unat v < base" by simp_all
  have m: "unat u = (unat p + unat v + unat c) mod base"
    unfolding u [symmetric] by (simp add: base_def unat_word_ariths mod_simps)
  show "unat c' \<le> 1" using assms(1) by (simp add: c'_def)
  show "unat p + unat v + unat c = unat u + base * unat c'"
  proof (cases "unat p + unat v + unat c < base")
    case True
    then have "unat u = unat p + unat v + unat c" using m by simp
    with c1 show ?thesis by (auto simp: c'_def word_less_nat_alt word_unat_eq_iff)
  next
    case False
    then have "unat u = unat p + unat v + unat c - base"
      using m l assms(1) by (simp add: le_mod_geq mod_less)
    with False c1 l show ?thesis by (auto simp: c'_def word_less_nat_alt word_unat_eq_iff simp del: unat_less_base)
  qed
qed

subsection \<open>Sums\<close>

text \<open>
  After \<open>i\<close> columns: the words below \<open>i\<close> of the result and the carry are the sum of the words
  below \<open>i\<close> of the operands as they were; the words from \<open>i\<close> on are untouched.
\<close>

definition padd_upto :: "nat \<Rightarrow> bigtype \<Rightarrow> bigtype \<Rightarrow> bigtype \<Rightarrow> nat \<Rightarrow> miracl \<Rightarrow> nat \<Rightarrow> u32 \<times> miracl \<Rightarrow> bool" where
  "padd_upto n a b c z s i = (\<lambda>(carry, t). unat carry \<le> 1 \<and>
     (\<exists>ws. t = store_big z (c\<lparr>bw := ws\<rparr>) s \<and> length ws = n \<and> drop i ws = drop i (bw c) \<and>
       wval (take i ws) + base ^ i * unat carry = wval (take i (bw a)) + wval (take i (bw b))))"

lemma padd_column_upto:
  assumes "bigs s x = Some a" "bigs s y = Some b" "bigs s z = Some c"
    and "length (bw a) = n" "length (bw b) = n" "i < n" "padd_upto n a b c z s i r"
  shows "\<exists>r'. padd_column x y z i r = Some r' \<and> padd_upto n a b c z s (Suc i) r'"
proof -
  obtain carry t where r: "r = (carry, t)" by force
  from assms(7) obtain ws where ws: "unat carry \<le> 1" "t = store_big z (c\<lparr>bw := ws\<rparr>) s" "length ws = n"
    "drop i ws = drop i (bw c)"
    "wval (take i ws) + base ^ i * unat carry = wval (take i (bw a)) + wval (take i (bw b))"
    by (auto simp: padd_upto_def r)
  have "ws ! i = bw c ! i"
    using ws(3,4) assms(6) by (metis hd_drop_conv_nth length_drop less_le_not_le drop_eq_Nil2 linorder_not_less)
  then have rds: "rd x i t = Some (bw a ! i)" "rd y i t = Some (bw b ! i)"
    using assms ws(2,3) by (auto simp: rd_def)
  define p where "p = bw a ! i + bw b ! i + carry"
  define c' where "c' = (if p > bw a ! i then 0 else if p < bw a ! i then 1 else carry)"
  have col: "unat p + base * unat c' = unat (bw a ! i) + unat (bw b ! i) + unat carry" "unat c' \<le> 1"
    unfolding p_def c'_def by (rule add_column [OF ws(1)])+
  have "wval (take (Suc i) (ws[i := p])) + base ^ Suc i * unat c' = wval (take i ws) + base ^ i * (unat p + base * unat c')"
    using ws(3) assms(6) by (simp add: wval_take_Suc algebra_simps)
  also have "\<dots> = (wval (take i ws) + base ^ i * unat carry) + base ^ i * (unat (bw a ! i) + unat (bw b ! i))"
    unfolding col(1) by (simp add: algebra_simps)
  also have "\<dots> = wval (take (Suc i) (bw a)) + wval (take (Suc i) (bw b))"
    unfolding ws(5) using assms(4-6) by (simp add: wval_take_Suc algebra_simps)
  finally have sum: "wval (take (Suc i) (ws[i := p])) + base ^ Suc i * unat c' =
    wval (take (Suc i) (bw a)) + wval (take (Suc i) (bw b))" .
  have "drop (Suc i) (ws[i := p]) = drop (Suc i) (bw c)"
    using ws(4) by (metis drop_Suc drop_update_cancel lessI tl_drop)
  moreover have "padd_column x y z i r = Some (c', store_big z (c\<lparr>bw := ws[i := p]\<rparr>) s)"
    using rds ws(2,3) assms(6)
    by (simp add: padd_column_def r p_def c'_def Let_def wr_store_big [where b = "c\<lparr>bw := ws\<rparr>"])
  ultimately show ?thesis using sum col(2) ws(3) by (auto simp: padd_upto_def)
qed

lemma padd_carry_upto:
  assumes "bigs s x = Some a" "bigs s y = Some b" "bigs s z = Some c"
    and "length (bw a) = n" "length (bw b) = n" "lz \<le> n"
  shows "i \<le> lz \<Longrightarrow> padd_upto n a b c z s i (carry, t) \<Longrightarrow>
    \<exists>j carry' t'. padd_carry x y z lz i carry t = Some (j, carry', t') \<and> padd_upto n a b c z s j (carry', t') \<and>
      i \<le> j \<and> j \<le> lz \<and> (j = lz \<or> carry' = 0)"
proof (induction "lz - i" arbitrary: i carry t)
  case 0
  then show ?case by (subst padd_carry.simps) auto
next
  case (Suc k)
  show ?case
  proof (cases "carry > 0")
    case True
    from Suc.hyps(2) have i: "i < lz" by linarith
    obtain c1 t1 where c1: "padd_column x y z i (carry, t) = Some (c1, t1)" "padd_upto n a b c z s (Suc i) (c1, t1)"
      using padd_column_upto [OF assms(1-5) _ Suc.prems(2)] i assms(6) by force
    from Suc.hyps(1) [OF _ _ c1(2)] Suc.hyps(2) i obtain j c2 t2 where
      "padd_carry x y z lz (Suc i) c1 t1 = Some (j, c2, t2)" "padd_upto n a b c z s j (c2, t2)"
      "Suc i \<le> j" "j \<le> lz" "j = lz \<or> c2 = 0" by fastforce
    with True i c1(1) show ?thesis by (subst padd_carry.simps) auto
  next
    case False
    with Suc.prems show ?thesis by (subst padd_carry.simps) (auto simp: word_gt_0)
  qed
qed

text \<open>The two loops, when the words of the result start as the sum of the words they skip.\<close>

lemma padd_loops:
  assumes "bigs s x = Some a" "bigs s y = Some b" "bigs s z = Some c"
    and "length (bw a) = n" "length (bw b) = n" "length (bw c) = n" "la \<le> lz" "lz \<le> n"
    and skip: "\<And>e. la \<le> e \<Longrightarrow> wval (drop e (bw c)) = wval (drop e (bw a)) + wval (drop e (bw b))"
  shows "\<exists>r i carry ws. for_up 0 la (padd_column x y z) (0, s) = Some r \<and>
    padd_carry x y z lz la (fst r) (snd r) = Some (i, carry, store_big z (c\<lparr>bw := ws\<rparr>) s) \<and>
    length ws = n \<and> i \<le> lz \<and> (carry = 0 \<or> carry = 1 \<and> i = lz) \<and> drop i ws = drop i (bw c) \<and>
    wval ws + base ^ i * unat carry = wval (bw a) + wval (bw b)"
proof -
  have "padd_upto n a b c z s 0 (0, s)"
    using assms(3,6) by (auto simp: padd_upto_def store_big_same intro!: exI [of _ "bw c"])
  then have "\<exists>r. for_up 0 la (padd_column x y z) (0, s) = Some r \<and> padd_upto n a b c z s la r"
    using padd_column_upto [OF assms(1-5)] assms(7,8) by (intro for_up_inv) auto
  then obtain r where r: "for_up 0 la (padd_column x y z) (0, s) = Some r"
    "padd_upto n a b c z s la (fst r, snd r)" by auto
  from padd_carry_upto [OF assms(1-5,8,7) r(2)] obtain i carry t where
    i: "padd_carry x y z lz la (fst r) (snd r) = Some (i, carry, t)" "padd_upto n a b c z s i (carry, t)"
       "la \<le> i" "i \<le> lz" "i = lz \<or> carry = 0" by blast
  then obtain ws where ws: "unat carry \<le> 1" "t = store_big z (c\<lparr>bw := ws\<rparr>) s" "length ws = n"
    "drop i ws = drop i (bw c)"
    "wval (take i ws) + base ^ i * unat carry = wval (take i (bw a)) + wval (take i (bw b))"
    by (auto simp: padd_upto_def)
  have c1: "carry = 0 \<or> carry = 1" using ws(1) by (auto simp: le_Suc_eq word_unat_eq_iff)
  have "wval ws + base ^ i * unat carry = wval (bw a) + wval (bw b)"
    using wval_split [of i ws] wval_split [of i "bw a"] wval_split [of i "bw b"] ws(3-5) skip [OF i(3)] i(4) assms(4,5,8)
    by (simp add: algebra_simps)
  with r(1) i ws c1 show ?thesis by blast
qed

lemma top_word:
  assumes "length ws = n" "0 < m" "m \<le> n" "drop m ws = replicate (n - m) 0" "base ^ (m - 1) \<le> wval ws"
  shows "ws ! (m - 1) \<noteq> 0"
proof
  assume z: "ws ! (m - 1) = 0"
  from assms(2) obtain k where k: "m = Suc k" using gr0_conv_Suc by blast
  have "wval ws = wval (take (Suc k) ws)"
    using wval_split [of m ws] assms(1,3,4) k by simp
  also have "\<dots> < base ^ k" using z k assms(1,3) wval_take_less [of k ws] by (simp add: wval_take_Suc)
  finally show False using assms(5) k by simp
qed

lemma normal_len:
  assumes "length ws = n" "m \<le> n" "n < 2 ^ 31" "drop m ws = replicate (n - m) 0" "0 < m \<Longrightarrow> base ^ (m - 1) \<le> wval ws"
  shows "big_ok n \<lparr>blen = of_nat m, bw = ws\<rparr>" and "big_val \<lparr>blen = of_nat m, bw = ws\<rparr> = int (wval ws)"
proof -
  let ?c = "\<lparr>blen = of_nat m, bw = ws\<rparr>"
  have "mlen ?c = m" "\<not> mneg ?c"
    using mlen_of_nat [of m ?c] mneg_of_nat [of m ?c] assms(2,3) by simp_all
  then show "big_ok n ?c" "big_val ?c = int (wval ws)"
    using assms top_word [of ws n m] by (auto simp: big_ok_def big_val_def)
qed

lemma carry_word:
  assumes "length ws = n" "i < n" "drop i ws = replicate (n - i) 0"
  shows "wval (ws[i := v]) = wval ws + base ^ i * unat v" and "drop (Suc i) (ws[i := v]) = replicate (n - Suc i) 0"
proof -
  have d: "drop (Suc i) ws = replicate (n - Suc i) 0"
    using arg_cong [OF assms(3), of "drop 1"] by simp
  then show "drop (Suc i) (ws[i := v]) = replicate (n - Suc i) 0" by simp
  have "ws ! i = 0" using assms by (metis Suc_diff_Suc hd_drop_conv_nth list.sel(1) replicate_Suc)
  then show "wval (ws[i := v]) = wval ws + base ^ i * unat v"
    using wval_split [of "Suc i" ws] wval_split [of "Suc i" "ws[i := v]"] assms(1,2) d
    by (simp add: wval_take_Suc)
qed

definition adds :: "nat \<Rightarrow> nat \<Rightarrow> nat \<Rightarrow> miracl \<Rightarrow> miracl option \<Rightarrow> bool" where
  "adds n z v s r \<longleftrightarrow>
     (if v < base ^ n then becomes n z (int v) s r
      else \<exists>c. r = Some ((store_big z c s)\<lparr>ERNUM := MR_ERR_OVERFLOW\<rparr>))"

lemma word_lower:
  assumes "k < length ws" "ws ! k \<noteq> 0"
  shows "base ^ k \<le> wval ws"
proof -
  have "base ^ k * 1 \<le> base ^ k * unat (ws ! k)" using assms(2) by (intro mult_le_mono) (simp_all add: Suc_le_eq unat_gt_0)
  also have "\<dots> \<le> wval (take (Suc k) ws)" using assms(1) by (simp add: wval_take_Suc)
  also have "\<dots> \<le> wval ws" using assms(1) by (subst (2) wval_split [of "Suc k"]) simp_all
  finally show ?thesis by simp
qed

text \<open>The end of \<open>mr_padd\<close>: the length was set one too high, and is store_big right.\<close>

lemma padd_finish:
  fixes ws :: "u32 list" and lz n :: nat
  defines "m \<equiv> (if lz < n then Suc lz else lz)"
  assumes "bigs s z = Some c" "length ws = n" "lz \<le> n" "blen c = of_nat m" "drop m ws = replicate (n - m) 0"
    and "0 < lz \<Longrightarrow> base ^ (lz - 1) \<le> wval ws" "n < 2 ^ 31" "0 < n"
  shows "becomes n z (int (wval ws)) s
    (do { l \<leftarrow> get_len z (store_big z (c\<lparr>bw := ws\<rparr>) s);
          v \<leftarrow> rd z (unat (l - 1)) (store_big z (c\<lparr>bw := ws\<rparr>) s);
          if v = 0 then set_len z (l - 1) (store_big z (c\<lparr>bw := ws\<rparr>) s) else Some (store_big z (c\<lparr>bw := ws\<rparr>) s) })"
proof -
  have m: "0 < m" "m \<le> n" "m - 1 < n" using assms(4,9) by (auto simp: m_def)
  have l: "of_nat m - 1 = (of_nat (m - Suc 0) :: u32)" using m(1) by simp
  have u: "unat (of_nat (m - Suc 0) :: u32) = m - Suc 0" using m(3) assms(8) by (simp add: unat_of_nat)
  have c: "c\<lparr>bw := ws\<rparr> = \<lparr>blen = of_nat m, bw = ws\<rparr>" using assms(5) by (cases c) simp
  show ?thesis
  proof (cases "ws ! (m - 1) = 0")
    case False
    then have "base ^ (m - 1) \<le> wval ws" using m(3) assms(3) by (intro word_lower) simp_all
    with False show ?thesis
      using normal_len [OF assms(3) m(2) assms(8,6)] m(3) assms(3)
      by (auto simp: store_simps c l u intro!: becomesI)
  next
    case True
    have "lz < n"
      using True top_word [of ws n lz] assms(3,4,6,7,9) by (cases "lz < n") (simp_all add: m_def)
    then have lz: "m - 1 = lz" by (simp add: m_def)
    have "drop lz ws = replicate (n - lz) 0"
      using True assms(3,6) \<open>lz < n\<close> lz
      by (simp add: m_def Suc_diff_Suc [symmetric] Cons_nth_drop_Suc [symmetric])
    with True show ?thesis
      using normal_len [OF assms(3,4,8) _ assms(7)] m(3) assms(3) lz
      by (auto simp: store_simps c l u intro!: becomesI)
  qed
qed

lemma padd_sum_ok:
  assumes "bigs s x = Some a" "bigs s y = Some b" "bigs s z = Some c"
    and "length (bw a) = n" "length (bw b) = n" "length (bw c) = n" "la \<le> lz" "lz \<le> n"
    and "\<And>e. la \<le> e \<Longrightarrow> wval (drop e (bw c)) = wval (drop e (bw a)) + wval (drop e (bw b))"
    and "blen c = of_nat (if lz < n then Suc lz else lz)" "drop lz (bw c) = replicate (n - lz) 0"
    and "0 < lz \<Longrightarrow> base ^ (lz - 1) \<le> wval (bw a) + wval (bw b)"
    and "nib s = int n" "mr_check s" "ERCON s" "n < 2 ^ 31" "0 < n"
  shows "adds n z (wval (bw a) + wval (bw b)) s (padd_sum x y z (int lz) (int la) s)"
proof -
  from padd_loops [OF assms(1-9)] obtain r i carry ws where
    l: "for_up 0 la (padd_column x y z) (0, s) = Some r"
       "padd_carry x y z lz la (fst r) (snd r) = Some (i, carry, store_big z (c\<lparr>bw := ws\<rparr>) s)"
    and ws: "length ws = n" "i \<le> lz" "carry = 0 \<or> carry = 1 \<and> i = lz" "drop i ws = drop i (bw c)"
       "wval ws + base ^ i * unat carry = wval (bw a) + wval (bw b)" by blast
  let ?t = "store_big z (c\<lparr>bw := ws\<rparr>) s" and ?m = "if lz < n then Suc lz else lz"
  have z0: "drop lz ws = replicate (n - lz) 0"
    using arg_cong [OF ws(4), of "drop (lz - i)"] ws(2) assms(11) by simp
  have zm: "drop ?m ws = replicate (n - ?m) 0"
    using arg_cong [OF z0, of "drop (?m - lz)"] by simp
  note run = padd_sum_def l case_prod_beta adds_def assms(13-15)
  consider "carry = 0" | "carry = 1" "i = lz" "lz < n" | "carry = 1" "i = lz" "lz = n" using ws(3) assms(8) by linarith
  then show ?thesis
  proof cases
    case 1
    then have sum: "wval ws = wval (bw a) + wval (bw b)" using ws(5) by simp
    then have "wval (bw a) + wval (bw b) < base ^ n" using wval_less [of ws] ws(1) by simp
    with 1 padd_finish [OF assms(3) ws(1) assms(8,10) zm _ assms(16,17)] assms(12) sum show ?thesis
      by (simp add: run)
  next
    case 2
    let ?ws = "ws[lz := 1]"
    have W: "wval ?ws = wval (bw a) + wval (bw b)" "drop ?m ?ws = replicate (n - ?m) 0"
      using carry_word [OF ws(1) 2(3) z0] ws(5) 2 by simp_all
    then have "wval (bw a) + wval (bw b) < base ^ n" using wval_less [of ?ws] ws(1) by simp
    moreover have "wr z lz 1 ?t = Some (store_big z (c\<lparr>bw := ?ws\<rparr>) s)" using 2 ws(1) by (simp add: wr_store_big [where b = "c\<lparr>bw := ws\<rparr>"])
    ultimately show ?thesis
      using 2 padd_finish [OF assms(3) _ assms(8,10) W(2) _ assms(16,17)] ws(1) assms(12) W(1) by (simp add: run)
  next
    case 3
    then have "base ^ n \<le> wval (bw a) + wval (bw b)" using ws(5) by simp
    with 3 l show ?thesis by (auto simp: run mr_berror_def)
  qed
qed

lemma adds_store_big: "adds n z v (store_big z d s) r \<longleftrightarrow> adds n z v s r"
  by (simp add: adds_def becomes_def)

text \<open>The sum from any of the states the copying leaves: the result holds the longer operand, or an operand itself.\<close>

lemma padd_prepared:
  assumes "bigs s x = Some a" "bigs s y = Some b" "big_ok n a" "big_ok n b"
    and "x = z \<Longrightarrow> ws = bw a" "y = z \<Longrightarrow> ws = bw b" "length ws = n" "la \<le> lz" "lz = max (mlen a) (mlen b)"
    and "\<And>e. la \<le> e \<Longrightarrow> wval (drop e ws) = wval (drop e (bw a)) + wval (drop e (bw b))"
    and "drop lz ws = replicate (n - lz) 0"
    and "nib s = int n" "mr_check s" "ERCON s" "n < 2 ^ 31" "0 < n"
  shows "adds n z (wval (bw a) + wval (bw b)) s
    (padd_sum x y z (int lz) (int la) (store_big z \<lparr>blen = of_nat (if lz < n then Suc lz else lz), bw = ws\<rparr> s))"
proof -
  let ?c = "\<lparr>blen = of_nat (if lz < n then Suc lz else lz), bw = ws\<rparr>"
  define a' where "a' = (if x = z then ?c else a)"
  define b' where "b' = (if y = z then ?c else b)"
  have w: "bw a' = bw a" "bw b' = bw b" using assms(5,6) by (simp_all add: a'_def b'_def)
  have "lz \<le> n" using assms(3,4,9) by (simp add: big_ok_len)
  moreover have "base ^ (lz - 1) \<le> wval (bw a) + wval (bw b)" if "0 < lz"
    using that assms(9) big_ok_lower [OF assms(3)] big_ok_lower [OF assms(4)] by (auto simp: max_def split: if_splits)
  ultimately have "adds n z (wval (bw a') + wval (bw b')) (store_big z ?c s) (padd_sum x y z (int lz) (int la) (store_big z ?c s))"
    using assms by (intro padd_sum_ok [where a = a' and b = b' and c = ?c]) (simp_all add: a'_def b'_def w [unfolded a'_def b'_def] big_ok_len)
  then show ?thesis by (simp only: w adds_store_big)
qed

lemma padd_start:
  assumes "bigs t z = Some d" "nib t = int n" "mr_check t"
  shows "set_len z (word_of_int (int lz)) t \<bind> (\<lambda>s.
      (if int lz < nib s \<or> \<not> mr_check s then get_len z s \<bind> (\<lambda>l. set_len z (l + 1) s) else Some s) \<bind> f) =
    f (store_big z \<lparr>blen = of_nat (if lz < n then Suc lz else lz), bw = bw d\<rparr> t)"
  using assms by (cases d) (simp add: store_simps add.commute)

lemma mr_padd_ok:
  assumes "bigs s x = Some a" "bigs s y = Some b" "bigs s z = Some c" "big_ok n a" "big_ok n b" "big_ok n c"
    and "x \<noteq> NULL" "y \<noteq> NULL" "z \<noteq> NULL" "\<not> mneg a" "\<not> mneg b"
    and "nib s = int n" "mr_check s" "ERCON s" "n < 2 ^ 31" "0 < n"
  shows "adds n z (wval (bw a) + wval (bw b)) s (mr_padd x y z s)"
proof -
  note lens = sint_len [OF assms(10)] sint_len [OF assms(11)]
  note sum = padd_prepared [OF assms(1,2,4,5), of z, OF _ _ _ _ _ _ _ assms(12-16)]
  note da = big_ok_drop [OF assms(4)] and db = big_ok_drop [OF assms(5)] and dc = big_ok_drop [OF assms(6)]
  note ln = big_ok_len [OF assms(4)] big_ok_len [OF assms(5)] big_ok_len [OF assms(6)]
  consider "mlen a < mlen b" "x \<noteq> z" | "mlen a < mlen b" "x = z" | "mlen b \<le> mlen a" "y \<noteq> z" | "mlen b \<le> mlen a" "y = z"
    by linarith
  then show ?thesis
  proof cases
    case 1
    have "mr_copy y z s = Some (store_big z b s)" by (rule mr_copy_eq) fact+
    with 1 have "mr_padd x y z s = padd_sum x y z (int (mlen b)) (int (mlen a))
        (store_big z \<lparr>blen = of_nat (if mlen b < n then Suc (mlen b) else mlen b), bw = bw b\<rparr> s)"
      using assms(1,2,12,13) by (simp add: mr_padd_def get_len_some lens padd_start [where d = b and n = n] del: of_int_of_nat_eq)
    with 1 sum [of "bw b" "mlen a" "mlen b"] ln da db show ?thesis by simp
  next
    case 2
    then have "mr_padd x y z s = padd_sum x y z (int (mlen b)) (int (mlen b))
        (store_big z \<lparr>blen = of_nat (if mlen b < n then Suc (mlen b) else mlen b), bw = bw c\<rparr> s)"
      using assms(1-3,12,13) by (simp add: mr_padd_def get_len_some lens padd_start [where d = c and n = n] del: of_int_of_nat_eq)
    moreover have "c = a" "y \<noteq> z" using 2 assms(1-3) by auto
    ultimately show ?thesis using 2 sum [of "bw a" "mlen b" "mlen b"] ln da db by simp
  next
    case 3
    have "mr_copy x z s = Some (store_big z a s)" by (rule mr_copy_eq) fact+
    with 3 have "mr_padd x y z s = padd_sum x y z (int (mlen a)) (int (mlen b))
        (store_big z \<lparr>blen = of_nat (if mlen a < n then Suc (mlen a) else mlen a), bw = bw a\<rparr> s)"
      using assms(1,2,12,13) by (simp add: mr_padd_def get_len_some lens padd_start [where d = a and n = n] del: of_int_of_nat_eq)
    with 3 sum [of "bw a" "mlen b" "mlen a"] ln da db show ?thesis by simp
  next
    case 4
    then have "mr_padd x y z s = padd_sum x y z (int (mlen a)) (int (mlen a))
        (store_big z \<lparr>blen = of_nat (if mlen a < n then Suc (mlen a) else mlen a), bw = bw c\<rparr> s)"
      using assms(1-3,12,13) by (simp add: mr_padd_def get_len_some lens padd_start [where d = c and n = n] del: of_int_of_nat_eq)
    moreover have "c = b" "x = z \<Longrightarrow> a = b" using 4 assms(1-3) by auto
    ultimately show ?thesis using 4 sum [of "bw b" "mlen a" "mlen a"] ln da db by simp
  qed
qed

subsection \<open>Differences\<close>

definition psub_upto :: "nat \<Rightarrow> bigtype \<Rightarrow> bigtype \<Rightarrow> bigtype \<Rightarrow> nat \<Rightarrow> miracl \<Rightarrow> nat \<Rightarrow> u32 \<Rightarrow> miracl \<Rightarrow> bool" where
  "psub_upto n a b c z s i borrow t \<longleftrightarrow> unat borrow \<le> 1 \<and>
     (\<exists>ws. t = store_big z (c\<lparr>bw := ws\<rparr>) s \<and> length ws = n \<and> drop i ws = drop i (bw c) \<and>
       wval (take i ws) + wval (take i (bw b)) = wval (take i (bw a)) + base ^ i * unat borrow)"

lemma psub_column_upto:
  assumes "bigs s x = Some a" "bigs s y = Some b" "bigs s z = Some c"
    and "length (bw a) = n" "length (bw b) = n" "i < n" "psub_upto n a b c z s i borrow t"
  shows "\<exists>borrow' t'. psub_column x y z i borrow t = Some (borrow', t') \<and> psub_upto n a b c z s (Suc i) borrow' t'"
proof -
  from assms(7) obtain ws where ws: "unat borrow \<le> 1" "t = store_big z (c\<lparr>bw := ws\<rparr>) s" "length ws = n"
    "drop i ws = drop i (bw c)"
    "wval (take i ws) + wval (take i (bw b)) = wval (take i (bw a)) + base ^ i * unat borrow"
    by (auto simp: psub_upto_def)
  have "ws ! i = bw c ! i"
    using ws(3,4) assms(6) by (metis hd_drop_conv_nth length_drop less_le_not_le drop_eq_Nil2 linorder_not_less)
  then have rds: "rd x i t = Some (bw a ! i)" "rd y i t = Some (bw b ! i)"
    using assms ws(2,3) by (auto simp: rd_def)
  define p where "p = bw a ! i - bw b ! i - borrow"
  define c' where "c' = (if p < bw a ! i then 0 else if p > bw a ! i then 1 else borrow)"
  have col: "unat p + unat (bw b ! i) + unat borrow = unat (bw a ! i) + base * unat c'" "unat c' \<le> 1"
    unfolding p_def c'_def by (rule sub_column [OF ws(1)])+
  have "wval (take (Suc i) (ws[i := p])) + wval (take (Suc i) (bw b)) =
      (wval (take i ws) + wval (take i (bw b))) + base ^ i * (unat p + unat (bw b ! i))"
    using ws(3) assms(5,6) by (simp add: wval_take_Suc algebra_simps)
  also have "\<dots> = wval (take i (bw a)) + base ^ i * (unat p + unat (bw b ! i) + unat borrow)"
    unfolding ws(5) by (simp add: algebra_simps)
  also have "\<dots> = wval (take (Suc i) (bw a)) + base ^ Suc i * unat c'"
    unfolding col(1) using assms(4,6) by (simp add: wval_take_Suc algebra_simps)
  finally have sum: "wval (take (Suc i) (ws[i := p])) + wval (take (Suc i) (bw b)) =
    wval (take (Suc i) (bw a)) + base ^ Suc i * unat c'" .
  have "drop (Suc i) (ws[i := p]) = drop (Suc i) (bw c)"
    using ws(4) by (metis drop_Suc drop_update_cancel lessI tl_drop)
  moreover have "psub_column x y z i borrow t = Some (c', store_big z (c\<lparr>bw := ws[i := p]\<rparr>) s)"
    using rds ws(2,3) assms(6)
    by (simp add: psub_column_def p_def c'_def Let_def wr_store_big [where b = "c\<lparr>bw := ws\<rparr>"])
  ultimately show ?thesis using sum col(2) ws(3) by (auto simp: psub_upto_def)
qed

text \<open>
  When the first operand is not less than the second, the loop ends without a borrow, before it
  leaves the words of the first operand, and the words it skips are the difference already.
\<close>

lemma psub_loop_ok:
  assumes "bigs s x = Some a" "bigs s y = Some b" "bigs s z = Some c"
    and "length (bw a) = n" "length (bw b) = n" "ly \<le> lx" "lx \<le> n"
    and "wval (take lx (bw a)) = wval (bw a)" "wval (take lx (bw b)) = wval (bw b)" "wval (bw b) \<le> wval (bw a)"
    and skip: "\<And>e. ly \<le> e \<Longrightarrow> wval (drop e (bw c)) + wval (drop e (bw b)) = wval (drop e (bw a))"
  shows "i \<le> lx \<Longrightarrow> psub_upto n a b c z s i borrow t \<Longrightarrow>
    \<exists>ws. psub_loop x y z (int lx) (int ly) i borrow t = Some (False, store_big z (c\<lparr>bw := ws\<rparr>) s) \<and>
      length ws = n \<and> drop lx ws = drop lx (bw c) \<and> wval ws + wval (bw b) = wval (bw a)"
proof (induction "lx - i" arbitrary: i borrow t)
  case (Suc k)
  from Suc.hyps(2) have i: "i < lx" by linarith
  show ?case
  proof (cases "i < ly \<or> borrow > 0")
    case True
    obtain c1 t1 where c1: "psub_column x y z i borrow t = Some (c1, t1)" "psub_upto n a b c z s (Suc i) c1 t1"
      using psub_column_upto [OF assms(1-5) _ Suc.prems(2)] i assms(7) by force
    from Suc.hyps(1) [OF _ _ c1(2)] Suc.hyps(2) i True c1(1) show ?thesis by (subst psub_loop.simps) auto
  next
    case False
    then have b0: "borrow = 0" by (simp add: word_gt_0)
    from Suc.prems(2) obtain ws where ws: "t = store_big z (c\<lparr>bw := ws\<rparr>) s" "length ws = n" "drop i ws = drop i (bw c)"
      "wval (take i ws) + wval (take i (bw b)) = wval (take i (bw a))" by (auto simp: psub_upto_def b0)
    have "wval ws + wval (bw b) = wval (bw a)"
      using wval_split [of i ws] wval_split [of i "bw a"] wval_split [of i "bw b"] ws(2-4) skip [of i] i False assms(4,5,7)
      by (simp add: algebra_simps flip: distrib_left)
    moreover have "drop lx ws = drop lx (bw c)" using arg_cong [OF ws(3), of "drop (lx - i)"] i by simp
    ultimately show ?thesis using False b0 ws(1,2) by (subst psub_loop.simps) auto
  qed
next
  case 0
  then have i: "i = lx" by simp
  from 0(3) obtain ws where ws: "unat borrow \<le> 1" "t = store_big z (c\<lparr>bw := ws\<rparr>) s" "length ws = n" "drop lx ws = drop lx (bw c)"
    "wval (take lx ws) + wval (bw b) = wval (bw a) + base ^ lx * unat borrow" by (auto simp: psub_upto_def i assms(8,9))
  have b0: "borrow = 0"
  proof (rule ccontr)
    assume "borrow \<noteq> 0"
    then have "base ^ lx * 1 \<le> base ^ lx * unat borrow" by (intro mult_le_mono) (simp_all add: Suc_le_eq unat_gt_0)
    with ws(5) wval_take_less [of lx ws] assms(10) show False by linarith
  qed
  have "wval ws + wval (bw b) = wval (bw a)"
    using wval_split [of lx ws] wval_split [of lx "bw a"] wval_split [of lx "bw b"] ws(3-5) skip [of lx] assms(4-9) b0
    by (simp del: wval_eq_0)
  with ws b0 i assms(6) show ?case by (subst psub_loop.simps) auto
qed

lemma new_len: "a\<lparr>blen := l\<rparr> = \<lparr>blen = l, bw = bw a\<rparr>"
  by (cases a) simp

lemma mr_psub_ok:
  assumes "bigs s x = Some a" "bigs s y = Some b" "bigs s z = Some c" "big_ok n a" "big_ok n b" "big_ok n c"
    and "x \<noteq> NULL" "y \<noteq> NULL" "z \<noteq> NULL" "\<not> mneg a" "\<not> mneg b" "wval (bw b) \<le> wval (bw a)" "n < 2 ^ 31"
  shows "becomes n z (int (wval (bw a) - wval (bw b))) s (mr_psub x y z s)"
proof -
  note lens = sint_len [OF assms(10)] sint_len [OF assms(11)]
  note da = big_ok_drop [OF assms(4)] and db = big_ok_drop [OF assms(5)]
  note ln = big_ok_len [OF assms(4)] big_ok_len [OF assms(5)]
  have le: "mlen b \<le> mlen a" using mlen_less_val [OF assms(4,5)] assms(12) by force
  define ly where "ly = (if y \<noteq> z then mlen b else mlen a)"
  define ws where "ws = (if y \<noteq> z then bw a else bw b)"
  define d where "d = \<lparr>blen = of_nat (mlen a), bw = ws\<rparr>"
  let ?s = "store_big z d s"
  define a' where "a' = (if x = z then d else a)"
  define b' where "b' = (if y = z then d else b)"
  have w: "bw a' = bw a" "bw b' = bw b" using assms(1-3) by (auto simp: a'_def b'_def d_def ws_def)
  have "mr_copy x z s = Some (store_big z a s)" by (rule mr_copy_eq) fact+
  then have run: "mr_psub x y z s = psub_loop x y z (int (mlen a)) (int ly) 0 0 ?s \<bind> (\<lambda>(ret, s). if ret then Some s else mr_lzero z s)"
    using le assms(1-3) by (auto simp: mr_psub_def get_len_some lens set_len_store_big new_len ly_def d_def ws_def)
  have st: "bigs ?s x = Some a'" "bigs ?s y = Some b'" "bigs ?s z = Some d"
    and lw: "length (bw a') = n" "length (bw b') = n" and lyx: "ly \<le> mlen a"
    using assms(1,2) le ln by (simp_all add: a'_def b'_def ly_def w [unfolded a'_def b'_def])
  have "wval (take (mlen a) (bw b)) = wval (bw b)"
    using wval_split [of "mlen a" "bw b"] db [OF le] ln by simp
  moreover have "psub_upto n a' b' d z ?s 0 0 ?s" using ln by (auto simp: psub_upto_def d_def ws_def intro!: exI [of _ ws])
  moreover have "wval (drop e (bw d)) + wval (drop e (bw b')) = wval (drop e (bw a'))" if "ly \<le> e" for e
    using that da db le by (auto simp: d_def ws_def ly_def w split: if_splits)
  ultimately obtain vs where vs: "psub_loop x y z (int (mlen a)) (int ly) 0 0 ?s = Some (False, store_big z (d\<lparr>bw := vs\<rparr>) ?s)"
    "length vs = n" "drop (mlen a) vs = drop (mlen a) (bw d)" "wval vs + wval (bw b') = wval (bw a')"
    using psub_loop_ok [OF st lw lyx ln(2), of 0 0 ?s] assms(12) big_ok_take [OF assms(4)] by (auto simp: w)
  have m: "mlen (d\<lparr>bw := vs\<rparr>) = mlen a" "\<not> mneg (d\<lparr>bw := vs\<rparr>)"
    using mlen_of_nat [of "mlen a" "d\<lparr>bw := vs\<rparr>"] mneg_of_nat [of "mlen a" "d\<lparr>bw := vs\<rparr>"] mlen_less [of a] by (simp_all add: d_def)
  have "\<forall>v \<in> set (drop (mlen a) vs). v = 0" using vs(3) da [of "mlen a"] db [OF le] by (auto simp: d_def ws_def)
  with mr_lzero_ok [of "store_big z (d\<lparr>bw := vs\<rparr>) s" z "d\<lparr>bw := vs\<rparr>" n] m vs(2) ln(2) assms(13) obtain e where
    e: "mr_lzero z (store_big z (d\<lparr>bw := vs\<rparr>) s) = Some (store_big z e s)" "big_ok n e" "big_val e = big_val (d\<lparr>bw := vs\<rparr>)" by auto
  have "big_val e = int (wval (bw a) - wval (bw b))" using e(3) m(2) vs(4) by (simp add: big_val_def w)
  with e show ?thesis using vs(1) by (auto simp: run intro!: becomesI)
qed

subsection \<open>Signed sums\<close>

text \<open>
  The routine ends with the number \<open>v\<close> in \<open>z\<close> if it fits in \<open>n\<close> words, and with the error for an
  overflow otherwise; no other number is changed.
\<close>

definition computes :: "nat \<Rightarrow> nat \<Rightarrow> int \<Rightarrow> miracl \<Rightarrow> miracl option \<Rightarrow> bool" where
  "computes n z v s r \<longleftrightarrow>
     (if \<bar>v\<bar> < int (base ^ n) then becomes n z v s r
      else \<exists>c. r = Some ((store_big z c s)\<lparr>ERNUM := MR_ERR_OVERFLOW\<rparr>))"

definition mabs :: "bigtype \<Rightarrow> bigtype" where
  "mabs b = b\<lparr>blen := blen b AND MR_OBITS\<rparr>"

lemma mabs_simps [simp]:
  "bw (mabs b) = bw b" "\<not> mneg (mabs b)" "mabs (mabs b) = mabs b" "big_val (mabs b) = int (wval (bw b))"
  by (simp_all add: mabs_def big_val_abs abs_big_val and.assoc)

lemma mabs_ok: "big_ok n b \<Longrightarrow> big_ok n (mabs b)"
  by (simp add: mabs_def big_ok_abs)

lemma mabs_unsigned: "\<not> mneg b \<Longrightarrow> mabs b = b"
proof -
  assume "\<not> mneg b"
  then have "blen b AND MR_OBITS = blen b"
    by (intro bit_word_eqI) (auto simp: less_Suc_eq [of _ 31, simplified] bit_and_iff mneg_bit)
  then show ?thesis by (simp add: mabs_def)
qed

lemma unflip: "mneg b \<Longrightarrow> (mabs b)\<lparr>blen := blen (mabs b) XOR MR_MSBIT\<rparr> = b"
proof -
  assume "mneg b"
  then have "(blen b AND MR_OBITS) XOR MR_MSBIT = blen b"
    by (intro bit_word_eqI) (auto simp: less_Suc_eq [of _ 31, simplified] bit_and_iff bit_xor_iff mneg_bit)
  then show ?thesis by (simp add: mabs_def)
qed

lemma flip_sign_store_big: "bigs s x = Some b \<Longrightarrow> flip_sign x s = Some (store_big x (b\<lparr>blen := blen b XOR MR_MSBIT\<rparr>) s)"
  by (simp add: flip_sign_def store_simps)

lemma store_big_ERNUM: "store_big x b (s\<lparr>ERNUM := e\<rparr>) = (store_big x b s)\<lparr>ERNUM := e\<rparr>"
  by (simp add: store_big_def)

text \<open>The state with both operands positive, and the restoring of their signs.\<close>

definition both_abs :: "nat \<Rightarrow> bigtype \<Rightarrow> nat \<Rightarrow> bigtype \<Rightarrow> miracl \<Rightarrow> miracl" where
  "both_abs x a y b s = store_big y (mabs b) (store_big x (mabs a) s)"

lemma restore_signs:
  assumes "bigs s x = Some a" "bigs s y = Some b" "t = (store_big z c (both_abs x a y b s))\<lparr>ERNUM := e\<rparr>"
  shows "(if x \<noteq> z \<and> mneg a then flip_sign x t else Some t) \<bind>
      (\<lambda>s. if y \<noteq> z \<and> y \<noteq> x \<and> mneg b then flip_sign y s else Some s) = Some ((store_big z c s)\<lparr>ERNUM := e\<rparr>)"
proof -
  have bx: "bigs t x = Some (mabs a)" if "x \<noteq> z" using that assms by (auto simp: both_abs_def)
  have x: "(if x \<noteq> z \<and> mneg a then flip_sign x t else Some t) = Some (if x = z then t else store_big x a t)"
    using bx by (cases "mneg a") (auto simp: flip_sign_store_big unflip mabs_unsigned store_big_same)
  let ?u = "if x = z then t else store_big x a t"
  have yb: "bigs ?u y = Some (mabs b)" if "y \<noteq> z" "y \<noteq> x" using that assms by (auto simp: both_abs_def)
  have y: "(if y \<noteq> z \<and> y \<noteq> x \<and> mneg b then flip_sign y ?u else Some ?u) =
      Some (if y = z \<or> y = x then ?u else store_big y b ?u)"
    using yb by (cases "mneg b") (auto simp: flip_sign_store_big unflip mabs_unsigned store_big_same)
  have "(if y = z \<or> y = x then ?u else store_big y b ?u) = (store_big z c s)\<lparr>ERNUM := e\<rparr>"
    using assms by (auto simp: both_abs_def store_big_def fun_eq_iff intro!: miracl.equality)
  with x y show ?thesis by simp
qed

lemma computes_flip:
  assumes "computes n z (int k) s r" "0 < k"
  shows "computes n z (- int k) s (r \<bind> flip_sign z)"
proof (cases "k < base ^ n")
  case True
  then have "\<bar>int k\<bar> < int (base ^ n)" by (simp only: abs_of_nat of_nat_less_iff)
  with assms obtain c where c: "r = Some (store_big z c s)" "big_ok n c" "big_val c = int k"
    by (auto simp: computes_def becomes_def)
  then have "blen c \<noteq> 0" using big_val_0 [OF c(2)] assms(2) by simp
  with c \<open>\<bar>int k\<bar> < int (base ^ n)\<close> show ?thesis
    using big_ok_flip [OF c(2)] by (auto simp: computes_def flip_sign_store_big big_val_flip intro!: becomesI)
next
  case False
  then have "\<not> \<bar>int k\<bar> < int (base ^ n)" by (metis abs_of_nat of_nat_less_iff)
  with assms(1) obtain c where "r = Some ((store_big z c s)\<lparr>ERNUM := MR_ERR_OVERFLOW\<rparr>)"
    by (auto simp: computes_def)
  with \<open>\<not> \<bar>int k\<bar> < int (base ^ n)\<close> show ?thesis
    by (auto simp: computes_def flip_sign_store_big store_big_ERNUM)
qed

lemma computes_restore:
  assumes "bigs s x = Some a" "bigs s y = Some b" "computes n z v (both_abs x a y b s) r"
  shows "computes n z v s (r \<bind> (\<lambda>t. (if x \<noteq> z \<and> mneg a then flip_sign x t else Some t) \<bind>
      (\<lambda>s. if y \<noteq> z \<and> y \<noteq> x \<and> mneg b then flip_sign y s else Some s)))"
proof (cases "\<bar>v\<bar> < int (base ^ n)")
  case True
  then obtain c where c: "r = Some (store_big z c (both_abs x a y b s))" "big_ok n c" "big_val c = v"
    using assms(3) by (auto simp: computes_def becomes_def)
  have e: "store_big z c (both_abs x a y b s) = (store_big z c (both_abs x a y b s))\<lparr>ERNUM := ERNUM s\<rparr>"
    "(store_big z c s)\<lparr>ERNUM := ERNUM s\<rparr> = store_big z c s" by (simp_all add: both_abs_def store_big_def)
  from restore_signs [OF assms(1,2) e(1)] c e(2) True show ?thesis
    by (auto simp: computes_def intro!: becomesI)
next
  case False
  then obtain c where c: "r = Some ((store_big z c (both_abs x a y b s))\<lparr>ERNUM := MR_ERR_OVERFLOW\<rparr>)"
    using assms(3) by (auto simp: computes_def)
  with restore_signs [OF assms(1,2) refl, where z = z and c = c and e = MR_ERR_OVERFLOW] False show ?thesis
    by (auto simp: computes_def)
qed

text \<open>The sum and the difference of the magnitudes, in either order of the operands.\<close>

lemma magnitudes:
  assumes "bigs s x = Some a" "bigs s y = Some b" "bigs s z = Some c" "big_ok n a" "big_ok n b" "big_ok n c"
    and "x \<noteq> NULL" "y \<noteq> NULL" "z \<noteq> NULL" "nib s = int n" "mr_check s" "ERCON s" "n < 2 ^ 31" "0 < n"
  shows "computes n z (int (wval (bw a) + wval (bw b))) (both_abs x a y b s) (mr_padd x y z (both_abs x a y b s))"
    and "computes n z (int (wval (bw a) + wval (bw b))) (both_abs x a y b s) (mr_padd y x z (both_abs x a y b s))"
    and "wval (bw b) \<le> wval (bw a) \<Longrightarrow>
      computes n z (int (wval (bw a) - wval (bw b))) (both_abs x a y b s) (mr_psub x y z (both_abs x a y b s))"
    and "wval (bw a) \<le> wval (bw b) \<Longrightarrow>
      computes n z (int (wval (bw b) - wval (bw a))) (both_abs x a y b s) (mr_psub y x z (both_abs x a y b s))"
proof -
  let ?s = "both_abs x a y b s"
  have xy: "bigs ?s x = Some (mabs a)" "bigs ?s y = Some (mabs b)" using assms(1,2) by (auto simp: both_abs_def)
  have "\<exists>d. bigs ?s z = Some d \<and> big_ok n d"
    using assms(3,6) mabs_ok [OF assms(4)] mabs_ok [OF assms(5)] by (simp add: both_abs_def)
  then obtain d where d: "bigs ?s z = Some d" "big_ok n d" by blast
  have f: "nib ?s = int n" "mr_check ?s" "ERCON ?s" using assms(10-12) by (simp_all add: both_abs_def)
  note ok = mabs_ok [OF assms(4)] mabs_ok [OF assms(5)]
  have fits: "wval (bw a) < base ^ n" "wval (bw b) < base ^ n"
    using wval_less [of "bw a"] wval_less [of "bw b"] assms(4,5) by (simp_all add: big_ok_len)
  have adds: "computes n z (int k) t r" if "adds n z k t r" for k t r
    using that unfolding computes_def adds_def by (simp only: abs_of_nat of_nat_less_iff)
  have subs: "computes n z (int k) t r" if "becomes n z (int k) t r" "k < base ^ n" for k t r
    using that unfolding computes_def by (simp only: abs_of_nat of_nat_less_iff) simp
  show "computes n z (int (wval (bw a) + wval (bw b))) ?s (mr_padd x y z ?s)"
    using mr_padd_ok [OF xy d(1) ok d(2) assms(7-9) _ _ f assms(13,14)] by (intro adds) simp
  show "computes n z (int (wval (bw a) + wval (bw b))) ?s (mr_padd y x z ?s)"
    using mr_padd_ok [OF xy(2,1) d(1) ok(2,1) d(2) assms(8,7,9) _ _ f assms(13,14)] by (intro adds) (simp add: add.commute)
  show "computes n z (int (wval (bw a) - wval (bw b))) ?s (mr_psub x y z ?s)" if "wval (bw b) \<le> wval (bw a)"
    using mr_psub_ok [OF xy d(1) ok d(2) assms(7-9) _ _ _ assms(13)] that fits by (intro subs) simp_all
  show "computes n z (int (wval (bw b) - wval (bw a))) ?s (mr_psub y x z ?s)" if "wval (bw a) \<le> wval (bw b)"
    using mr_psub_ok [OF xy(2,1) d(1) ok(2,1) d(2) assms(8,7,9) _ _ _ assms(13)] that fits by (intro subs) simp_all
qed

lemma select_signs:
  "map_option (Pair MINUS) r \<bind> (\<lambda>(sz, s). (if sz < 0 then flip_sign z s else Some s) \<bind> f) = (r \<bind> flip_sign z) \<bind> f"
  "map_option (Pair PLUS) r \<bind> (\<lambda>(sz, s). (if sz < 0 then flip_sign z s else Some s) \<bind> f) = r \<bind> f"
  by (cases r; simp add: MINUS_def PLUS_def)+

definition restored :: "nat \<Rightarrow> bigtype \<Rightarrow> nat \<Rightarrow> bigtype \<Rightarrow> nat \<Rightarrow> miracl \<Rightarrow> miracl option" where
  "restored x a y b z = (\<lambda>t. (if x \<noteq> z \<and> mneg a then flip_sign x t else Some t) \<bind>
      (\<lambda>s. if y \<noteq> z \<and> y \<noteq> x \<and> mneg b then flip_sign y s else Some s))"

lemma mr_select_run:
  fixes a b :: bigtype and s :: miracl and x y z :: nat
  assumes "bigs s x = Some a" "bigs s y = Some b" "big_ok n a" "big_ok n b"
  defines "u \<equiv> both_abs x a y b s" and "A \<equiv> wval (bw a)" and "B \<equiv> wval (bw b)" and "rest \<equiv> restored x a y b z"
  shows "mr_select x d y z s =
    (let jf = (1 + (if mneg a then MINUS else PLUS)) + cdiv (1 + d * (if mneg b then MINUS else PLUS)) 2 in
     if jf = 0 then ((if B \<le> A then mr_padd x y z u else mr_padd y x z u) \<bind> flip_sign z) \<bind> rest
     else if jf = 1 then if A \<le> B then mr_psub y x z u \<bind> rest else (mr_psub x y z u \<bind> flip_sign z) \<bind> rest
     else if jf = 2 then if B \<le> A then mr_psub x y z u \<bind> rest else (mr_psub y x z u \<bind> flip_sign z) \<bind> rest
     else if jf = 3 then (if B \<le> A then mr_padd x y z u else mr_padd y x z u) \<bind> rest
     else rest u)"
proof -
  have u: "bigs u x = Some (mabs a)" "bigs u y = Some (mabs b)" using assms(1,2) by (auto simp: u_def both_abs_def)
  have masks: "set_len x (blen a AND MR_OBITS) s = Some (store_big x (mabs a) s)"
    "get_len y (store_big x (mabs a) s) = Some (blen (if x = y then mabs a else b))"
    "set_len y (blen (if x = y then mabs a else b) AND MR_OBITS) (store_big x (mabs a) s) = Some u"
    using assms(1,2) by (auto simp: store_simps mabs_def u_def both_abs_def and.assoc)
  have sg: "(if mneg e then MINUS else PLUS) < 0 \<longleftrightarrow> mneg e" for e by (simp add: MINUS_def PLUS_def)
  have c: "mr_compare_big x y u = Some (sgn (int A - int B))"
    using mr_compare_big_eq [OF u mabs_ok [OF assms(3)] mabs_ok [OF assms(4)]] by (simp add: A_def B_def)
  have cmp: "0 \<le> sgn (int A - int B) \<longleftrightarrow> B \<le> A" "sgn (int A - int B) \<le> 0 \<longleftrightarrow> A \<le> B"
    by (auto simp: sgn_if)
  show ?thesis
    unfolding mr_select_def exsign_eq [OF assms(1)] exsign_eq [OF assms(2)] get_len_some [OF assms(1)] Option.bind.bind_lunit masks c Let_def sg cmp
    by (simp add: select_signs rest_def restored_def [symmetric])
qed

lemma mr_select_ok:
  assumes "bigs s x = Some a" "bigs s y = Some b" "bigs s z = Some c" "big_ok n a" "big_ok n b" "big_ok n c"
    and "x \<noteq> NULL" "y \<noteq> NULL" "z \<noteq> NULL" "nib s = int n" "mr_check s" "ERCON s" "n < 2 ^ 31" "0 < n"
    and "d = PLUS \<or> d = MINUS"
  shows "computes n z (big_val a + d * big_val b) s (mr_select x d y z s)"
proof -
  note mags = magnitudes [OF assms(1-14)] and run = mr_select_run [OF assms(1,2,4,5)]
  let ?s = "both_abs x a y b s" and ?A = "wval (bw a)" and ?B = "wval (bw b)" and ?rest = "restored x a y b z"
  have plus: "computes n z v s (r \<bind> ?rest)" if "computes n z v ?s r" for v r
    unfolding restored_def by (rule computes_restore [OF assms(1,2) that])
  note minus = plus [OF computes_flip]
  have c2: "cdiv 0 2 = 0" "cdiv 2 2 = 1" by (simp_all add: cdiv_def)
  define nb where "nb \<longleftrightarrow> (d = PLUS \<longleftrightarrow> mneg b)"
  have db: "d * big_val b = (if nb then - int ?B else int ?B)"
    "1 + d * (if mneg b then MINUS else PLUS) = (if nb then 0 else 2)"
    using assms(15) by (auto simp: nb_def big_val_def PLUS_def MINUS_def)
  have jf: "(1 + (if mneg a then MINUS else PLUS)) + cdiv (1 + d * (if mneg b then MINUS else PLUS)) 2 =
      (if mneg a then 0 else 2) + (if nb then 0 else 1)"
    unfolding db(2) by (simp add: c2 PLUS_def MINUS_def)
  consider "mneg a" "nb" | "mneg a" "\<not> nb" | "\<not> mneg a" "nb" | "\<not> mneg a" "\<not> nb" by blast
  then show ?thesis
  proof cases
    case 1
    have "big_val a < 0" using 1(1) mneg_val [OF assms(4)] by blast
    then have pos: "0 < ?A + ?B" using 1(1) by (simp add: big_val_def)
    have r: "mr_select x d y z s = ((if ?B \<le> ?A then mr_padd x y z ?s else mr_padd y x z ?s) \<bind> flip_sign z) \<bind> ?rest"
      unfolding run jf Let_def using 1 by simp
    have v: "big_val a + d * big_val b = - int (?A + ?B)" using 1 by (simp add: db(1) big_val_def [of a])
    show ?thesis unfolding r v using minus [OF mags(1) pos] minus [OF mags(2) pos] by (cases "?B \<le> ?A") simp_all
  next
    case 2
    have r: "mr_select x d y z s =
        (if ?A \<le> ?B then mr_psub y x z ?s \<bind> ?rest else (mr_psub x y z ?s \<bind> flip_sign z) \<bind> ?rest)"
      unfolding run jf Let_def using 2 by simp
    have v: "big_val a + d * big_val b = (if ?A \<le> ?B then int (?B - ?A) else - int (?A - ?B))"
      using 2 by (simp add: db(1) big_val_def [of a] of_nat_diff)
    show ?thesis unfolding r v using plus [OF mags(4)] minus [OF mags(3)] by (cases "?A \<le> ?B") simp_all
  next
    case 3
    have r: "mr_select x d y z s =
        (if ?B \<le> ?A then mr_psub x y z ?s \<bind> ?rest else (mr_psub y x z ?s \<bind> flip_sign z) \<bind> ?rest)"
      unfolding run jf Let_def using 3 by simp
    have v: "big_val a + d * big_val b = (if ?B \<le> ?A then int (?A - ?B) else - int (?B - ?A))"
      using 3 by (simp add: db(1) big_val_def [of a] of_nat_diff)
    show ?thesis unfolding r v using plus [OF mags(3)] minus [OF mags(4)] by (cases "?B \<le> ?A") simp_all
  next
    case 4
    have r: "mr_select x d y z s = (if ?B \<le> ?A then mr_padd x y z ?s else mr_padd y x z ?s) \<bind> ?rest"
      unfolding run jf Let_def using 4 by simp
    have v: "big_val a + d * big_val b = int (?A + ?B)" using 4 by (simp add: db(1) big_val_def [of a])
    show ?thesis unfolding r v using plus [OF mags(1)] plus [OF mags(2)] by (cases "?B \<le> ?A") simp_all
  qed
qed

subsection \<open>The library as a store of integers\<close>

text \<open>
  The invariant of the library: errors are recorded and sizes checked, as \<open>mirsys\<close> sets it up, no
  error has occurred, and every number has room for \<open>n\<close> words and is in normal form.
\<close>

definition mip_ok :: "nat \<Rightarrow> miracl \<Rightarrow> bool" where
  "mip_ok n s \<longleftrightarrow> nib s = int n \<and> mr_check s \<and> ERCON s \<and> ERNUM s = 0 \<and> 0 < n \<and> n < 2 ^ 31 \<and>
     (\<forall>x b. bigs s x = Some b \<longrightarrow> x \<noteq> NULL \<and> big_ok n b)"

definition num :: "miracl \<Rightarrow> nat \<Rightarrow> int" where
  "num s x = big_val (the (bigs s x))"

definition fits :: "nat \<Rightarrow> int \<Rightarrow> bool" where
  "fits n v \<longleftrightarrow> \<bar>v\<bar> < int (base ^ n)"

text \<open>The call \<open>r\<close> from the state \<open>s\<close> assigns \<open>v\<close> to \<open>z\<close> and keeps the invariant.\<close>

definition assigns :: "nat \<Rightarrow> nat \<Rightarrow> int \<Rightarrow> miracl \<Rightarrow> miracl option \<Rightarrow> bool" where
  "assigns n z v s r \<longleftrightarrow>
     (\<exists>t. r = Some t \<and> mip_ok n t \<and> num t = (num s)(z := v) \<and> dom (bigs t) = dom (bigs s) \<and> mr_w0 t = mr_w0 s \<and> mr_w5 t = mr_w5 s)"

lemma becomes_assigns:
  assumes "mip_ok n s" "z \<in> dom (bigs s)" "becomes n z v s r"
  shows "assigns n z v s r"
proof -
  from assms(3) obtain c where c: "r = Some (store_big z c s)" "big_ok n c" "big_val c = v" by (auto simp: becomes_def)
  have "mip_ok n (store_big z c s)" using assms(1,2) c(2) by (auto simp: mip_ok_def)
  moreover have "num (store_big z c s) = (num s)(z := v)" using c(3) by (auto simp: num_def)
  moreover have "dom (bigs (store_big z c s)) = dom (bigs s)" using assms(2) by (auto simp: store_big_def)
  ultimately show ?thesis using c(1) by (simp add: assigns_def)
qed

lemma mr_select_num:
  assumes "mip_ok n s" "x \<in> dom (bigs s)" "y \<in> dom (bigs s)" "z \<in> dom (bigs s)" "d = PLUS \<or> d = MINUS"
  shows "computes n z (num s x + d * num s y) s (mr_select x d y z s)"
  using assms by (auto simp: mip_ok_def num_def intro!: mr_select_ok)

lemma mr_select_assigns:
  assumes "mip_ok n s" "x \<in> dom (bigs s)" "y \<in> dom (bigs s)" "z \<in> dom (bigs s)" "d = PLUS \<or> d = MINUS"
    and "fits n (num s x + d * num s y)"
  shows "assigns n z (num s x + d * num s y) s (mr_select x d y z s)"
  using becomes_assigns [OF assms(1,4)] mr_select_num [OF assms(1-5)] assms(6) by (simp add: computes_def fits_def)

lemma mr_add_assigns:
  assumes "mip_ok n s" "x \<in> dom (bigs s)" "y \<in> dom (bigs s)" "z \<in> dom (bigs s)"
  shows "fits n (num s x + num s y) \<Longrightarrow> assigns n z (num s x + num s y) s (mr_add x y z s)"
    and "fits n (num s x - num s y) \<Longrightarrow> assigns n z (num s x - num s y) s (mr_subtract x y z s)"
  using mr_select_assigns [OF assms, of PLUS] mr_select_assigns [OF assms, of MINUS] assms(1)
  by (simp_all add: mr_add_def mr_subtract_def mip_ok_def PLUS_def MINUS_def)

lemma convert_assigns:
  assumes "mip_ok n s" "x \<in> dom (bigs s)" "- (2 ^ 31) \<le> k" "k < 2 ^ 31"
  shows "assigns n x k s (mr_convert k x s)"
  using assms by (intro becomes_assigns) (auto simp: mip_ok_def intro!: convert_ok)

lemma mr_incr_assigns:
  assumes "mip_ok n s" "x \<in> dom (bigs s)" "z \<in> dom (bigs s)" "mr_w0 s \<in> dom (bigs s)" "x \<noteq> mr_w0 s"
    and "- (2 ^ 31) \<le> k" "k < 2 ^ 31"
  shows "fits n (num s x + k) \<Longrightarrow> \<exists>t. assigns n (mr_w0 s) k s (Some t) \<and> assigns n z (num s x + k) t (mr_incr x k z s)"
    and "fits n (num s x - k) \<Longrightarrow> \<exists>t. assigns n (mr_w0 s) k s (Some t) \<and> assigns n z (num s x - k) t (mr_decr x k z s)"
proof -
  obtain t where t: "mr_convert k (mr_w0 s) s = Some t" "assigns n (mr_w0 s) k s (Some t)"
    using convert_assigns [OF assms(1,4,6,7)] by (auto simp: assigns_def)
  then have u: "mip_ok n t" "num t x = num s x" "num t (mr_w0 t) = k" "mr_w0 t = mr_w0 s" "dom (bigs t) = dom (bigs s)"
    using assms(5) by (auto simp: assigns_def)
  have in_t: "x \<in> dom (bigs t)" "mr_w0 t \<in> dom (bigs t)" "z \<in> dom (bigs t)" using assms(2-4) u by simp_all
  show "\<exists>t. assigns n (mr_w0 s) k s (Some t) \<and> assigns n z (num s x + k) t (mr_incr x k z s)" if "fits n (num s x + k)"
    using mr_select_assigns [OF u(1) in_t, of PLUS] t u assms(1) that by (auto simp: mr_incr_def mip_ok_def PLUS_def)
  show "\<exists>t. assigns n (mr_w0 s) k s (Some t) \<and> assigns n z (num s x - k) t (mr_decr x k z s)" if "fits n (num s x - k)"
    using mr_select_assigns [OF u(1) in_t, of MINUS] t u assms(1) that by (auto simp: mr_decr_def mip_ok_def MINUS_def)
qed

lemma mr_compare_big_num:
  assumes "mip_ok n s" "x \<in> dom (bigs s)" "y \<in> dom (bigs s)"
  shows "mr_compare_big x y s = Some (sgn (num s x - num s y))"
  using assms by (auto simp: mip_ok_def num_def intro!: mr_compare_big_eq [where n = n])

subsection \<open>The interface\<close>

text \<open>
  What callers rely on: places that hold integers, and operations that assign sums and
  differences that fit, with any of the places the same.
\<close>

locale number_store =
  fixes ok :: "'s \<Rightarrow> bool" and places :: "'s \<Rightarrow> 'p set" and at :: "'s \<Rightarrow> 'p \<Rightarrow> int" and room :: "int \<Rightarrow> bool"
    and add sub :: "'p \<Rightarrow> 'p \<Rightarrow> 'p \<Rightarrow> 's \<Rightarrow> 's option"
  assumes add_law: "ok s \<Longrightarrow> x \<in> places s \<Longrightarrow> y \<in> places s \<Longrightarrow> z \<in> places s \<Longrightarrow> room (at s x + at s y) \<Longrightarrow>
      \<exists>t. add x y z s = Some t \<and> ok t \<and> places t = places s \<and> at t = (at s)(z := at s x + at s y)"
    and sub_law: "ok s \<Longrightarrow> x \<in> places s \<Longrightarrow> y \<in> places s \<Longrightarrow> z \<in> places s \<Longrightarrow> room (at s x - at s y) \<Longrightarrow>
      \<exists>t. sub x y z s = Some t \<and> ok t \<and> places t = places s \<and> at t = (at s)(z := at s x - at s y)"
    and room_at: "ok s \<Longrightarrow> x \<in> places s \<Longrightarrow> room (at s x)"
begin

lemma sub_after_add:
  assumes "ok s" "x \<in> places s" "y \<in> places s" "z \<in> places s" "room (at s x + at s y)" "y \<noteq> z"
  shows "\<exists>t u. add x y z s = Some t \<and> sub z y z t = Some u \<and> ok u \<and> places u = places s \<and> at u = (at s)(z := at s x)"
proof -
  obtain t where t: "add x y z s = Some t" "ok t" "places t = places s" "at t = (at s)(z := at s x + at s y)"
    using add_law [OF assms(1-5)] by blast
  have "at t z - at t y = at s x" "(at t)(z := at s x) = (at s)(z := at s x)" using t(4) assms(6) by simp_all
  with sub_law [of t z y z] t(1-3) assms(3,4) room_at [OF assms(1,2)] show ?thesis by auto
qed

lemma sub_self:
  assumes "ok s" "x \<in> places s" "room 0"
  shows "\<exists>t. sub x x x s = Some t \<and> ok t \<and> places t = places s \<and> at t = (at s)(x := 0)"
  using sub_law [OF assms(1,2,2,2)] assms(3) by simp

end

lemma fits_pow: "fits n v \<longleftrightarrow> \<bar>v\<bar> < 2 ^ (32 * n)"
  by (simp add: fits_def base_def power_mult)

lemma num_fits: "mip_ok n s \<Longrightarrow> x \<in> dom (bigs s) \<Longrightarrow> fits n (num s x)"
proof -
  assume s: "mip_ok n s" "x \<in> dom (bigs s)"
  then obtain b where b: "bigs s x = Some b" "big_ok n b" by (auto simp: mip_ok_def)
  then have "wval (bw b) < base ^ n" using wval_less [of "bw b"] by (simp add: big_ok_len)
  then show ?thesis unfolding fits_def num_def abs_big_val of_nat_less_iff by (simp add: b(1))
qed

interpretation mir: number_store "mip_ok n" "\<lambda>s. dom (bigs s)" num "fits n" mr_add mr_subtract
  using mr_add_assigns num_fits unfolding assigns_def by unfold_locales blast+

lemma mr_subtract_after_add:
  assumes "mip_ok n s" "x \<in> dom (bigs s)" "y \<in> dom (bigs s)" "z \<in> dom (bigs s)" "fits n (num s x + num s y)" "y \<noteq> z"
  shows "\<exists>t u. mr_add x y z s = Some t \<and> mr_subtract z y z t = Some u \<and> mip_ok n u \<and> num u = (num s)(z := num s x)"
  using mir.sub_after_add [OF assms] by blast

subsection \<open>Properties\<close>

text \<open>
  C16: \<open>add\<close> and \<open>subtract\<close> refine addition and subtraction of integers. In a state with the
  invariant they store the sum or difference in \<open>z\<close> whenever it fits in the \<open>n\<close> words of a
  number, leave every other number as it was and keep the invariant; the three numbers may be
  the same, and no access is outside an array.
\<close>

theorem mr_add_refines:
  assumes "mip_ok n s" "x \<in> dom (bigs s)" "y \<in> dom (bigs s)" "z \<in> dom (bigs s)"
  shows "(\<bar>num s x + num s y\<bar> < 2 ^ (32 * n) \<longrightarrow>
      (\<exists>t. mr_add x y z s = Some t \<and> mip_ok n t \<and> num t = (num s)(z := num s x + num s y))) \<and>
    (\<bar>num s x - num s y\<bar> < 2 ^ (32 * n) \<longrightarrow>
      (\<exists>t. mr_subtract x y z s = Some t \<and> mip_ok n t \<and> num t = (num s)(z := num s x - num s y)))"
  using mr_add_assigns [OF assms] unfolding assigns_def fits_pow by blast

definition two_numbers :: miracl where
  "two_numbers = \<lparr>ERNUM = 0, ERCON = True, nib = 2, mr_check = True, mr_w0 = 3, mr_w5 = 3,
     bigs = [1 \<mapsto> \<lparr>blen = 2, bw = [0xFFFFFFFF, 0xFFFFFFFF]\<rparr>,
             2 \<mapsto> \<lparr>blen = 0x80000001, bw = [7, 0]\<rparr>, 3 \<mapsto> \<lparr>blen = 0, bw = [0, 0]\<rparr>]\<rparr>"

lemma two_numbers_ok:
  "mip_ok 2 two_numbers" "{1, 2, 3} \<subseteq> dom (bigs two_numbers)"
  "num two_numbers 1 = 2 ^ 64 - 1" "num two_numbers 2 = - 7"
  by (auto simp: mip_ok_def two_numbers_def NULL_def big_ok_def mlen_def MR_OBITS_def MR_MSBIT_def
      num_def big_val_def mneg_def base_def split: if_splits)

theorem mr_add_refines_witness:
  "\<exists>t. mr_add 1 2 1 two_numbers = Some t \<and> mip_ok 2 t \<and> num t = (num two_numbers)(1 := 2 ^ 64 - 8)"
  using mr_add_refines [OF two_numbers_ok(1), of 1 2 1] two_numbers_ok(2-4) by auto

text \<open>
  C31: a sum that does not fit is reported: the routine sets the error of the library to
  \<open>MR_ERR_OVERFLOW\<close>, only \<open>z\<close> is changed, and from then on addition and subtraction do nothing.
\<close>

theorem mr_add_overflow:
  assumes "mip_ok n s" "x \<in> dom (bigs s)" "y \<in> dom (bigs s)" "z \<in> dom (bigs s)"
    and "2 ^ (32 * n) \<le> \<bar>num s x + num s y\<bar>"
  shows "\<exists>t. mr_add x y z s = Some t \<and> ERNUM t = MR_ERR_OVERFLOW \<and> (\<forall>p. p \<noteq> z \<longrightarrow> bigs t p = bigs s p) \<and>
    mr_add x' y' z' t = Some t \<and> mr_subtract x' y' z' t = Some t \<and> mr_incr x' k z' t = Some t \<and> mr_decr x' k z' t = Some t"
proof -
  have "\<not> fits n (num s x + PLUS * num s y)" using assms(5) by (simp add: fits_pow PLUS_def)
  with mr_select_num [OF assms(1-4), of PLUS] obtain c where
    "mr_select x PLUS y z s = Some ((store_big z c s)\<lparr>ERNUM := MR_ERR_OVERFLOW\<rparr>)" by (auto simp: computes_def fits_def)
  with assms(1) show ?thesis
    by (auto simp: mr_add_def mr_subtract_def mr_incr_def mr_decr_def mip_ok_def MR_ERR_OVERFLOW_def)
qed

theorem mr_add_overflow_witness:
  "\<exists>t. mr_add 1 1 2 two_numbers = Some t \<and> ERNUM t = MR_ERR_OVERFLOW \<and> (\<forall>p. p \<noteq> 2 \<longrightarrow> bigs t p = bigs two_numbers p) \<and>
    mr_add 1 2 3 t = Some t \<and> mr_subtract 1 2 3 t = Some t \<and> mr_incr 1 5 3 t = Some t \<and> mr_decr 1 5 3 t = Some t"
  using mr_add_overflow [OF two_numbers_ok(1), of 1 1 2] two_numbers_ok(2-4) by auto

text \<open>
  \<open>tconvert\<close>, unlike \<open>convert\<close>, does not clear the number first: the words above the first keep
  their old values, the number leaves the normal form, and a later sum is wrong.
\<close>

definition stale_numbers :: miracl where
  "stale_numbers = \<lparr>ERNUM = 0, ERCON = True, nib = 3, mr_check = True, mr_w0 = 4, mr_w5 = 4,
     bigs = [1 \<mapsto> \<lparr>blen = 2, bw = [0, 1, 0]\<rparr>, 2 \<mapsto> \<lparr>blen = 2, bw = [0xFFFFFFFF, 1, 0]\<rparr>,
             3 \<mapsto> \<lparr>blen = 0, bw = [0, 0, 0]\<rparr>]\<rparr>"

lemma tconvert_stale_words:
  "map_option (\<lambda>t. bw (the (bigs t 3))) (mr_convert 5 1 stale_numbers \<bind> mr_add 1 2 3) = Some [4, 2, 0]"
  "map_option (\<lambda>t. bw (the (bigs t 3))) (tconvert 5 1 stale_numbers \<bind> mr_add 1 2 3) = Some [4, 3, 0]"
  by code_simp+

end
