(* ===== verification/SM2_Tests.thy ===== *)
theory SM2_Tests
  imports SM2 Miracl_Add
begin

text \<open>
  The tests of \<^verbatim>\<open>SM2_sv.c\<close> on numbers in the store of MIRACL: \<open>Test_Zero\<close>, \<open>Test_n\<close> and
  \<open>Test_Range\<close> with the temporaries they make on the stack. The theory \<open>SM2\<close> has the same tests on
  integers; the theorem says that the two agree, so that what is proved of signatures over integers
  holds of these tests as they run.
\<close>

subsection \<open>The tests\<close>

text \<open>A number in memory on the stack that the caller has cleared, at the address \<open>p\<close>.\<close>

definition mirvar_mem :: "nat \<Rightarrow> miracl \<Rightarrow> nat \<times> miracl" where
  "mirvar_mem p s = (if ERNUM s \<noteq> 0 then (NULL, s) else (p, store_big p (big_zero (nat (nib s))) s))"

definition big_Test_Zero :: "nat \<Rightarrow> nat \<Rightarrow> miracl \<Rightarrow> (int \<times> miracl) option" where
  "big_Test_Zero p x s = do {
     let (z, s) = mirvar_mem p s;
     s \<leftarrow> mr_zero z s;
     c \<leftarrow> mr_compare_big x z s;
     Some (if c = 0 then 1 else 0, s)
   }"

definition big_Test_n :: "nat \<Rightarrow> nat \<Rightarrow> miracl \<Rightarrow> int option" where
  "big_Test_n n x s = do {
     c \<leftarrow> mr_compare_big x n s;
     Some (if c = 0 then 1 else 0)
   }"

definition big_Test_Range :: "nat \<Rightarrow> nat \<Rightarrow> nat \<Rightarrow> nat \<Rightarrow> miracl \<Rightarrow> (int \<times> miracl) option" where
  "big_Test_Range n p q x s = do {
     let (one, s) = mirvar_mem p s;
     let (decr_n, s) = mirvar_mem q s;
     s \<leftarrow> mr_convert 1 one s;
     s \<leftarrow> mr_decr n 1 decr_n s;
     c \<leftarrow> mr_compare_big x one s;
     d \<leftarrow> mr_compare_big x decr_n s;
     Some (if c < 0 \<or> d > 0 then 1 else 0, s)
   }"

subsection \<open>Agreement with the tests on integers\<close>

lemma mirvar_mem_ok:
  assumes "mip_ok k s" "p \<noteq> NULL"
  shows "mirvar_mem p s = (p, store_big p (big_zero k) s)" "mip_ok k (store_big p (big_zero k) s)"
  using assms by (auto simp: mirvar_mem_def mip_ok_def)

lemma num_store_big: "num (store_big p (big_zero k) s) = (num s)(p := 0)"
  by (auto simp: num_def)

lemma dom_store_big [simp]: "dom (bigs (store_big p b s)) = insert p (dom (bigs s))"
  by (auto simp: store_big_def)

lemma big_Test_Zero_eq:
  assumes "mip_ok k s" "x \<in> dom (bigs s)" "p \<notin> dom (bigs s)" "p \<noteq> NULL"
  shows "\<exists>t. big_Test_Zero p x s = Some (if Test_Zero (num s x) then 1 else 0, t) \<and> mip_ok k t \<and>
    (\<forall>v \<in> dom (bigs s). num t v = num s v)"
proof -
  let ?s = "store_big p (big_zero k) s"
  note s = mirvar_mem_ok [OF assms(1,4)]
  have z: "mr_zero p ?s = Some ?s" using mr_zero_eq [of ?s p "big_zero k" k] assms(4) by simp
  have "x \<noteq> p" using assms(2,3) by auto
  then have "mr_compare_big x p ?s = Some (sgn (num s x))"
    using mr_compare_big_num [OF s(2), of x p] assms(2) by (simp add: num_store_big)
  then show ?thesis
    using s z assms(3) by (auto simp: big_Test_Zero_def Test_Zero_def num_store_big sgn_0_0)
qed

lemma big_Test_n_eq:
  assumes "mip_ok k s" "x \<in> dom (bigs s)" "n \<in> dom (bigs s)" "num s n = big_n"
  shows "big_Test_n n x s = Some (if Test_n (num s x) then 1 else 0)"
  using mr_compare_big_num [OF assms(1-3)] assms(4) by (simp add: big_Test_n_def Test_n_def sgn_0_0)

lemma big_Test_Range_eq:
  assumes "mip_ok k s" "x \<in> dom (bigs s)" "n \<in> dom (bigs s)" "num s n = big_n" "mr_w0 s \<in> dom (bigs s)"
    and "x \<noteq> mr_w0 s" "n \<noteq> mr_w0 s" "p \<notin> dom (bigs s)" "q \<notin> dom (bigs s)" "p \<noteq> q" "p \<noteq> NULL" "q \<noteq> NULL"
  shows "\<exists>t. big_Test_Range n p q x s = Some (if Test_Range (num s x) then 1 else 0, t) \<and> mip_ok k t \<and>
    (\<forall>v \<in> dom (bigs s) - {mr_w0 s}. num t v = num s v)"
proof -
  define s1 where "s1 = store_big q (big_zero k) (store_big p (big_zero k) s)"
  note m = mirvar_mem_ok [OF assms(1,11)]
  have s1: "mip_ok k s1" "num s1 = (num s)(p := 0, q := 0)" "dom (bigs s1) = {p, q} \<union> dom (bigs s)" "mr_w0 s1 = mr_w0 s"
    and q: "mirvar_mem q (store_big p (big_zero k) s) = (q, s1)"
    using mirvar_mem_ok [OF m(2) assms(12)] by (auto simp: s1_def num_store_big)
  have fr: "n \<noteq> p" "n \<noteq> q" "x \<noteq> p" "x \<noteq> q" "mr_w0 s \<noteq> p" "mr_w0 s \<noteq> q" using assms by auto
  obtain s2 where s2: "mr_convert 1 p s1 = Some s2" "mip_ok k s2" "num s2 = (num s1)(p := 1)" "dom (bigs s2) = dom (bigs s1)"
    "mr_w0 s2 = mr_w0 s1"
    using convert_assigns [OF s1(1), of p 1] s1(3) by (auto simp: assigns_def)
  have nn: "num s2 n = big_n" using s1(2) s2(3) fr assms(4) by simp
  have "fits k (num s n)" by (rule num_fits) fact+
  then have "fits k (num s2 n - 1)" using nn assms(4) big_n_pos by (simp add: fits_def)
  then obtain s3 where s3: "mr_decr n 1 q s2 = Some s3" "mip_ok k s3" "num s3 = (num s2)(mr_w0 s := 1, q := big_n - 1)"
    "dom (bigs s3) = dom (bigs s1)"
    using mr_incr_assigns(2) [OF s2(2), of n q 1] s1 s2 nn assms(3,5,7) by (auto simp: assigns_def)
  have c: "mr_compare_big x p s3 = Some (sgn (num s x - 1))" "mr_compare_big x q s3 = Some (sgn (num s x - (big_n - 1)))"
    using mr_compare_big_num [OF s3(2), of x p] mr_compare_big_num [OF s3(2), of x q] s1 s2 s3 fr assms(2,6,10) by auto
  have "big_Test_Range n p q x s = Some (if Test_Range (num s x) then 1 else 0, s3)"
    using m(1) q s2(1) s3(1) c by (simp add: big_Test_Range_def Test_Range_def sgn_if)
  moreover have "\<forall>v \<in> dom (bigs s) - {mr_w0 s}. num s3 v = num s v" using s1(2) s2(3) s3(3) assms(8,9) by auto
  ultimately show ?thesis using s3(2) by blast
qed

text \<open>The comparison of digits the random numbers use is the one of the store on positive numbers.\<close>

lemma compare_loop_digits:
  assumes "bigs s x = Some a" "bigs s y = Some b" "m \<le> length (bw a)" "m \<le> length (bw b)"
  shows "compare_loop x y 1 m s = Some (compare_digits (rev (take m (bw a))) (rev (take m (bw b))))"
  using assms(3,4) by (induction m) (simp_all add: rd_some assms(1,2) take_Suc_conv_app_nth)

lemma mr_compare_words:
  assumes "bigs s x = Some a" "bigs s y = Some b" "big_ok k a" "big_ok k b" "\<not> mneg a" "\<not> mneg b" "x \<noteq> y"
  shows "mr_compare_big x y s = Some (mr_compare (take (mlen a) (bw a)) (take (mlen b) (bw b)))"
proof -
  have "length (take (mlen a) (bw a)) = mlen a" "length (take (mlen b) (bw b)) = mlen b"
    using assms(3,4) by (simp_all add: big_ok_len)
  moreover have "mr_compare_big x y s = (if mlen a > mlen b then Some 1 else if mlen a < mlen b then Some (- 1)
      else compare_loop x y 1 (mlen a) s)"
    using assms by (simp add: mr_compare_big_def get_len_some mneg_def mlen_def [symmetric] PLUS_def)
  ultimately show ?thesis
    using compare_loop_digits [OF assms(1,2), of "mlen a"] assms(3,4) by (auto simp: mr_compare_def big_ok_len)
qed

subsection \<open>Properties\<close>

text \<open>
  C17: the tests of \<open>SM2_sv.c\<close>, run on numbers in the store of MIRACL with the order of the curve in
  \<open>n\<close>, return what the tests on integers that \<open>SM2_Sign\<close> and \<open>SM2_Verify\<close> are modelled with say of
  the value of their argument. They access no memory outside the numbers, and change no number of the
  caller; \<open>Test_Range\<close> uses the scratch number \<open>w0\<close> of the library.
\<close>

theorem SM2_tests_agree:
  assumes "mip_ok k s" "x \<in> dom (bigs s)" "n \<in> dom (bigs s)" "num s n = big_n" "mr_w0 s \<in> dom (bigs s)"
    and "x \<noteq> mr_w0 s" "n \<noteq> mr_w0 s" "p \<notin> dom (bigs s)" "q \<notin> dom (bigs s)" "p \<noteq> q" "p \<noteq> NULL" "q \<noteq> NULL"
  shows "(\<exists>t. big_Test_Zero p x s = Some (if Test_Zero (num s x) then 1 else 0, t) \<and>
      (\<forall>v \<in> dom (bigs s). num t v = num s v)) \<and>
    big_Test_n n x s = Some (if Test_n (num s x) then 1 else 0) \<and>
    (\<exists>t. big_Test_Range n p q x s = Some (if Test_Range (num s x) then 1 else 0, t) \<and>
      (\<forall>v \<in> dom (bigs s) - {mr_w0 s}. num t v = num s v))"
  using big_Test_Zero_eq [OF assms(1,2,8,11)] big_Test_n_eq [OF assms(1-4)] big_Test_Range_eq [OF assms] by blast

text \<open>The order and the number 5, with the 17 words that \<open>mirsys(128, 16)\<close> gives a number.\<close>

definition order_and_five :: miracl where
  "order_and_five = \<lparr>ERNUM = 0, ERCON = True, nib = 17, mr_check = True, mr_w0 = 3, mr_w5 = 3,
     bigs = [1 \<mapsto> \<lparr>blen = 8, bw = [0x39D54123, 0x53BBF409, 0x21C6052B, 0x7203DF6B,
                 0xFFFFFFFF, 0xFFFFFFFF, 0xFFFFFFFF, 0xFFFFFFFE] @ replicate 9 0\<rparr>,
             2 \<mapsto> \<lparr>blen = 1, bw = 5 # replicate 16 0\<rparr>, 3 \<mapsto> \<lparr>blen = 0, bw = replicate 17 0\<rparr>]\<rparr>"

lemma order_and_five_ok:
  "mip_ok 17 order_and_five" "dom (bigs order_and_five) = {1, 2, 3}"
  "num order_and_five 1 = big_n" "num order_and_five 2 = 5" "mr_w0 order_and_five = 3"
  by (auto simp: mip_ok_def order_and_five_def NULL_def big_ok_def mlen_def MR_OBITS_def MR_MSBIT_def
      num_def big_val_def mneg_def wval_append base_def big_n_val split: if_splits)

theorem SM2_tests_agree_witness:
  "(\<exists>t. big_Test_Zero 4 2 order_and_five = Some (0, t) \<and> num t 2 = 5) \<and>
   big_Test_n 1 2 order_and_five = Some 0 \<and>
   (\<exists>t. big_Test_Range 1 4 5 2 order_and_five = Some (0, t) \<and> num t 2 = 5)"
  using SM2_tests_agree [OF order_and_five_ok(1), of 2 1 4 5] order_and_five_ok(2-5)
  by (auto simp: NULL_def Test_Zero_def Test_n_def Test_Range_def big_n_val)

end
