(* ===== verification/Miracl_Mul.thy ===== *)
theory Miracl_Mul
  imports Miracl_Add
begin

text \<open>
  Multiplication of MIRACL numbers, the routine \<open>multiply\<close> of \<^verbatim>\<open>lib/gm/source/miracl/mrarth2.c\<close> as
  compiled without assembler: rows of products of words into a scratch number, with a shorter
  way for squares of more than five words, which forms the products above the diagonal once,
  doubles them and adds the squares of the words. The theorems say that both ways give the product
  of integers, and that the check of the lengths keeps every access inside the arrays.
\<close>

subsection \<open>The routine\<close>

definition SQR_FASTER_THRESHOLD :: nat where "SQR_FASTER_THRESHOLD = 5"

text \<open>A product of words plus two words, in a double word; its lower and upper halves.\<close>

definition dble :: "u32 \<Rightarrow> u32 \<Rightarrow> u32 \<Rightarrow> u32 \<Rightarrow> u64" where
  "dble a b c d = ucast a * ucast b + ucast c + ucast d"

definition dbot :: "u64 \<Rightarrow> u32" where "dbot d = ucast d"
definition dtop :: "u64 \<Rightarrow> u32" where "dtop d = ucast (drop_bit 32 d)"

definition mul_step :: "nat \<Rightarrow> nat \<Rightarrow> nat \<Rightarrow> nat \<Rightarrow> nat \<Rightarrow> u32 \<times> miracl \<Rightarrow> (u32 \<times> miracl) option" where
  "mul_step x y w0 i j = (\<lambda>(carry, s). do {
     a \<leftarrow> rd x i s;
     b \<leftarrow> rd y j s;
     d \<leftarrow> rd w0 (i + j) s;
     let dd = dble a b carry d;
     s \<leftarrow> wr w0 (i + j) (dbot dd) s;
     Some (dtop dd, s)
   })"

text \<open>A row of the product: the words of \<open>y\<close> from \<open>j\<close> to \<open>yl\<close> times word \<open>i\<close> of \<open>x\<close>.\<close>

definition mul_row :: "nat \<Rightarrow> nat \<Rightarrow> nat \<Rightarrow> nat \<Rightarrow> nat \<Rightarrow> nat \<Rightarrow> miracl \<Rightarrow> miracl option" where
  "mul_row x y w0 i j yl s = do {
     (carry, s) \<leftarrow> for_up j yl (mul_step x y w0 i) (0, s);
     wr w0 (yl + i) carry s
   }"

definition sqr_step :: "nat \<Rightarrow> nat \<Rightarrow> nat \<Rightarrow> u32 \<times> miracl \<Rightarrow> (u32 \<times> miracl) option" where
  "sqr_step x w0 i = (\<lambda>(carry, s). do {
     let ti = i + i;
     a \<leftarrow> rd x i s;
     d \<leftarrow> rd w0 ti s;
     let dd = dble a a carry d;
     s \<leftarrow> wr w0 ti (dbot dd) s;
     let carry = dtop dd;
     e \<leftarrow> rd w0 (ti + 1) s;
     s \<leftarrow> wr w0 (ti + 1) (e + carry) s;
     Some (if e + carry < carry then 1 else 0, s)
   })"

definition mr_square :: "nat \<Rightarrow> nat \<Rightarrow> nat \<Rightarrow> miracl \<Rightarrow> miracl option" where
  "mr_square x w0 xl s = do {
     s \<leftarrow> for_up 0 (xl - 1) (\<lambda>i. mul_row x x w0 i (i + 1) xl) s;
     s \<leftarrow> set_len w0 (of_nat (xl + xl - 1)) s;
     s \<leftarrow> mr_padd w0 w0 w0 s;
     (carry, s) \<leftarrow> for_up 0 xl (sqr_step x w0) (0, s);
     Some s
   }"

definition mr_multiply :: "nat \<Rightarrow> nat \<Rightarrow> nat \<Rightarrow> miracl \<Rightarrow> miracl option" where
  "mr_multiply x y z s =
     (if ERNUM s \<noteq> 0 then Some s
      else do {
        ly \<leftarrow> get_len y s;
        lx \<leftarrow> get_len x s;
        if ly = 0 \<or> lx = 0 then mr_zero z s
        else do {
          let w0 = (if x \<noteq> mr_w5 s \<and> y \<noteq> mr_w5 s \<and> z = mr_w5 s then mr_w5 s else mr_w0 s);
          let sz = (lx AND MR_MSBIT) XOR (ly AND MR_MSBIT);
          let xl = unat (lx AND MR_OBITS);
          let yl = unat (ly AND MR_OBITS);
          s \<leftarrow> mr_zero w0 s;
          if mr_check s \<and> int (xl + yl) > nib s then Some (mr_berror MR_ERR_OVERFLOW s)
          else do {
            s \<leftarrow> (if x = y \<and> xl > SQR_FASTER_THRESHOLD then mr_square x w0 xl s
                 else for_up 0 xl (\<lambda>i. mul_row x y w0 i 0 yl) s);
            s \<leftarrow> set_len w0 (sz OR of_nat (xl + yl)) s;
            s \<leftarrow> mr_lzero w0 s;
            mr_copy w0 z s
          }
        }
      })"

subsection \<open>Double words\<close>

lemma unat_dble: "unat (dble a b c d) = unat a * unat b + unat c + unat d"
proof -
  have "unat a \<le> 2 ^ 32 - 1" "unat b \<le> 2 ^ 32 - 1" "unat c \<le> 2 ^ 32 - 1" "unat d \<le> 2 ^ 32 - 1"
    using unat_less_base [of a] unat_less_base [of b] unat_less_base [of c] unat_less_base [of d] by (simp_all add: base_def)
  then have "unat a * unat b \<le> (2 ^ 32 - 1) * (2 ^ 32 - 1)" "unat c \<le> 2 ^ 32 - 1" "unat d \<le> 2 ^ 32 - 1"
    by (simp_all only: mult_le_mono)
  moreover have "unat (ucast v :: u64) = unat v" for v :: u32
    using unat_less_base [of v] by (simp add: unsigned_ucast_eq take_bit_nat_eq_self base_def del: unat_less_base)
  ultimately show ?thesis by (simp add: dble_def unat_word_ariths)
qed

lemma halves: "unat (dbot d) + base * unat (dtop d) = unat d"
proof -
  have "unat d < 2 ^ 64" using unsigned_less [of d] by simp
  moreover have "unat (drop_bit 32 d) = unat d div 2 ^ 32"
    by (simp add: drop_bit_eq_div unat_div)
  ultimately have "unat (dtop d) = unat d div 2 ^ 32" "unat (dbot d) = unat d mod 2 ^ 32"
    by (simp_all only: dbot_def dtop_def unsigned_ucast_eq take_bit_eq_mod) simp_all
  then show ?thesis by (simp add: base_def)
qed

subsection \<open>Rows\<close>

definition row_upto :: "nat \<Rightarrow> nat \<Rightarrow> nat \<Rightarrow> bigtype \<Rightarrow> bigtype \<Rightarrow> nat \<Rightarrow> miracl \<Rightarrow> nat \<Rightarrow> nat \<Rightarrow> u32 \<times> miracl \<Rightarrow> bool" where
  "row_upto n i m b c w0 s k j = (\<lambda>(carry, t).
     \<exists>ws. t = store_big w0 (c\<lparr>bw := ws\<rparr>) s \<and> length ws = n \<and> drop (i + j) ws = drop (i + j) (bw c) \<and>
       wval (take (i + j) ws) + base ^ (i + j) * unat carry + m * base ^ i * wval (take k (bw b)) =
       wval (take (i + j) (bw c)) + m * base ^ i * wval (take j (bw b)))"

lemma mul_step_row:
  assumes "bigs s x = Some a" "bigs s y = Some b" "bigs s w0 = Some c" "w0 \<noteq> x" "w0 \<noteq> y" "length (bw c) = n"
    and "i < length (bw a)" "j < length (bw b)" "i + j < n" "row_upto n i (unat (bw a ! i)) b c w0 s k j r"
  shows "\<exists>r'. mul_step x y w0 i j r = Some r' \<and> row_upto n i (unat (bw a ! i)) b c w0 s k (Suc j) r'"
proof -
  obtain carry t where r: "r = (carry, t)" by force
  let ?m = "unat (bw a ! i)"
  from assms(10) obtain ws where ws: "t = store_big w0 (c\<lparr>bw := ws\<rparr>) s" "length ws = n"
    "drop (i + j) ws = drop (i + j) (bw c)"
    "wval (take (i + j) ws) + base ^ (i + j) * unat carry + ?m * base ^ i * wval (take k (bw b)) =
       wval (take (i + j) (bw c)) + ?m * base ^ i * wval (take j (bw b))"
    by (auto simp: row_upto_def r)
  have nth: "ws ! (i + j) = bw c ! (i + j)"
    using ws(2,3) assms(6,9) by (metis hd_drop_conv_nth)
  define d where "d = dble (bw a ! i) (bw b ! j) carry (bw c ! (i + j))"
  have h: "unat (dbot d) + base * unat (dtop d) = ?m * unat (bw b ! j) + unat carry + unat (bw c ! (i + j))"
    by (simp add: halves d_def unat_dble)
  have "wval (take (Suc (i + j)) (ws[i + j := dbot d])) + base ^ Suc (i + j) * unat (dtop d) + ?m * base ^ i * wval (take k (bw b))
      = wval (take (i + j) ws) + base ^ (i + j) * (unat (dbot d) + base * unat (dtop d)) + ?m * base ^ i * wval (take k (bw b))"
    using ws(2) assms(9) by (simp add: wval_take_Suc algebra_simps)
  also have "\<dots> = (wval (take (i + j) ws) + base ^ (i + j) * unat carry + ?m * base ^ i * wval (take k (bw b)))
      + base ^ (i + j) * (?m * unat (bw b ! j) + unat (bw c ! (i + j)))"
    unfolding h by (simp add: algebra_simps)
  also have "\<dots> = wval (take (Suc (i + j)) (bw c)) + ?m * base ^ i * wval (take (Suc j) (bw b))"
    unfolding ws(4) using assms(6,8,9) by (simp add: wval_take_Suc algebra_simps power_add)
  finally have sum: "wval (take (Suc (i + j)) (ws[i + j := dbot d])) + base ^ Suc (i + j) * unat (dtop d)
      + ?m * base ^ i * wval (take k (bw b)) = wval (take (Suc (i + j)) (bw c)) + ?m * base ^ i * wval (take (Suc j) (bw b))" .
  have "drop (Suc (i + j)) (ws[i + j := dbot d]) = drop (Suc (i + j)) (bw c)"
    using ws(3) by (metis drop_Suc drop_update_cancel lessI tl_drop)
  moreover have "mul_step x y w0 i j r = Some (dtop d, store_big w0 (c\<lparr>bw := ws[i + j := dbot d]\<rparr>) s)"
    using assms ws(1,2) nth
    by (simp add: mul_step_def r rd_some d_def Let_def wr_store_big [where b = "c\<lparr>bw := ws\<rparr>"] rd_some [where b = "c\<lparr>bw := ws\<rparr>"])
  ultimately show ?thesis using sum ws(2) by (auto simp: row_upto_def)
qed

lemma mul_row_ok:
  assumes "bigs s x = Some a" "bigs s y = Some b" "bigs s w0 = Some c" "w0 \<noteq> x" "w0 \<noteq> y" "length (bw c) = n"
    and "i < length (bw a)" "yl \<le> length (bw b)" "k \<le> yl" "yl + i < n" "drop (yl + i) (bw c) = replicate (n - (yl + i)) 0"
  shows "\<exists>ws. mul_row x y w0 i k yl s = Some (store_big w0 (c\<lparr>bw := ws\<rparr>) s) \<and> length ws = n \<and>
    drop (Suc (yl + i)) ws = replicate (n - Suc (yl + i)) 0 \<and>
    wval ws + unat (bw a ! i) * base ^ i * wval (take k (bw b)) = wval (bw c) + unat (bw a ! i) * base ^ i * wval (take yl (bw b))"
proof -
  let ?m = "unat (bw a ! i)"
  have "\<exists>r. for_up k yl (mul_step x y w0 i) (0, s) = Some r \<and> row_upto n i ?m b c w0 s k yl r"
  proof (rule for_up_inv)
    show "row_upto n i ?m b c w0 s k k (0, s)" using assms(3,6) by (auto simp: row_upto_def store_big_same intro!: exI [of _ "bw c"])
    show "\<exists>u. mul_step x y w0 i j t = Some u \<and> row_upto n i ?m b c w0 s k (Suc j) u"
      if "k \<le> j" "j < yl" "row_upto n i ?m b c w0 s k j t" for j t
      using that assms(8,10) by (intro mul_step_row [OF assms(1-7)]) simp_all
  qed fact
  then obtain carry ws where r: "for_up k yl (mul_step x y w0 i) (0, s) = Some (carry, store_big w0 (c\<lparr>bw := ws\<rparr>) s)"
    and ws: "length ws = n" "drop (yl + i) ws = drop (yl + i) (bw c)"
      "wval (take (yl + i) ws) + base ^ (yl + i) * unat carry + ?m * base ^ i * wval (take k (bw b)) =
       wval (take (yl + i) (bw c)) + ?m * base ^ i * wval (take yl (bw b))"
    by (auto simp: row_upto_def add.commute)
  have z: "drop (yl + i) ws = replicate (n - (yl + i)) 0" using ws(2) assms(11) by simp
  have "wval ws = wval (take (yl + i) ws)" "wval (bw c) = wval (take (yl + i) (bw c))"
    using wval_split [of "yl + i" ws] wval_split [of "yl + i" "bw c"] ws(1) z assms(6,10,11) by simp_all
  then have "wval (ws[yl + i := carry]) + ?m * base ^ i * wval (take k (bw b)) = wval (bw c) + ?m * base ^ i * wval (take yl (bw b))"
    using carry_word(1) [OF ws(1) assms(10) z, of carry] ws(3) by simp
  moreover have "mul_row x y w0 i k yl s = Some (store_big w0 (c\<lparr>bw := ws[yl + i := carry]\<rparr>) s)"
    using r ws(1) assms(10) by (simp add: mul_row_def wr_store_big [where b = "c\<lparr>bw := ws\<rparr>"])
  ultimately show ?thesis using carry_word(2) [OF ws(1) assms(10) z, of carry] ws(1) by auto
qed

lemma mul_rows_ok:
  assumes "bigs s x = Some a" "bigs s y = Some b" "bigs s w0 = Some c" "w0 \<noteq> x" "w0 \<noteq> y" "bw c = replicate n 0"
    and "xl \<le> length (bw a)" "yl \<le> length (bw b)" "xl + yl \<le> n"
  shows "\<exists>ws. for_up 0 xl (\<lambda>i. mul_row x y w0 i 0 yl) s = Some (store_big w0 (c\<lparr>bw := ws\<rparr>) s) \<and> length ws = n \<and>
    drop (xl + yl) ws = replicate (n - (xl + yl)) 0 \<and> wval ws = wval (take xl (bw a)) * wval (take yl (bw b))"
proof -
  define P where "P i t \<longleftrightarrow> (\<exists>ws. t = store_big w0 (c\<lparr>bw := ws\<rparr>) s \<and> length ws = n \<and> drop (yl + i) ws = replicate (n - (yl + i)) 0 \<and>
    wval ws = wval (take i (bw a)) * wval (take yl (bw b)))" for i t
  have "\<exists>t. for_up 0 xl (\<lambda>i. mul_row x y w0 i 0 yl) s = Some t \<and> P xl t"
  proof (rule for_up_inv)
    show "P 0 s" using assms(3,6) by (auto simp: P_def store_big_same intro!: exI [of _ "bw c"])
    fix i t assume i: "0 \<le> i" "i < xl" "P i t"
    then obtain ws where ws: "t = store_big w0 (c\<lparr>bw := ws\<rparr>) s" "length ws = n" "drop (yl + i) ws = replicate (n - (yl + i)) 0"
      "wval ws = wval (take i (bw a)) * wval (take yl (bw b))" by (auto simp: P_def)
    obtain vs where vs: "mul_row x y w0 i 0 yl t = Some (store_big w0 (c\<lparr>bw := vs\<rparr>) s)" "length vs = n"
      "drop (Suc (yl + i)) vs = replicate (n - Suc (yl + i)) 0"
      "wval vs = wval ws + unat (bw a ! i) * base ^ i * wval (take yl (bw b))"
      using mul_row_ok [of t x a y b w0 "c\<lparr>bw := ws\<rparr>" n i yl 0] assms i ws by auto
    have "wval vs = wval (take (Suc i) (bw a)) * wval (take yl (bw b))"
      using vs(4) ws(4) i assms(7) by (simp add: wval_take_Suc algebra_simps)
    with vs show "\<exists>u. mul_row x y w0 i 0 yl t = Some u \<and> P (Suc i) u" by (auto simp: P_def)
  qed simp
  then show ?thesis by (auto simp: P_def add.commute)
qed

subsection \<open>Squares\<close>

text \<open>With \<open>P\<close> the products on and below the diagonal and \<open>S\<close> the squares, \<open>2 P = v\<^sup>2 + S\<close>.\<close>

definition lower_products :: "u32 list \<Rightarrow> nat \<Rightarrow> nat" where
  "lower_products ws k = (\<Sum>i<k. unat (ws ! i) * base ^ i * wval (take (Suc i) ws))"

definition word_squares :: "u32 list \<Rightarrow> nat \<Rightarrow> nat" where
  "word_squares ws k = (\<Sum>i<k. (unat (ws ! i) * base ^ i)\<^sup>2)"

lemma twice_lower: "k \<le> length ws \<Longrightarrow> 2 * lower_products ws k = (wval (take k ws))\<^sup>2 + word_squares ws k"
proof (induction k)
  case (Suc k)
  then show ?case by (simp add: lower_products_def word_squares_def wval_take_Suc power2_eq_square algebra_simps)
qed (simp add: lower_products_def word_squares_def)

lemma upper_rows_ok:
  assumes "bigs s x = Some a" "bigs s w0 = Some c" "w0 \<noteq> x" "bw c = replicate n 0"
    and "xl \<le> length (bw a)" "0 < xl" "xl + xl \<le> n"
  shows "\<exists>ws. for_up 0 (xl - 1) (\<lambda>i. mul_row x x w0 i (i + 1) xl) s = Some (store_big w0 (c\<lparr>bw := ws\<rparr>) s) \<and> length ws = n \<and>
    drop (xl + xl - 1) ws = replicate (n - (xl + xl - 1)) 0 \<and>
    2 * wval ws + word_squares (bw a) xl = (wval (take xl (bw a)))\<^sup>2"
proof -
  let ?X = "wval (take xl (bw a))"
  define P where "P i t \<longleftrightarrow> (\<exists>ws. t = store_big w0 (c\<lparr>bw := ws\<rparr>) s \<and> length ws = n \<and> drop (xl + i) ws = replicate (n - (xl + i)) 0 \<and>
    wval ws + lower_products (bw a) i = wval (take i (bw a)) * ?X)" for i t
  have "\<exists>t. for_up 0 (xl - 1) (\<lambda>i. mul_row x x w0 i (i + 1) xl) s = Some t \<and> P (xl - 1) t"
  proof (rule for_up_inv)
    show "P 0 s" using assms(2,4) by (auto simp: P_def store_big_same lower_products_def intro!: exI [of _ "bw c"])
    fix i t assume i: "0 \<le> i" "i < xl - 1" "P i t"
    then obtain ws where ws: "t = store_big w0 (c\<lparr>bw := ws\<rparr>) s" "length ws = n" "drop (xl + i) ws = replicate (n - (xl + i)) 0"
      "wval ws + lower_products (bw a) i = wval (take i (bw a)) * ?X" by (auto simp: P_def)
    have "Suc i \<le> xl" using i(2) by linarith
    then obtain vs where vs: "mul_row x x w0 i (i + 1) xl t = Some (store_big w0 (c\<lparr>bw := vs\<rparr>) s)" "length vs = n"
      "drop (Suc (xl + i)) vs = replicate (n - Suc (xl + i)) 0"
      "wval vs + unat (bw a ! i) * base ^ i * wval (take (Suc i) (bw a)) = wval ws + unat (bw a ! i) * base ^ i * ?X"
      using mul_row_ok [of t x a x a w0 "c\<lparr>bw := ws\<rparr>" n i xl "i + 1"] assms i ws by auto
    have "wval vs + lower_products (bw a) (Suc i) = wval (take (Suc i) (bw a)) * ?X"
      using vs(4) ws(4) i assms(5) by (simp add: lower_products_def wval_take_Suc algebra_simps)
    with vs show "\<exists>u. mul_row x x w0 i (i + 1) xl t = Some u \<and> P (Suc i) u" by (auto simp: P_def)
  qed simp
  then obtain ws where ws: "for_up 0 (xl - 1) (\<lambda>i. mul_row x x w0 i (i + 1) xl) s = Some (store_big w0 (c\<lparr>bw := ws\<rparr>) s)"
    "length ws = n" "drop (xl + xl - 1) ws = replicate (n - (xl + xl - 1)) 0"
    "wval ws + lower_products (bw a) (xl - 1) = wval (take (xl - 1) (bw a)) * ?X" using assms(6) by (auto simp: P_def)
  obtain k where k: "xl = Suc k" using assms(6) gr0_conv_Suc by blast
  have "wval ws + lower_products (bw a) xl = ?X * ?X"
    using ws(4) k assms(5) by (simp add: lower_products_def wval_take_Suc algebra_simps)
  with twice_lower [OF assms(5)] have "2 * wval ws + word_squares (bw a) xl = ?X\<^sup>2"
    by (simp add: power2_eq_square)
  with ws show ?thesis by blast
qed

text \<open>\<open>mr_padd(w0, w0, w0)\<close> doubles, whatever the length says of leading zeros.\<close>

lemma padd_double:
  assumes "bigs s w = Some c" "blen c = of_nat m" "m < n" "n < 2 ^ 31" "length (bw c) = n" "drop m (bw c) = replicate (n - m) 0"
    and "nib s = int n" "mr_check s"
  shows "\<exists>l ws. mr_padd w w w s = Some (store_big w \<lparr>blen = l, bw = ws\<rparr> s) \<and> length ws = n \<and> wval ws = 2 * wval (bw c)"
proof -
  define lw where "lw = (of_nat (Suc m) :: u32)"
  let ?d = "\<lparr>blen = lw, bw = bw c\<rparr>"
  let ?s = "store_big w ?d s"
  have c: "\<not> mneg c" "mlen c = m"
    using mneg_of_nat [of m c] mlen_of_nat [of m c] assms(2-4) by (cases c; simp)+
  have start: "mr_padd w w w s = padd_sum w w w (int m) (int m) ?s"
    using padd_start [OF assms(1,7,8), of m "padd_sum w w w (int m) (int m)"] assms(1,3) sint_len [OF c(1)] c(2)
    by (simp add: mr_padd_def get_len_some lw_def del: of_int_of_nat_eq)
  have skip: "wval (drop e (bw ?d)) = wval (drop e (bw ?d)) + wval (drop e (bw ?d))" if "m \<le> e" for e
    using arg_cong [OF assms(6), of "drop (e - m)"] that by simp
  obtain r i carry ws where l: "for_up 0 m (padd_column w w w) (0, ?s) = Some r"
      "padd_carry w w w m m (fst r) (snd r) = Some (i, carry, store_big w (?d\<lparr>bw := ws\<rparr>) ?s)"
    and ws: "length ws = n" "i \<le> m" "carry = 0 \<or> carry = 1 \<and> i = m" "drop i ws = drop i (bw ?d)"
      "wval ws + base ^ i * unat carry = wval (bw ?d) + wval (bw ?d)"
    using padd_loops [of ?s w ?d w ?d w ?d n m m] skip assms(3,5) by (metis bigs_store_big bigtype.select_convs(2) less_imp_le_nat order_refl)
  have z: "drop m ws = replicate (n - m) 0"
    using arg_cong [OF ws(4), of "drop (m - i)"] ws(2) assms(6) by simp
  let ?v = "if carry = 0 then ws else ws[m := 1]"
  have u: "unat (lw - 1) = m" using assms(3,4) by (simp add: lw_def unat_of_nat)
  have "wval ?v = 2 * wval (bw c)" using ws(3,5) carry_word(1) [OF ws(1) assms(3) z, of 1] by auto
  moreover have "\<exists>l. padd_sum w w w (int m) (int m) ?s = Some (store_big w \<lparr>blen = l, bw = ?v\<rparr> s)"
    using ws(1,3) assms(3,7,8) u
    by (auto simp: padd_sum_def l case_prod_beta store_simps wr_store_big [where b = "\<lparr>blen = _, bw = ws\<rparr>"])
  moreover have "length ?v = n" using ws(1) by simp
  ultimately show ?thesis unfolding start by blast
qed

lemma word_sum: "unat (e + h :: u32) + base * unat (if e + h < h then 1 else 0 :: u32) = unat e + unat h"
proof -
  have l: "unat e < base" "unat h < base" by simp_all
  have "unat (e + h) = (unat e + unat h) mod base" by (simp add: base_def unat_word_ariths)
  then have "unat (e + h) = (if unat e + unat h < base then unat e + unat h else unat e + unat h - base)"
    using l by (auto simp: le_mod_geq mod_less simp del: unat_less_base)
  then show ?thesis using l by (auto simp: word_less_nat_alt simp del: unat_less_base)
qed

definition sqr_upto :: "nat \<Rightarrow> u32 list \<Rightarrow> bigtype \<Rightarrow> nat \<Rightarrow> miracl \<Rightarrow> nat \<Rightarrow> u32 \<times> miracl \<Rightarrow> bool" where
  "sqr_upto n xs c w0 s i = (\<lambda>(carry, t).
     \<exists>ws. t = store_big w0 (c\<lparr>bw := ws\<rparr>) s \<and> length ws = n \<and> drop (i + i) ws = drop (i + i) (bw c) \<and>
       wval (take (i + i) ws) + base ^ (i + i) * unat carry = wval (take (i + i) (bw c)) + word_squares xs i)"

lemma sqr_step_upto:
  assumes "bigs s x = Some a" "bigs s w0 = Some c" "w0 \<noteq> x" "length (bw c) = n" "i < length (bw a)" "i + i + 1 < n"
    and "sqr_upto n (bw a) c w0 s i r"
  shows "\<exists>r'. sqr_step x w0 i r = Some r' \<and> sqr_upto n (bw a) c w0 s (Suc i) r'"
proof -
  obtain carry t where r: "r = (carry, t)" by force
  let ?k = "i + i"
  from assms(7) obtain ws where ws: "t = store_big w0 (c\<lparr>bw := ws\<rparr>) s" "length ws = n" "drop ?k ws = drop ?k (bw c)"
    "wval (take ?k ws) + base ^ ?k * unat carry = wval (take ?k (bw c)) + word_squares (bw a) i" by (auto simp: sqr_upto_def r)
  have nth: "ws ! ?k = bw c ! ?k" "ws ! Suc ?k = bw c ! Suc ?k" "drop (Suc (Suc ?k)) ws = drop (Suc (Suc ?k)) (bw c)"
    using ws(2,3) assms(4,6) by (metis hd_drop_conv_nth Suc_lessD Suc_eq_plus1 drop_Suc tl_drop)+
  define d where "d = dble (bw a ! i) (bw a ! i) carry (bw c ! ?k)"
  define e where "e = bw c ! Suc ?k"
  define c' where "c' = (if e + dtop d < dtop d then 1 else 0 :: u32)"
  define vs where "vs = ws[?k := dbot d, Suc ?k := e + dtop d]"
  have h: "unat (dbot d) + base * unat (dtop d) = (unat (bw a ! i))\<^sup>2 + unat carry + unat (bw c ! ?k)"
    by (simp add: halves d_def unat_dble power2_eq_square)
  have e: "unat (e + dtop d) + base * unat c' = unat e + unat (dtop d)" unfolding c'_def by (rule word_sum)
  have "wval (take (Suc (Suc ?k)) vs) + base ^ Suc (Suc ?k) * unat c' =
      wval (take ?k ws) + base ^ ?k * unat (dbot d) + base ^ Suc ?k * (unat (e + dtop d) + base * unat c')"
    using ws(2) assms(6) by (simp add: vs_def wval_take_Suc algebra_simps)
  also have "\<dots> = wval (take ?k ws) + base ^ ?k * (unat (dbot d) + base * unat (dtop d)) + base ^ Suc ?k * unat e"
    unfolding e by (simp add: algebra_simps)
  also have "\<dots> = (wval (take ?k ws) + base ^ ?k * unat carry) + base ^ ?k * ((unat (bw a ! i))\<^sup>2 + unat (bw c ! ?k)) + base ^ Suc ?k * unat e"
    unfolding h by (simp add: algebra_simps)
  also have "\<dots> = wval (take (Suc (Suc ?k)) (bw c)) + word_squares (bw a) (Suc i)"
    unfolding ws(4) using assms(4,6) by (simp add: e_def word_squares_def wval_take_Suc algebra_simps power2_eq_square power_add)
  finally have sum: "wval (take (Suc (Suc ?k)) vs) + base ^ Suc (Suc ?k) * unat c' = wval (take (Suc (Suc ?k)) (bw c)) + word_squares (bw a) (Suc i)" .
  have "sqr_step x w0 i r = Some (c', store_big w0 (c\<lparr>bw := vs\<rparr>) s)"
    using assms(1-6) ws(1,2) nth
    by (simp add: sqr_step_def r rd_some d_def e_def c'_def vs_def Let_def wr_store_big [where b = "c\<lparr>bw := _\<rparr>"] rd_some [where b = "c\<lparr>bw := _\<rparr>"])
  moreover have "drop (Suc (Suc ?k)) vs = drop (Suc (Suc ?k)) (bw c)" "length vs = n" using nth(3) ws(2) by (simp_all add: vs_def)
  ultimately show ?thesis using sum by (auto simp: sqr_upto_def)
qed

lemma sqr_loop_ok:
  assumes "bigs s x = Some a" "bigs s w0 = Some c" "w0 \<noteq> x" "length (bw c) = n" "xl \<le> length (bw a)" "xl + xl \<le> n"
    and "wval (bw c) + word_squares (bw a) xl < base ^ (xl + xl)"
  shows "\<exists>carry ws. for_up 0 xl (sqr_step x w0) (0, s) = Some (carry, store_big w0 (c\<lparr>bw := ws\<rparr>) s) \<and> length ws = n \<and>
    drop (xl + xl) ws = replicate (n - (xl + xl)) 0 \<and> wval ws = wval (bw c) + word_squares (bw a) xl"
proof -
  let ?k = "xl + xl"
  have "\<exists>r. for_up 0 xl (sqr_step x w0) (0, s) = Some r \<and> sqr_upto n (bw a) c w0 s xl r"
  proof (rule for_up_inv)
    show "sqr_upto n (bw a) c w0 s 0 (0, s)"
      using assms(2,4) by (auto simp: sqr_upto_def store_big_same word_squares_def intro!: exI [of _ "bw c"])
    show "\<exists>u. sqr_step x w0 j t = Some u \<and> sqr_upto n (bw a) c w0 s (Suc j) u" if "j < xl" "sqr_upto n (bw a) c w0 s j t" for j t
      using that assms(5,6) by (intro sqr_step_upto [OF assms(1-4)]) simp_all
  qed simp
  then obtain carry ws where r: "for_up 0 xl (sqr_step x w0) (0, s) = Some (carry, store_big w0 (c\<lparr>bw := ws\<rparr>) s)"
    and ws: "length ws = n" "drop ?k ws = drop ?k (bw c)"
      "wval (take ?k ws) + base ^ ?k * unat carry = wval (take ?k (bw c)) + word_squares (bw a) xl"
    by (auto simp: sqr_upto_def)
  have "wval (bw c) = wval (take ?k (bw c)) + base ^ ?k * wval (drop ?k (bw c))" using assms(4,6) by (intro wval_split) simp
  moreover from this have "wval (drop ?k (bw c)) = 0"
    using assms(7) by (cases "wval (drop ?k (bw c))") (auto simp del: wval_eq_0)
  ultimately have c: "wval (take ?k (bw c)) = wval (bw c)" "drop ?k (bw c) = replicate (n - ?k) 0"
    using assms(4) zeros_replicate [of "drop ?k (bw c)"] by auto
  have "unat carry = 0" using ws(3) c(1) assms(7) by (cases "unat carry") (auto simp del: wval_eq_0)
  with ws c wval_split [of ?k ws] assms(6) have "wval ws = wval (bw c) + word_squares (bw a) xl" by simp
  with r ws c show ?thesis by auto
qed

lemma mr_square_ok:
  assumes "bigs s x = Some a" "bigs s w0 = Some c" "w0 \<noteq> x" "bw c = replicate n 0" "xl \<le> length (bw a)" "0 < xl" "xl + xl \<le> n"
    and "n < 2 ^ 31" "nib s = int n" "mr_check s"
  shows "\<exists>l ws. mr_square x w0 xl s = Some (store_big w0 \<lparr>blen = l, bw = ws\<rparr> s) \<and> length ws = n \<and>
    drop (xl + xl) ws = replicate (n - (xl + xl)) 0 \<and> wval ws = wval (take xl (bw a)) * wval (take xl (bw a))"
proof -
  let ?X = "wval (take xl (bw a))" and ?m = "xl + xl - 1"
  obtain us where us: "for_up 0 (xl - 1) (\<lambda>i. mul_row x x w0 i (i + 1) xl) s = Some (store_big w0 (c\<lparr>bw := us\<rparr>) s)" "length us = n"
    "drop ?m us = replicate (n - ?m) 0" "2 * wval us + word_squares (bw a) xl = ?X\<^sup>2"
    using upper_rows_ok [OF assms(1-7)] by blast
  let ?d = "\<lparr>blen = of_nat ?m, bw = us\<rparr>"
  have sl: "set_len w0 (of_nat ?m) (store_big w0 (c\<lparr>bw := us\<rparr>) s) = Some (store_big w0 ?d s)"
    by (cases c) (simp add: set_len_store_big)
  have "?m < n" using assms(6,7) by linarith
  then obtain l vs where vs: "mr_padd w0 w0 w0 (store_big w0 ?d s) = Some (store_big w0 \<lparr>blen = l, bw = vs\<rparr> s)" "length vs = n"
    "wval vs = 2 * wval us"
    using padd_double [of "store_big w0 ?d s" w0 ?d ?m n] us(2,3) assms(6-10) by auto
  let ?e = "\<lparr>blen = l, bw = vs\<rparr>"
  have "?X * ?X < base ^ xl * base ^ xl"
    by (intro mult_strict_mono' wval_take_less) simp_all
  then have lt: "wval (bw ?e) + word_squares (bw a) xl < base ^ (xl + xl)"
    using us(4) vs(3) by (simp add: power2_eq_square power_add)
  obtain carry ws where "for_up 0 xl (sqr_step x w0) (0, store_big w0 ?e s) = Some (carry, store_big w0 (?e\<lparr>bw := ws\<rparr>) s)"
    "length ws = n" "drop (xl + xl) ws = replicate (n - (xl + xl)) 0" "wval ws = ?X * ?X"
    using sqr_loop_ok [of "store_big w0 ?e s" x a w0 ?e n xl] lt assms(1,3,5,7) vs us(4) by (auto simp: power2_eq_square)
  then show ?thesis using us(1) sl vs(1) by (auto simp: mr_square_def)
qed

subsection \<open>Products\<close>

lemma product_words:
  fixes a b :: bigtype
  assumes "bigs s x = Some a" "bigs s y = Some b" "bigs s w0 = Some (big_zero n)" "w0 \<noteq> x" "w0 \<noteq> y" "big_ok n a" "big_ok n b"
    and "0 < mlen a" "mlen a + mlen b \<le> n" "n < 2 ^ 31" "nib s = int n" "mr_check s"
  shows "\<exists>l ws. (if x = y \<and> mlen a > SQR_FASTER_THRESHOLD then mr_square x w0 (mlen a) s
      else for_up 0 (mlen a) (\<lambda>i. mul_row x y w0 i 0 (mlen b)) s) = Some (store_big w0 \<lparr>blen = l, bw = ws\<rparr> s) \<and> length ws = n \<and>
    drop (mlen a + mlen b) ws = replicate (n - (mlen a + mlen b)) 0 \<and> wval ws = wval (bw a) * wval (bw b)"
proof (cases "x = y \<and> mlen a > SQR_FASTER_THRESHOLD")
  case True
  then have "a = b" using assms(1,2) by simp
  with True show ?thesis
    using mr_square_ok [of s x a w0 "big_zero n" n "mlen a"] assms big_ok_take [OF assms(6)] big_ok_len [OF assms(6)]
    by (auto simp: big_zero_def)
next
  case False
  obtain ws where "for_up 0 (mlen a) (\<lambda>i. mul_row x y w0 i 0 (mlen b)) s = Some (store_big w0 ((big_zero n)\<lparr>bw := ws\<rparr>) s)"
    "length ws = n" "drop (mlen a + mlen b) ws = replicate (n - (mlen a + mlen b)) 0" "wval ws = wval (bw a) * wval (bw b)"
    using mul_rows_ok [of s x a y b w0 "big_zero n" n "mlen a" "mlen b"] assms big_ok_take [OF assms(6)] big_ok_take [OF assms(7)]
      big_ok_len [OF assms(6)] big_ok_len [OF assms(7)] by (auto simp: big_zero_def)
  with False show ?thesis by (auto simp: big_zero_def)
qed

lemma product_sign:
  assumes "m < 2 ^ 31"
  shows "mlen \<lparr>blen = ((blen a AND MR_MSBIT) XOR (blen b AND MR_MSBIT)) OR of_nat m, bw = ws\<rparr> = m"
    and "mneg \<lparr>blen = ((blen a AND MR_MSBIT) XOR (blen b AND MR_MSBIT)) OR of_nat m, bw = ws\<rparr> \<longleftrightarrow> mneg a \<noteq> mneg b"
proof -
  let ?c = "\<lparr>blen = of_nat m, bw = ws\<rparr>"
  have sz: "(blen a AND MR_MSBIT) XOR (blen b AND MR_MSBIT) = (if mneg a \<noteq> mneg b then MR_MSBIT else 0)"
    by (simp add: and_MSBIT mneg_bit)
  show "mlen \<lparr>blen = ((blen a AND MR_MSBIT) XOR (blen b AND MR_MSBIT)) OR of_nat m, bw = ws\<rparr> = m"
    "mneg \<lparr>blen = ((blen a AND MR_MSBIT) XOR (blen b AND MR_MSBIT)) OR of_nat m, bw = ws\<rparr> \<longleftrightarrow> mneg a \<noteq> mneg b"
    using assms mlen_of_nat [of m ?c] mneg_of_nat [of m ?c] mlen_sign(1) [where b = ?c and l = "of_nat m"]
      mneg_sign(1) [where b = ?c and l = "of_nat m"] unfolding sz by (auto simp: or.commute)
qed

definition mul_scratch :: "nat \<Rightarrow> nat \<Rightarrow> nat \<Rightarrow> miracl \<Rightarrow> nat" where
  "mul_scratch x y z s = (if x \<noteq> mr_w5 s \<and> y \<noteq> mr_w5 s \<and> z = mr_w5 s then mr_w5 s else mr_w0 s)"

lemma mr_multiply_run:
  assumes "mip_ok n s" "bigs s x = Some a" "bigs s y = Some b" "bigs s z = Some c" "w0 = mul_scratch x y z s" "bigs s w0 = Some d"
    and "w0 \<noteq> x" "w0 \<noteq> y" "mlen a \<noteq> 0" "mlen b \<noteq> 0" "mlen a + mlen b \<le> n"
  shows "\<exists>e. mr_multiply x y z s = Some (store_big z e (store_big w0 e s)) \<and> big_ok n e \<and> big_val e = big_val a * big_val b"
proof -
  have ok: "big_ok n a" "big_ok n b" "big_ok n c" "big_ok n d" "w0 \<noteq> NULL" "z \<noteq> NULL" "n < 2 ^ 31" "ERNUM s = 0" "nib s = int n" "mr_check s"
    using assms(1-4,6) by (auto simp: mip_ok_def)
  have l0: "blen a \<noteq> 0" "blen b \<noteq> 0" using assms(9,10) by (auto simp: mlen_def)
  let ?s = "store_big w0 (big_zero n) s" and ?m = "mlen a + mlen b"
  let ?l = "((blen a AND MR_MSBIT) XOR (blen b AND MR_MSBIT)) OR of_nat ?m"
  have z: "mr_zero w0 s = Some ?s" using mr_zero_eq [OF assms(6) ok(4,5)] .
  obtain l ws where p: "(if x = y \<and> mlen a > SQR_FASTER_THRESHOLD then mr_square x w0 (mlen a) ?s
      else for_up 0 (mlen a) (\<lambda>i. mul_row x y w0 i 0 (mlen b)) ?s) = Some (store_big w0 \<lparr>blen = l, bw = ws\<rparr> ?s)" "length ws = n"
    "drop ?m ws = replicate (n - ?m) 0" "wval ws = wval (bw a) * wval (bw b)"
    using product_words [of ?s x a y b w0 n] assms(2,3,7-11) ok by auto
  let ?e = "\<lparr>blen = ?l, bw = ws\<rparr>"
  have m: "mlen ?e = ?m" "mneg ?e \<longleftrightarrow> mneg a \<noteq> mneg b" using product_sign [of ?m a b ws] assms(11) ok(7) by linarith+
  have v: "big_val ?e = big_val a * big_val b" using m(2) p(4) by (auto simp: big_val_def)
  obtain e where e: "mr_lzero w0 (store_big w0 ?e s) = Some (store_big w0 e s)" "big_ok n e" "big_val e = big_val a * big_val b"
    using mr_lzero_ok [of "store_big w0 ?e s" w0 ?e n] p(2,3) m(1) assms(11) ok(7) v by auto
  have c: "mr_copy w0 z (store_big w0 e s) = Some (store_big z e (store_big w0 e s))"
    using mr_copy_eq [of "store_big w0 e s" w0 e z "if z = w0 then e else c" n] e(2) ok assms(4) by simp
  have sl: "set_len w0 ?l (store_big w0 \<lparr>blen = l, bw = ws\<rparr> ?s) = Some (store_big w0 ?e s)"
    by (simp add: set_len_store_big)
  have "mr_multiply x y z s = Some (store_big z e (store_big w0 e s))"
    unfolding mr_multiply_def get_len_some [OF assms(2)] get_len_some [OF assms(3)] mul_scratch_def [symmetric] assms(5) [symmetric]
      Option.bind.bind_lunit Let_def mlen_def [symmetric]
    using ok assms(11) l0 z p(1) sl e(1) c by (simp add: not_less split del: if_split flip: of_nat_add)
  with e show ?thesis by blast
qed

lemma mr_multiply_zero:
  assumes "mip_ok n s" "x \<in> dom (bigs s)" "y \<in> dom (bigs s)" "z \<in> dom (bigs s)" "num s x = 0 \<or> num s y = 0"
  shows "assigns n z 0 s (mr_multiply x y z s)"
proof -
  obtain a b c where s: "bigs s x = Some a" "bigs s y = Some b" "bigs s z = Some c" "big_ok n a" "big_ok n b" "big_ok n c" "z \<noteq> NULL"
    using assms(1-4) by (auto simp: mip_ok_def)
  have "blen b = 0 \<or> blen a = 0" using assms(5) s by (auto simp: num_def big_val_0)
  then have "mr_multiply x y z s = mr_zero z s"
    using s(1,2) assms(1) by (auto simp: mr_multiply_def get_len_some mip_ok_def)
  with mr_zero_eq [OF s(3,6,7)] show ?thesis by (intro becomes_assigns assms(1,4)) (auto simp: becomes_def)
qed

lemma mlen_bound:
  assumes "big_ok n b" "\<bar>big_val b\<bar> < 2 ^ (32 * i)"
  shows "mlen b \<le> i"
proof (rule ccontr)
  assume "\<not> mlen b \<le> i"
  then have "base ^ i \<le> base ^ (mlen b - 1)" by (intro power_increasing) (auto simp: Suc_le_eq)
  also have "\<dots> \<le> wval (bw b)" using \<open>\<not> mlen b \<le> i\<close> by (intro big_ok_lower [OF assms(1)]) simp
  finally have "int (base ^ i) \<le> \<bar>big_val b\<bar>" by (simp only: abs_big_val of_nat_le_iff)
  with assms(2) show False by (simp add: base_def power_mult)
qed

text \<open>When the words of the operands do not fit in a number, the error is set and only the scratch number is cleared.\<close>

lemma mr_multiply_overflow:
  assumes "mip_ok n s" "bigs s x = Some a" "bigs s y = Some b" "w0 = mul_scratch x y z s" "bigs s w0 = Some d"
    and "num s x \<noteq> 0" "num s y \<noteq> 0" "n < mlen a + mlen b"
  shows "mr_multiply x y z s = Some ((store_big w0 (big_zero n) s)\<lparr>ERNUM := MR_ERR_OVERFLOW\<rparr>)"
proof -
  have ok: "big_ok n a" "big_ok n b" "big_ok n d" "w0 \<noteq> NULL" "ERNUM s = 0" "nib s = int n" "mr_check s" "ERCON s"
    using assms(1-3,5) by (auto simp: mip_ok_def)
  have l0: "blen a \<noteq> 0" "blen b \<noteq> 0" using assms(2,3,6,7) big_val_0 [OF ok(1)] big_val_0 [OF ok(2)] by (auto simp: num_def)
  show ?thesis
    unfolding mr_multiply_def get_len_some [OF assms(2)] get_len_some [OF assms(3)] mul_scratch_def [symmetric] assms(4) [symmetric]
      Option.bind.bind_lunit Let_def mlen_def [symmetric]
    using ok assms(8) l0 mr_zero_eq [OF assms(5) ok(3,4)] by (simp add: mr_berror_def flip: of_nat_add)
qed

subsection \<open>Properties\<close>

text \<open>
  C15: \<open>multiply\<close> refines multiplication of integers. In a state with the invariant, for operands of
  \<open>i\<close> and \<open>j\<close> words with \<open>i + j\<close> at most the \<open>n\<close> words of a number, it stores the product in \<open>z\<close> and keeps
  the invariant; besides \<open>z\<close> only the scratch number \<open>w0\<close> of the library may change. This covers the
  shorter way for squares. The operands must not be \<open>w0\<close>; \<open>z\<close> may be an operand or a scratch number.
\<close>

theorem mr_multiply_refines:
  assumes "mip_ok n s" "x \<in> dom (bigs s)" "y \<in> dom (bigs s)" "z \<in> dom (bigs s)" "mr_w0 s \<in> dom (bigs s)"
    and "x \<noteq> mr_w0 s" "y \<noteq> mr_w0 s"
    and "\<bar>num s x\<bar> < 2 ^ (32 * i)" "\<bar>num s y\<bar> < 2 ^ (32 * j)" "i + j \<le> n"
  shows "\<exists>t. mr_multiply x y z s = Some t \<and> mip_ok n t \<and> num t z = num s x * num s y \<and>
    (\<forall>p. p \<noteq> z \<longrightarrow> p \<noteq> mr_w0 s \<longrightarrow> num t p = num s p)"
proof (cases "num s x = 0 \<or> num s y = 0")
  case True
  with mr_multiply_zero [OF assms(1-4)] show ?thesis by (auto simp: assigns_def)
next
  case False
  define w0 where "w0 = mul_scratch x y z s"
  have w0: "w0 \<noteq> x" "w0 \<noteq> y" "w0 = z \<or> w0 = mr_w0 s" "w0 \<in> dom (bigs s)"
    using assms(4-7) by (auto simp: w0_def mul_scratch_def)
  then obtain a b c d where s: "bigs s x = Some a" "bigs s y = Some b" "bigs s z = Some c" "bigs s w0 = Some d"
    using assms(2-4) by auto
  have ok: "big_ok n a" "big_ok n b" using assms(1) s by (auto simp: mip_ok_def)
  have n: "num s x = big_val a" "num s y = big_val b" using s by (simp_all add: num_def)
  have "mlen a + mlen b \<le> n" using mlen_bound [OF ok(1)] mlen_bound [OF ok(2)] assms(8-10) n by force
  moreover have "mlen a \<noteq> 0" "mlen b \<noteq> 0"
    using False n mlen_eq_0 [OF ok(1)] mlen_eq_0 [OF ok(2)] by (auto simp: big_val_def simp del: wval_eq_0 split: if_splits)
  ultimately obtain e where e: "mr_multiply x y z s = Some (store_big z e (store_big w0 e s))" "big_ok n e" "big_val e = num s x * num s y"
    using mr_multiply_run [OF assms(1) s(1-3) w0_def s(4) w0(1,2)] n by auto
  have "mip_ok n (store_big z e (store_big w0 e s))" using assms(1) e(2) s(3,4) by (auto simp: mip_ok_def)
  with e w0(3) show ?thesis by (auto simp: num_def)
qed

text \<open>A number of six words, for which the square takes the shorter way.\<close>

definition six_words :: miracl where
  "six_words = \<lparr>ERNUM = 0, ERCON = True, nib = 12, mr_check = True, mr_w0 = 3, mr_w5 = 4,
     bigs = [1 \<mapsto> \<lparr>blen = 0x80000006, bw = [0xFFFFFFFF, 0xFFFFFFFF, 0xFFFFFFFF, 0xFFFFFFFF, 0xFFFFFFFF, 0xFFFFFFFF] @ replicate 6 0\<rparr>,
             2 \<mapsto> \<lparr>blen = 0, bw = replicate 12 0\<rparr>, 3 \<mapsto> \<lparr>blen = 0, bw = replicate 12 0\<rparr>]\<rparr>"

lemma six_words_ok:
  "mip_ok 12 six_words" "dom (bigs six_words) = {1, 2, 3}" "num six_words 1 = - (2 ^ 192 - 1)" "mr_w0 six_words = 3"
  by (auto simp: mip_ok_def six_words_def NULL_def big_ok_def mlen_def MR_OBITS_def MR_MSBIT_def
      num_def big_val_def mneg_def wval_append base_def split: if_splits)

theorem mr_multiply_refines_witness:
  "\<exists>t. mr_multiply 1 1 2 six_words = Some t \<and> mip_ok 12 t \<and> num t 2 = (2 ^ 192 - 1)\<^sup>2 \<and> num t 1 = - (2 ^ 192 - 1)"
  using mr_multiply_refines [OF six_words_ok(1), of 1 1 2 6 6] six_words_ok(2-4) by (auto simp: power2_eq_square)

end
