(* ===== verification/SM4_OCB.thy ===== *)
theory SM4_OCB
  imports SM4_CBC
begin

text \<open>
  Offset codebook mode, the second half of \<^verbatim>\<open>lib/gm/source/SM4_Enc.c\<close>: authenticated
  encryption with associated data. As for CBC, the functions take the cipher as a parameter
  and \<open>SM4_OCB_Encrypt\<close>, \<open>SM4_OCB_Decrypt\<close> are the instances at SM4.

  Lengths are natural numbers (the C code uses \<open>unsigned int\<close> and \<open>int\<close>; below
  \<open>2 ^ 31\<close> they agree). The C array \<open>offset[24]\<close> is a list of 24 bytes while it is set up
  from the nonce, and its first 16 bytes afterwards, the only ones the code reads then.
  Stores outside \<open>offset[24]\<close> and outside the variable-length array \<open>l[l_length][16]\<close>
  are recorded as faults.
\<close>

subsection \<open>Building blocks\<close>

text \<open>\<open>__builtin_ctz(a)\<close>, for a positive argument.\<close>

fun ocb_ntz :: "nat \<Rightarrow> nat" where
  "ocb_ntz a = (if a = 0 then 0 else if even a then Suc (ocb_ntz (a div 2)) else 0)"

declare ocb_ntz.simps [simp del]

text \<open>
  \<open>ocb_ntz_round(a) + 1\<close> as the preprocessor leaves it, \<open>32 - __builtin_clz(a)\<close> being the
  number of bits of a positive argument: the macro's body is not in
  parentheses, so the \<open>+ 1\<close> belongs to the second branch of its conditional.
\<close>

definition ocb_ntz_round_plus_1 :: "nat \<Rightarrow> nat" where
  "ocb_ntz_round_plus_1 a = (if a = 0 then 0 else (bit_count a - 1) + 1)"

definition ocb_l_length :: "nat \<Rightarrow> nat \<Rightarrow> nat" where
  "ocb_l_length message_length associated_data_length =
     (if message_length > associated_data_length
      then ocb_ntz_round_plus_1 (message_length div 16)
      else ocb_ntz_round_plus_1 (associated_data_length div 16))"

definition double_step :: "nat \<Rightarrow> bytes \<Rightarrow> bytes" where
  "double_step i s = s[i := (push_bit 1 (s ! i AND 127)) OR drop_bit 7 (s ! (i + 1))]"

definition double_arr :: "bytes \<Rightarrow> bytes" where
  "double_arr s =
     (let first_bit = - drop_bit 7 (s ! 0);
          s1 = fold double_step [0..<15] s
      in s1[15 := push_bit 1 (s1 ! 15 AND 127) XOR (first_bit AND 135)])"

subsection \<open>The hash of the associated data\<close>

definition hash_step ::
  "(bytes \<Rightarrow> bytes) \<Rightarrow> bytes \<Rightarrow> bytes list \<Rightarrow> nat \<Rightarrow> bytes \<times> bytes \<Rightarrow> bytes \<times> bytes" where
  "hash_step E ad l i = (\<lambda>(offset, out).
     let cipher_temp = slice (i * 16) 16 ad;
         offset' = xor_16 offset (l ! ocb_ntz (i + 1))
     in (offset', xor_16 out (E (xor_16 cipher_temp offset'))))"

definition hash :: "(bytes \<Rightarrow> bytes) \<Rightarrow> bytes \<Rightarrow> nat \<Rightarrow> bytes list \<Rightarrow> bytes \<Rightarrow> bytes" where
  "hash E ad ad_len l l_asterisk =
     (let m = ad_len div 16;
          (offset, out) = fold (hash_step E ad l) [0..<m] (replicate 16 0, replicate 16 0);
          a_asterisk_length = ad_len mod 16;
          full_block_length = ad_len XOR a_asterisk_length
      in if a_asterisk_length > 0
         then let offset' = xor_16 offset l_asterisk;
                  cipher_temp = slice full_block_length a_asterisk_length ad @ [0x80] @
                    replicate (16 - (a_asterisk_length + 1)) 0
              in xor_16 out (E (xor_16 cipher_temp offset'))
         else out)"

subsection \<open>Tables and the initial offset\<close>

text \<open>
  \<open>L_*\<close>, \<open>L_$\<close> and the rows \<open>l[0], l[1], ...\<close>. Row 0 is written whatever
  \<open>l_length\<close> is.
\<close>

definition ocb_l_asterisk :: "(bytes \<Rightarrow> bytes) \<Rightarrow> bytes" where
  "ocb_l_asterisk E = E (replicate 16 0)"

definition ocb_l_table :: "nat \<Rightarrow> bytes \<Rightarrow> fault list \<times> bytes \<times> bytes list" where
  "ocb_l_table l_length l_asterisk =
     (let l_dollar = double_arr l_asterisk;
          l = fold (\<lambda>i l. l @ [double_arr (l ! (i - 1))]) [1..<l_length] [double_arr l_dollar]
      in (if l_length = 0 then [OutOfBounds ''l'' 0] else [], l_dollar, l))"

definition ocb_nonce :: "bytes \<Rightarrow> nat \<Rightarrow> fault list \<times> bytes" where
  "ocb_nonce nonce nonce_length =
     (let index = 15 - int nonce_length;
          offset = replicate 24 (0 :: u8);
          s = arr_set ''offset'' index (arr_get offset index OR 1) ([], offset)
      in fold (\<lambda>i. arr_set ''offset'' (index + 1 + int i) (nonce ! i)) [0..<nonce_length] s)"

definition ocb_stretch :: "(bytes \<Rightarrow> bytes) \<Rightarrow> bytes \<Rightarrow> nat \<times> bytes" where
  "ocb_stretch E offset =
     (let bottom = unat (offset ! 15) mod 64;
          offset1 = offset[15 := offset ! 15 XOR of_nat bottom];
          offset2 = buf_write offset1 0 (E (take 16 offset1));
          offset3 = fold (\<lambda>i a. a[16 + i := a ! i]) [0..<8] offset2;
          offset4 = fold (\<lambda>i a. a[16 + i := a ! (16 + i) XOR a ! (i + 1)]) [0..<8] offset3
      in (bottom, offset4))"

definition ocb_shift :: "nat \<Rightarrow> bytes \<Rightarrow> bytes" where
  "ocb_shift bottom offset =
     (let shift = bottom div 8; bit_shift = bottom mod 8
      in fold (\<lambda>i a. a[i := ucast ((push_bit bit_shift (ucast (a ! (i + shift)) :: u32) OR
                    drop_bit (8 - bit_shift) (ucast (a ! (i + shift + 1)))) AND 255)])
           [0..<16] offset)"

definition ocb_offset :: "(bytes \<Rightarrow> bytes) \<Rightarrow> bytes \<Rightarrow> nat \<Rightarrow> fault list \<times> bytes" where
  "ocb_offset E nonce nonce_length =
     (let (fs, offset) = ocb_nonce nonce nonce_length;
          (bottom, offset') = ocb_stretch E offset
      in (fs, take 16 (ocb_shift bottom offset')))"

subsection \<open>Encryption and decryption\<close>

text \<open>
  One iteration of the loop over the full blocks; \<open>F\<close> is encryption or decryption of a
  block under the key.
\<close>

definition ocb_step ::
  "(bytes \<Rightarrow> bytes) \<Rightarrow> bytes list \<Rightarrow> nat \<Rightarrow> bytes \<times> bytes \<Rightarrow> bytes \<times> bytes" where
  "ocb_step F l i = (\<lambda>(offset, out).
     let offset' = xor_16 offset (l ! ocb_ntz (i + 1))
     in (offset', buf_write out (i * 16)
           (xor_16 (F (xor_16 (slice (i * 16) 16 out) offset')) offset')))"

text \<open>\<open>for (i = 0; i < n; i++) checksum[i % 16] ^= src[i];\<close>\<close>

definition ocb_checksum :: "nat \<Rightarrow> bytes \<Rightarrow> bytes" where
  "ocb_checksum n src =
     fold (\<lambda>i c. c[i mod 16 := c ! (i mod 16) XOR src ! i]) [0..<n] (replicate 16 0)"

text \<open>\<open>a[i] ^= b[i]\<close> for the first \<open>n\<close> bytes, the rest of \<open>a\<close> unchanged.\<close>

definition xor_first :: "nat \<Rightarrow> bytes \<Rightarrow> bytes \<Rightarrow> bytes" where
  "xor_first n a b = map (\<lambda>i. if i < n then a ! i XOR b ! i else a ! i) [0..<length a]"

definition ocb_tag ::
  "(bytes \<Rightarrow> bytes) \<Rightarrow> bytes \<Rightarrow> bytes \<Rightarrow> bytes \<Rightarrow> bytes \<Rightarrow> bytes" where
  "ocb_tag E checksum offset l_dollar h =
     xor_16 (E (xor_16 (xor_16 checksum offset) l_dollar)) h"

definition ocb_encrypt ::
  "(bytes \<Rightarrow> bytes) \<Rightarrow> bytes \<Rightarrow> nat \<Rightarrow> bytes \<Rightarrow> nat \<Rightarrow> bytes \<Rightarrow> nat \<Rightarrow> bytes \<Rightarrow> fault list \<times> bytes" where
  "ocb_encrypt E nonce nonce_length message message_length ad ad_len out =
     (let m = message_length div 16;
          l_asterisk = ocb_l_asterisk E;
          (fs1, l_dollar, l) = ocb_l_table (ocb_l_length message_length ad_len) l_asterisk;
          (fs2, offset) = ocb_offset E nonce nonce_length;
          out = buf_write out 0 (take message_length message);
          (offset, out) = fold (ocb_step E l) [0..<m] (offset, out);
          p_asterisk_length = message_length mod 16;
          full_block_length = message_length XOR p_asterisk_length;
          checksum = ocb_checksum full_block_length message;
          (offset, out, checksum) =
            (if p_asterisk_length > 0
             then let offset = xor_16 offset l_asterisk;
                      rest = slice full_block_length p_asterisk_length message;
                      pad = xor_first p_asterisk_length (E offset) rest;
                      checksum = xor_first p_asterisk_length checksum rest
                  in (offset, buf_write out full_block_length pad,
                      checksum[p_asterisk_length := checksum ! p_asterisk_length XOR 0x80])
             else (offset, out, checksum));
          tag = ocb_tag E checksum offset l_dollar (hash E ad ad_len l l_asterisk)
      in (fs1 @ fs2, buf_write out (full_block_length + p_asterisk_length) tag))"

definition ocb_decrypt ::
  "(bytes \<Rightarrow> bytes) \<Rightarrow> (bytes \<Rightarrow> bytes) \<Rightarrow> bytes \<Rightarrow> nat \<Rightarrow> bytes \<Rightarrow> nat \<Rightarrow> bytes \<Rightarrow> nat \<Rightarrow> bytes \<Rightarrow>
     fault list \<times> int \<times> bytes" where
  "ocb_decrypt E D nonce nonce_length encrypted encrypted_length ad ad_len out =
     (let m = encrypted_length div 16;
          l_asterisk = ocb_l_asterisk E;
          (fs1, l_dollar, l) = ocb_l_table (ocb_l_length encrypted_length ad_len) l_asterisk;
          (fs2, offset) = ocb_offset E nonce nonce_length;
          c_asterisk_length = encrypted_length mod 16;
          full_block_length = encrypted_length XOR c_asterisk_length;
          out = buf_write out 0 (take full_block_length encrypted);
          (offset, out) = fold (ocb_step D l) [0..<m] (offset, out);
          checksum = ocb_checksum full_block_length out;
          (offset, out, checksum) =
            (if c_asterisk_length > 0
             then let offset = xor_16 offset l_asterisk;
                      rest = slice full_block_length c_asterisk_length encrypted;
                      pad = xor_first c_asterisk_length (E offset) rest;
                      out = buf_write out full_block_length (take c_asterisk_length pad);
                      checksum = xor_first c_asterisk_length checksum pad
                  in (offset, out,
                      checksum[c_asterisk_length := checksum ! c_asterisk_length XOR 0x80])
             else (offset, out, checksum));
          tag = ocb_tag E checksum offset l_dollar (hash E ad ad_len l l_asterisk);
          checksum = xor_16 tag (slice encrypted_length 16 encrypted);
          diff = fold (\<lambda>i d. d OR checksum ! i) [0..<16] 0
      in (fs1 @ fs2, uint diff, out))"

definition SM4_OCB_Encrypt ::
  "bytes \<Rightarrow> bytes \<Rightarrow> nat \<Rightarrow> bytes \<Rightarrow> nat \<Rightarrow> bytes \<Rightarrow> nat \<Rightarrow> bytes \<Rightarrow> fault list \<times> bytes" where
  "SM4_OCB_Encrypt key = ocb_encrypt (SM4_Encrypt key)"

definition SM4_OCB_Decrypt ::
  "bytes \<Rightarrow> bytes \<Rightarrow> nat \<Rightarrow> bytes \<Rightarrow> nat \<Rightarrow> bytes \<Rightarrow> nat \<Rightarrow> bytes \<Rightarrow> fault list \<times> int \<times> bytes" where
  "SM4_OCB_Decrypt key = ocb_decrypt (SM4_Encrypt key) (SM4_Decrypt key)"

subsection \<open>Helpers\<close>

lemma nat_xor_mod_16: "(n :: nat) XOR (n mod 16) = 16 * (n div 16)"
proof -
  have "n XOR take_bit 4 n = push_bit 4 (drop_bit 4 n)"
    by (rule bit_eqI) (auto simp: bit_simps)
  then show ?thesis by (simp add: take_bit_eq_mod push_bit_eq_mult drop_bit_eq_div)
qed

lemma xor_16_twice [simp]: "length a = 16 \<Longrightarrow> xor_16 (xor_16 a b) b = a"
  by (rule nth_equalityI) (simp_all add: xor_16_def)

lemma length_xor_first [len_simps, simp]: "length (xor_first n a b) = length a"
  by (simp add: xor_first_def)

lemma xor_first_twice:
  assumes "n \<le> length a" and "length b = n"
  shows "take n (xor_first n a (take n (xor_first n a b))) = b"
  by (rule nth_equalityI) (use assms in \<open>simp_all add: xor_first_def\<close>)

lemma xor_first_take: "n \<le> m \<Longrightarrow> xor_first n a (take m b) = xor_first n a b"
  by (simp add: xor_first_def)

lemma ocb_checksum_cong:
  "(\<And>i. i < n \<Longrightarrow> a ! i = b ! i) \<Longrightarrow> ocb_checksum n a = ocb_checksum n b"
  unfolding ocb_checksum_def by (rule fold_cong) auto

lemma fold_or_eq_0: "fold (\<lambda>i (d :: u8). d OR c ! i) is d = 0 \<longleftrightarrow> d = 0 \<and> (\<forall>i \<in> set is. c ! i = 0)"
  by (induction "is" arbitrary: d) (auto simp: or_eq_0_iff)

lemma xor_16_eq_zeros: "(\<forall>i < 16. xor_16 a b ! i = 0) \<longleftrightarrow> take 16 a = take 16 b"
  if "16 \<le> length a" "16 \<le> length b"
  using that by (auto simp: xor_16_def list_eq_iff_nth_eq)

subsection \<open>The loop over the full blocks\<close>

fun ocb_blocks ::
  "(bytes \<Rightarrow> bytes) \<Rightarrow> bytes list \<Rightarrow> nat \<Rightarrow> bytes \<Rightarrow> bytes list \<Rightarrow> bytes \<times> bytes list" where
  "ocb_blocks F l i offset [] = (offset, [])"
| "ocb_blocks F l i offset (b # bs) =
     (let offset' = xor_16 offset (l ! ocb_ntz (i + 1));
          (offset'', cs) = ocb_blocks F l (Suc i) offset' bs
      in (offset'', xor_16 (F (xor_16 b offset')) offset' # cs))"

lemma ocb_loop:
  assumes "length pre = 16 * i" and "\<forall>b \<in> set bs. length b = 16"
  shows "fold (ocb_step F l) [i..<i + length bs] (offset, pre @ concat bs @ post) =
    (fst (ocb_blocks F l i offset bs), pre @ concat (snd (ocb_blocks F l i offset bs)) @ post)"
  using assms
proof (induction bs arbitrary: pre i offset)
  case (Cons b bs)
  let ?o = "xor_16 offset (l ! ocb_ntz (Suc i))"
  let ?c = "xor_16 (F (xor_16 b ?o)) ?o"
  have "ocb_step F l i (offset, pre @ concat (b # bs) @ post) = (?o, (pre @ ?c) @ concat bs @ post)"
    using Cons.prems by (simp add: ocb_step_def Let_def mult.commute)
  moreover have "[i..<i + length (b # bs)] = i # [Suc i..<Suc i + length bs]"
    by (simp add: upt_rec)
  ultimately show ?case
    using Cons.IH [of "pre @ ?c" "Suc i" ?o] Cons.prems
    by (simp add: Let_def split: prod.split)
qed simp

lemma length_ocb_blocks:
  "c \<in> set (snd (ocb_blocks F l i offset bs)) \<Longrightarrow> length c = 16"
  by (induction bs arbitrary: i offset) (auto simp: Let_def case_prod_beta)

lemma length_snd_ocb_blocks [simp]: "length (snd (ocb_blocks F l i offset bs)) = length bs"
  by (induction bs arbitrary: i offset) (auto simp: Let_def case_prod_beta)

lemma ocb_blocks_inverse:
  assumes "\<And>b. length b = 16 \<Longrightarrow> D (E b) = b" and "\<And>b. length (E b) = 16"
  shows "\<forall>b \<in> set bs. length b = 16 \<Longrightarrow>
    ocb_blocks D l i offset (snd (ocb_blocks E l i offset bs)) = (fst (ocb_blocks E l i offset bs), bs)"
proof (induction bs arbitrary: i offset)
  case (Cons b bs)
  then show ?case
    using Cons.IH [of "Suc i" "xor_16 offset (l ! ocb_ntz (i + 1))"]
    by (simp add: Let_def assms case_prod_beta)
qed simp

subsection \<open>Layout of the ciphertext and of the decrypted text\<close>

text \<open>
  What happens after the full blocks: the last offset, the ciphertext of the partial block
  \<open>p\<close> and the checksum.
\<close>

definition ocb_last ::
  "(bytes \<Rightarrow> bytes) \<Rightarrow> bytes \<Rightarrow> bytes \<Rightarrow> bytes \<Rightarrow> bytes \<times> bytes \<times> bytes" where
  "ocb_last E offset ck p =
     (if p = [] then (offset, [], ck)
      else let n = length p; o' = xor_16 offset (ocb_l_asterisk E); ck' = xor_first n ck p
           in (o', take n (xor_first n (E o') p), ck'[n := ck' ! n XOR 0x80]))"

lemma length_ocb_last:
  assumes "\<And>b. length (E b) = 16" and "length p < 16"
  shows "length (fst (snd (ocb_last E offset ck p))) = length p"
  using assms by (simp add: ocb_last_def Let_def)

text \<open>The partial block is recovered by the same pad, with the same offset and checksum.\<close>

definition ocb_unlast ::
  "(bytes \<Rightarrow> bytes) \<Rightarrow> bytes \<Rightarrow> bytes \<Rightarrow> bytes \<Rightarrow> bytes \<times> bytes \<times> bytes" where
  "ocb_unlast E offset ck c =
     (if c = [] then (offset, [], ck)
      else let n = length c; o' = xor_16 offset (ocb_l_asterisk E);
               p = take n (xor_first n (E o') c); ck' = xor_first n ck p
           in (o', p, ck'[n := ck' ! n XOR 0x80]))"

lemma length_ocb_unlast:
  assumes "\<And>b. length (E b) = 16" and "length c < 16"
  shows "length (fst (snd (ocb_unlast E offset ck c))) = length c"
  using assms by (simp add: ocb_unlast_def Let_def)

lemma ocb_last_unlast:
  assumes "\<And>b. length (E b) = 16" and "length c < 16" and "ocb_unlast E offset ck c = (o', p, ck')"
  shows "ocb_last E offset ck p = (o', c, ck')"
proof (cases "c = []")
  case False
  then have p: "length p = length c"
    using length_ocb_unlast [of E c offset ck] assms by simp
  with False have "p \<noteq> []" by auto
  with p show ?thesis
    using assms False xor_first_twice [of "length c" "E (xor_16 offset (ocb_l_asterisk E))" c]
    by (auto simp: ocb_last_def ocb_unlast_def Let_def)
qed (use assms in \<open>auto simp: ocb_last_def ocb_unlast_def\<close>)

lemma ocb_unlast_last:
  assumes "\<And>b. length (E b) = 16" and "length p < 16" and "ocb_last E offset ck p = (o', c, ck')"
  shows "ocb_unlast E offset ck c = (o', p, ck')"
proof (cases "p = []")
  case False
  then have c: "length c = length p"
    using length_ocb_last [of E p offset ck] assms by simp
  with False have "c \<noteq> []" by auto
  with c show ?thesis
    using assms False xor_first_twice [of "length p" "E (xor_16 offset (ocb_l_asterisk E))" p]
    by (auto simp: ocb_last_def ocb_unlast_def Let_def)
qed (use assms in \<open>auto simp: ocb_last_def ocb_unlast_def\<close>)

lemma length_ocb_tag [len_simps, simp]: "length (ocb_tag E ck offset ld h) = 16"
  by (simp add: ocb_tag_def)

lemma ocb_encrypt_layout:
  assumes E: "\<And>b. length (E b) = 16"
    and msg: "message = concat ms @ p @ more" "\<forall>b \<in> set ms. length b = 16" "length p < 16"
    and n: "n = 16 * length ms + length p" and out: "n + 16 \<le> length out"
  shows "ocb_encrypt E nonce nl message n ad ad_len out =
    (let la = ocb_l_asterisk E;
         (fs1, ld, l) = ocb_l_table (ocb_l_length n ad_len) la;
         (fs2, offset) = ocb_offset E nonce nl;
         (offset, cs) = ocb_blocks E l 0 offset ms;
         (offset, cp, ck) = ocb_last E offset (ocb_checksum (16 * length ms) message) p
     in (fs1 @ fs2, concat cs @ cp @ ocb_tag E ck offset ld (hash E ad ad_len l la) @ drop (n + 16) out))"
proof -
  have div: "n div 16 = length ms" "n mod 16 = length p" using msg(3) n by simp_all
  have lenms: "length (concat ms) = 16 * length ms" using msg(2) by (rule length_concat_blocks)
  have tk: "buf_write out 0 (take n message) = concat ms @ p @ drop n out"
    using n lenms by (simp add: buf_write_0 msg(1))
  have loop: "fold (ocb_step E l) [0..<length ms] (offset, concat ms @ p @ drop n out) =
      (fst (ocb_blocks E l 0 offset ms), concat (snd (ocb_blocks E l 0 offset ms)) @ p @ drop n out)"
    for l offset using ocb_loop [of "[]" 0 ms E l offset] msg(2) by simp
  have lencs: "length (concat (snd (ocb_blocks E l 0 offset ms))) = 16 * length ms" for l offset
    using length_concat_blocks [of "snd (ocb_blocks E l 0 offset ms)" 16] length_ocb_blocks by fastforce
  have sl: "slice (16 * length ms) (length p) message = p"
    using lenms by (simp add: msg(1))
  have full: "n XOR length p = 16 * length ms" using nat_xor_mod_16 [of n] by (simp add: div)
  have wr: "buf_write (buf_write (xs @ p @ drop n out) (16 * length ms) pad) n tag =
      xs @ take (length p) pad @ tag @ drop (n + 16) out"
    if "length xs = 16 * length ms" "length pad = 16" "length tag = 16" for xs pad tag
    using that msg(3) out by (simp add: n buf_write_def ac_simps)
  show ?thesis
  proof (cases "p = []")
    case True
    then show ?thesis
      using n div full tk loop lencs
      by (simp add: ocb_encrypt_def Let_def case_prod_beta ocb_last_def add.commute)
  next
    case False
    then show ?thesis
      by (simp add: ocb_encrypt_def Let_def case_prod_beta div full tk loop lencs sl wr E
          ocb_last_def del: buf_write_append flip: n)
  qed
qed

lemma ocb_decrypt_layout:
  assumes E: "\<And>b. length (E b) = 16"
    and enc: "encrypted = concat cs @ cp @ tag @ more" "\<forall>b \<in> set cs. length b = 16" "length cp < 16"
      "length tag = 16"
    and n: "n = 16 * length cs + length cp" and out: "n \<le> length out"
  shows "ocb_decrypt E D nonce nl encrypted n ad ad_len out =
    (let la = ocb_l_asterisk E;
         (fs1, ld, l) = ocb_l_table (ocb_l_length n ad_len) la;
         (fs2, offset) = ocb_offset E nonce nl;
         (offset, ms) = ocb_blocks D l 0 offset cs;
         (offset, p, ck) = ocb_unlast E offset (ocb_checksum (16 * length cs) (concat ms)) cp;
         t = xor_16 (ocb_tag E ck offset ld (hash E ad ad_len l la)) tag
     in (fs1 @ fs2, uint (fold (\<lambda>i d. d OR t ! i) [0..<16] 0), concat ms @ p @ drop n out))"
proof -
  have div: "n div 16 = length cs" "n mod 16 = length cp" using enc(3) n by simp_all
  have lencs: "length (concat cs) = 16 * length cs" using enc(2) by (rule length_concat_blocks)
  have full: "n XOR length cp = 16 * length cs" using nat_xor_mod_16 [of n] by (simp add: div)
  have tk: "buf_write out 0 (take (16 * length cs) encrypted) = concat cs @ drop (16 * length cs) out"
    using lencs by (simp add: buf_write_0 enc(1))
  have loop: "fold (ocb_step D l) [0..<length cs] (offset, concat cs @ post) =
      (fst (ocb_blocks D l 0 offset cs), concat (snd (ocb_blocks D l 0 offset cs)) @ post)"
    for l offset post using ocb_loop [of "[]" 0 cs D l offset] enc(2) by simp
  have lenms: "length (concat (snd (ocb_blocks D l 0 offset cs))) = 16 * length cs" for l offset
    using length_concat_blocks [of "snd (ocb_blocks D l 0 offset cs)" 16] length_ocb_blocks by fastforce
  have ck: "ocb_checksum (16 * length cs) (concat (snd (ocb_blocks D l 0 offset cs)) @ post) =
      ocb_checksum (16 * length cs) (concat (snd (ocb_blocks D l 0 offset cs)))" for l offset post
    by (rule ocb_checksum_cong) (simp add: nth_append lenms)
  have sl: "slice (16 * length cs) (length cp) encrypted = cp" "slice n 16 encrypted = tag"
    using lencs n enc(4) by (simp_all add: enc(1) slice_def)
  have m: "min 16 (length cp) + 16 * length cs = n" using n enc(3) by (simp add: min_def)
  show ?thesis
  proof (cases "cp = []")
    case True
    then show ?thesis
      using n div full tk loop lenms ck sl
      by (simp add: ocb_decrypt_def Let_def case_prod_beta ocb_unlast_def)
  next
    case False
    then show ?thesis
      by (simp add: ocb_decrypt_def Let_def case_prod_beta div full tk loop lenms ck sl m E
          ocb_unlast_def xor_first_take)
  qed
qed

lemma text_split:
  assumes "n \<le> length xs"
  obtains ms p where "xs = concat ms @ p @ drop n xs" "\<forall>b \<in> set ms. length b = 16" "length p < 16"
    "n = 16 * length ms + length p" "take n xs = concat ms @ p"
proof -
  obtain ms where ms: "take (16 * (n div 16)) xs = concat ms" "length ms = n div 16"
    "\<forall>b \<in> set ms. length b = 16"
    using assms block_list_ex [of "take (16 * (n div 16)) xs" "n div 16"] by auto
  let ?p = "slice (16 * (n div 16)) (n mod 16) xs"
  have lenp: "length ?p = n mod 16" using assms by simp
  have tk: "take n xs = concat ms @ ?p"
    using take_add [of "16 * (n div 16)" "n mod 16" xs] ms(1) by (simp add: slice_def)
  then have "xs = concat ms @ ?p @ drop n xs" by (metis append.assoc append_take_drop_id)
  with ms(2,3) lenp tk show ?thesis by (intro that [of ms ?p]) simp_all
qed

lemma ocb_checksum_blocks:
  assumes "xs = concat ms @ ys" and "\<forall>b \<in> set ms. length b = 16"
  shows "ocb_checksum (16 * length ms) xs = ocb_checksum (16 * length ms) (concat ms)"
  using assms length_concat_blocks [OF assms(2)] by (intro ocb_checksum_cong) (simp add: nth_append)

text \<open>
  The difference the decryption returns is zero just for the tag that belongs to the text.
\<close>

lemma ocb_diff_eq_0:
  assumes "length t = 16" and "length t' = 16"
  shows "uint (fold (\<lambda>i d. d OR xor_16 t t' ! i) [0..<16] 0) = 0 \<longleftrightarrow> t' = t"
proof -
  have "fold (\<lambda>i d. d OR xor_16 t t' ! i) [0..<16] 0 = 0 \<longleftrightarrow> t' = t"
    using assms xor_16_eq_zeros [of t t'] by (subst fold_or_eq_0) auto
  then show ?thesis by (simp only: uint_0_iff)
qed

context block_cipher
begin

lemma ocb_decrypt_encrypt:
  assumes "n \<le> length message" and "n + 16 \<le> length out" and "n \<le> length out'"
  shows "ocb_decrypt (enc k) (dec k) nonce nl (snd (ocb_encrypt (enc k) nonce nl message n ad ad_len out))
      n ad ad_len out' =
    (fst (ocb_encrypt (enc k) nonce nl message n ad ad_len out), 0, take n message @ drop n out')"
proof -
  let ?E = "enc k"
  obtain ms p where msg: "message = concat ms @ p @ drop n message" "\<forall>b \<in> set ms. length b = 16"
    "length p < 16" and n: "n = 16 * length ms + length p" and tk: "take n message = concat ms @ p"
    using assms(1) by (rule text_split)
  obtain fs1 ld l where T: "ocb_l_table (ocb_l_length n ad_len) (ocb_l_asterisk ?E) = (fs1, ld, l)"
    by (metis prod_cases3)
  obtain fs2 o0 where O: "ocb_offset ?E nonce nl = (fs2, o0)" by fastforce
  obtain o1 cs where B: "ocb_blocks ?E l 0 o0 ms = (o1, cs)" by fastforce
  let ?ck = "ocb_checksum (16 * length ms) (concat ms)"
  obtain o2 cp ck where L: "ocb_last ?E o1 ?ck p = (o2, cp, ck)" by (metis prod_cases3)
  let ?tag = "ocb_tag ?E ck o2 ld (hash ?E ad ad_len l (ocb_l_asterisk ?E))"
  have enc: "ocb_encrypt ?E nonce nl message n ad ad_len out =
      (fs1 @ fs2, concat cs @ cp @ ?tag @ drop (n + 16) out)"
    using ocb_encrypt_layout [where E = ?E and nonce = nonce and nl = nl and ad = ad and ad_len = ad_len,
        OF length_enc msg n assms(2)]
    by (simp add: T O B L ocb_checksum_blocks [OF msg(1,2)])
  have lens: "length cp = length p" "length cs = length ms" "\<forall>b \<in> set cs. length b = 16"
    using length_ocb_last [of ?E p o1 ?ck] L B msg(3) length_ocb_blocks [of _ ?E l 0 o0 ms]
      length_snd_ocb_blocks [of ?E l 0 o0 ms] by (auto simp: length_enc)
  have cp: "length cp < 16" "n = 16 * length cs + length cp" using n msg(3) by (simp_all only: lens)
  have D: "ocb_blocks (dec k) l 0 o0 cs = (o1, ms)"
    using ocb_blocks_inverse [where E = ?E and D = "dec k", OF dec_enc length_enc msg(2), of l 0 o0] B
    by simp
  have U: "ocb_unlast ?E o1 ?ck cp = (o2, p, ck)"
    using ocb_unlast_last [OF length_enc msg(3) L] by simp
  have "ocb_decrypt ?E (dec k) nonce nl (snd (ocb_encrypt ?E nonce nl message n ad ad_len out)) n ad ad_len out' =
      (fs1 @ fs2, 0, concat ms @ p @ drop n out')"
    using ocb_decrypt_layout [where E = ?E and D = "dec k" and nonce = nonce and nl = nl and ad = ad and
        ad_len = ad_len, OF length_enc refl lens(3) cp(1) length_ocb_tag cp(2) assms(3)]
    by (simp add: enc T O D U lens(2) ocb_diff_eq_0)
  then show ?thesis by (simp add: enc tk)
qed

lemma ocb_accepts_iff:
  assumes "n + 16 \<le> length encrypted" and "n \<le> length out" and "n + 16 \<le> length buf"
    and dec: "ocb_decrypt (enc k) (dec k) nonce nl encrypted n ad ad_len out = (fs, ret, pt)"
  shows "ret = 0 \<longleftrightarrow>
    take (n + 16) (snd (ocb_encrypt (enc k) nonce nl pt n ad ad_len buf)) = take (n + 16) encrypted"
proof -
  let ?E = "enc k"
  have "n \<le> length encrypted" using assms(1) by simp
  then obtain cs cp where c: "encrypted = concat cs @ cp @ drop n encrypted" "\<forall>b \<in> set cs. length b = 16"
    "length cp < 16" and n: "n = 16 * length cs + length cp" and tk: "take n encrypted = concat cs @ cp"
    by (rule text_split)
  define tag where "tag = slice n 16 encrypted"
  have tag: "length tag = 16" using assms(1) by (simp add: tag_def)
  have enc: "encrypted = concat cs @ cp @ tag @ drop (n + 16) encrypted"
    using c(1) by (metis add.commute append_take_drop_id drop_drop slice_def tag_def)
  obtain fs1 ld l where T: "ocb_l_table (ocb_l_length n ad_len) (ocb_l_asterisk ?E) = (fs1, ld, l)"
    by (metis prod_cases3)
  obtain fs2 o0 where O: "ocb_offset ?E nonce nl = (fs2, o0)" by fastforce
  obtain o1 ms where D: "ocb_blocks (dec k) l 0 o0 cs = (o1, ms)" by fastforce
  let ?ck = "ocb_checksum (16 * length cs) (concat ms)"
  obtain o2 p ck where U: "ocb_unlast ?E o1 ?ck cp = (o2, p, ck)" by (metis prod_cases3)
  let ?tag = "ocb_tag ?E ck o2 ld (hash ?E ad ad_len l (ocb_l_asterisk ?E))"
  have "ret = uint (fold (\<lambda>i d. d OR xor_16 ?tag tag ! i) [0..<16] 0)"
    and pt: "pt = concat ms @ p @ drop n out"
    using dec ocb_decrypt_layout [where E = ?E and D = "dec k" and nonce = nonce and nl = nl and ad = ad
        and ad_len = ad_len, OF length_enc enc c(2,3) tag n assms(2)]
    by (simp_all add: T O D U)
  then have ret: "ret = 0 \<longleftrightarrow> tag = ?tag" using ocb_diff_eq_0 [OF length_ocb_tag tag] by simp
  have lens: "length p = length cp" "length ms = length cs" "\<forall>b \<in> set ms. length b = 16"
    using length_ocb_unlast [of ?E cp o1 ?ck] U D c(3) length_ocb_blocks [of _ "dec k" l 0 o0 cs]
      length_snd_ocb_blocks [of "dec k" l 0 o0 cs] by (auto simp: length_enc)
  have p: "length p < 16" "n = 16 * length ms + length p" using n c(3) by (simp_all only: lens)
  have B: "ocb_blocks ?E l 0 o0 ms = (o1, cs)"
    using ocb_blocks_inverse [where E = "dec k" and D = ?E, OF enc_dec length_dec c(2), of l 0 o0] D
    by simp
  have L: "ocb_last ?E o1 ?ck p = (o2, cp, ck)"
    using ocb_last_unlast [OF length_enc c(3) U] by simp
  have ck: "ocb_checksum (16 * length cs) pt = ?ck"
    using ocb_checksum_blocks [OF pt lens(3)] by (simp only: lens(2))
  have "snd (ocb_encrypt ?E nonce nl pt n ad ad_len buf) = concat cs @ cp @ ?tag @ drop (n + 16) buf"
    using ocb_encrypt_layout [where E = ?E and nonce = nonce and nl = nl and ad = ad and ad_len = ad_len,
        OF length_enc pt lens(3) p assms(3)]
    by (simp add: T O B L ck lens(2))
  moreover have "length (concat cs @ cp) = n" using tk assms(1) by (metis length_take min_absorb2 add_leD1)
  ultimately show ?thesis
    by (subst enc) (auto simp: ret tag)
qed

end

subsection \<open>Doubling in the field with 2 to the 128 elements\<close>

text \<open>The block as a big-endian 128-bit word.\<close>

definition be128 :: "bytes \<Rightarrow> 128 word" where
  "be128 s = fold (\<lambda>b w. push_bit 8 w OR ucast b) s 0"

lemma bit_be_fold:
  "bit (fold (\<lambda>b w. push_bit 8 w OR ucast b) (s :: bytes) (w :: 128 word)) n \<longleftrightarrow>
     n < 128 \<and> (if n < 8 * length s then bit (s ! (length s - 1 - n div 8)) (n mod 8)
                else bit w (n - 8 * length s))"
proof (induction s arbitrary: w)
  case Nil
  then show ?case by (auto dest: bit_imp_le_length)
next
  case (Cons b s)
  have e: "n - (8 * length s + 8) = n - 8 * length (b # s)" by simp
  consider "n < 8 * length s" | "8 * length s \<le> n" "n < 8 * length (b # s)" | "8 * length (b # s) \<le> n"
    by fastforce
  then show ?case
  proof cases
    case 1
    then have "length s - n div 8 = Suc (length s - Suc (n div 8))" by (simp add: Suc_diff_Suc less_mult_imp_div_less mult.commute)
    with 1 show ?thesis by (simp add: Cons.IH)
  next
    case 2
    then have "n div 8 = length s" "n mod 8 = n - 8 * length s" by simp_all presburger+
    with 2 show ?thesis by (auto simp: Cons.IH bit_simps)
  next
    case 3
    then have "\<not> bit b (n - 8 * length s)" by (auto dest!: bit_imp_le_length)
    with 3 show ?thesis by (auto simp: Cons.IH bit_simps e )
  qed
qed

lemma bit_be128: "length s = 16 \<Longrightarrow> bit (be128 s) n \<longleftrightarrow> n < 128 \<and> bit (s ! (15 - n div 8)) (n mod 8)"
  by (simp add: be128_def bit_be_fold)

lemma fold_double_step:
  assumes "length s = 16" and "k \<le> 15"
  shows "fold double_step [0..<k] s =
    map (\<lambda>i. if i < k then push_bit 1 (s ! i AND 127) OR drop_bit 7 (s ! (i + 1)) else s ! i) [0..<16]"
  using assms(2)
proof (induction k)
  case 0
  show ?case using assms(1) by (simp add: list_eq_iff_nth_eq)
next
  case (Suc k)
  then show ?case
    by (simp add: double_step_def list_eq_iff_nth_eq nth_list_update)
qed

lemma bit_127_iff: "bit (127 :: int) n \<longleftrightarrow> n < 7"
proof -
  have "(127 :: int) = mask 7" by (simp add: mask_eq_exp_minus_1)
  then show ?thesis by (simp only: bit_mask_iff) simp
qed

lemma bit_135_iff: "bit (135 :: int) n \<longleftrightarrow> n = 0 \<or> n = 1 \<or> n = 2 \<or> n = 7"
  by (auto simp: bit_numeral_rec bit_1_iff split: nat.splits)

lemma bit_push_1:
  "bit (push_bit 1 (w :: 'a::len word)) n \<longleftrightarrow> 0 < n \<and> n < LENGTH('a) \<and> bit w (n - 1)"
  by (auto simp: bit_simps simp del: push_bit_Suc One_nat_def)

lemma double_arr_nth:
  assumes "length s = 16" and "i < 16"
  shows "double_arr s ! i =
    (if i < 15 then push_bit 1 (s ! i) OR drop_bit 7 (s ! (i + 1))
     else push_bit 1 (s ! 15) XOR (if bit (s ! 0) 7 then 135 else 0))"
proof -
  have push: "push_bit 1 b AND push_bit 1 127 = push_bit 1 b" for b :: u8
    by (rule bit_word_eqI) (auto simp: bit_simps bit_127_iff simp del: push_bit_Suc One_nat_def)
  have "bit b (7 + n) \<longleftrightarrow> n = 0 \<and> bit b 7" for b :: u8 and n
    using bit_imp_le_length [of b "7 + n"] by (cases n) auto
  then have "drop_bit 7 b = (if bit b 7 then 1 else 0)" for b :: u8
    by (intro bit_word_eqI) (auto simp: bit_simps)
  then have first: "- drop_bit 7 b AND 135 = (if bit b 7 then 135 else 0 :: u8)" for b :: u8
    by simp
  show ?thesis
    using assms
    by (simp add: double_arr_def Let_def fold_double_step first push nth_list_update less_Suc_eq
        del: push_bit_Suc One_nat_def)
qed

lemma length_double_arr [simp]: "length (double_arr s) = length s"
proof -
  have "length (fold double_step is s) = length s" for "is"
    by (induction "is" arbitrary: s) (simp_all add: double_step_def)
  then show ?thesis by (simp add: double_arr_def Let_def)
qed

lemma double_arr_field:
  assumes "length s = 16"
  shows "be128 (double_arr s) = push_bit 1 (be128 s) XOR (if bit (be128 s) 127 then 135 else 0)"
proof (rule bit_word_eqI)
  fix n assume "n < LENGTH(128)"
  then have q: "n div 8 < 16" and n: "n = 8 * (n div 8) + n mod 8" "n < 128" by simp_all
  define i j where ij: "i = n div 8" "j = n mod 8"
  have n: "n = 8 * i + j" "i < 16" "j < 8" using n q by (simp_all add: ij)
  have msb: "bit (be128 s) 127 = bit (s ! 0) 7" using assms by (simp add: bit_be128)
  have l: "bit (be128 (double_arr s)) n = bit (double_arr s ! (15 - i)) j"
    using n assms by (simp add: bit_be128)
  have r: "bit (push_bit 1 (be128 s)) n =
    (if j = 0 then 0 < i \<and> bit (s ! (15 - (i - 1))) 7 else bit (s ! (15 - i)) (j - 1))"
  proof (cases "j = 0")
    case True
    show ?thesis
    proof (cases i)
      case (Suc i')
      then have "n - 1 = 8 * i' + 7" using True n by simp
      then show ?thesis unfolding bit_push_1 using True Suc n assms by (simp add: bit_be128)
    qed (unfold bit_push_1, use True n in simp)
  next
    case False
    then obtain j' where "j = Suc j'" by (cases j) auto
    then show ?thesis unfolding bit_push_1 using n assms by (simp add: bit_be128)
  qed
  have l2: "bit (double_arr s ! (15 - i)) j =
    (if i = 0 then ((0 < j \<and> bit (s ! 15) (j - 1)) \<noteq> (bit (s ! 0) 7 \<and> bit (135 :: u8) j))
     else if j = 0 then bit (s ! (15 - (i - 1))) 7 else bit (s ! (15 - i)) (j - 1))"
  proof (cases "i = 0")
    case True
    then have d: "double_arr s ! (15 - i) = push_bit 1 (s ! 15) XOR (if bit (s ! 0) 7 then 135 else 0)"
      using assms by (simp add: double_arr_nth)
    show ?thesis unfolding d bit_xor_iff bit_push_1 using True n by auto
  next
    case False
    then have "15 - i < 15" "15 - i + 1 = 15 - (i - 1)" using n by simp_all
    then have d: "double_arr s ! (15 - i) = push_bit 1 (s ! (15 - i)) OR drop_bit 7 (s ! (15 - (i - 1)))"
      using assms by (simp only: double_arr_nth) simp
    show ?thesis
      using False n bit_imp_le_length [of "s ! (15 - (i - 1))" "7 + j"]
      unfolding d bit_or_iff bit_push_1 bit_drop_bit_eq by (auto simp: comp_def)
  qed
  have b: "bit (135 :: 128 word) n \<longleftrightarrow> i = 0 \<and> bit (135 :: u8) j"
    using n by (cases i) (auto simp: bit_135_iff)
  show "bit (be128 (double_arr s)) n = bit (push_bit 1 (be128 s) XOR (if bit (be128 s) 127 then 135 else 0)) n"
   unfolding l l2 bit_xor_iff r msb
   using b by auto
qed

subsection \<open>Shifting the stretched nonce\<close>

text \<open>Bit \<open>k\<close> of a byte string, counted from its most significant end.\<close>

definition be_bit :: "bytes \<Rightarrow> nat \<Rightarrow> bool" where
  "be_bit a k = bit (a ! (k div 8)) (7 - k mod 8)"

definition shift_byte :: "nat \<Rightarrow> u8 \<Rightarrow> u8 \<Rightarrow> u8" where
  "shift_byte t a b = ucast ((push_bit t (ucast a :: u32) OR drop_bit (8 - t) (ucast b)) AND 255)"

lemma bit_shift_byte: "t < 8 \<Longrightarrow> j < 8 \<Longrightarrow> bit (shift_byte t a b) j = (if t \<le> j then bit a (j - t) else bit b (8 + j - t))"
  using bit_imp_le_length [of b "8 - t + j"] 
  by (auto simp: shift_byte_def bit_simps bit_255_iff)

lemma ocb_shift_loop:
  assumes "length a = 24" and "k \<le> 16" and "bottom < 64"
  shows "fold (\<lambda>i a. a[i := ucast ((push_bit (bottom mod 8) (ucast (a ! (i + bottom div 8)) :: u32) OR
                    drop_bit (8 - bottom mod 8) (ucast (a ! (i + bottom div 8 + 1)))) AND 255)]) [0..<k] a =
    map (\<lambda>i. if i < k then shift_byte (bottom mod 8) (a ! (i + bottom div 8)) (a ! (i + bottom div 8 + 1)) else a ! i) [0..<24]"
  using assms(2)
proof (induction k)
  case 0
  show ?case using assms(1) by (simp add: list_eq_iff_nth_eq)
next
  case (Suc k)
  have "k + bottom div 8 + 1 < 24" using Suc.prems assms(3) by simp
  with Suc show ?case
    by (simp add: list_eq_iff_nth_eq nth_list_update shift_byte_def)
qed

lemma split_by_8:
  fixes r q :: nat
  assumes "r < 16"
  shows "(8 * q + r) div 8 = (if r < 8 then q else q + 1)" and "(8 * q + r) mod 8 = (if r < 8 then r else r - 8)"
proof -
  have "(8 * q + r) div 8 = q + r div 8" "(8 * q + r) mod 8 = r mod 8" by simp_all
  moreover have "r div 8 = 1" "r mod 8 = r - 8" if "8 \<le> r" using that assms by (simp_all add: div_if mod_if)
  ultimately show "(8 * q + r) div 8 = (if r < 8 then q else q + 1)" "(8 * q + r) mod 8 = (if r < 8 then r else r - 8)"
    by (simp_all add: not_less)
qed

lemma ocb_shift_bits:
  assumes "length a = 24" and "bottom < 64" and "k < 128"
  shows "be_bit (take 16 (ocb_shift bottom a)) k = be_bit a (bottom + k)"
proof -
  define s t i j where d: "s = bottom div 8" "t = bottom mod 8" "i = k div 8" "j = k mod 8"
  have e: "bottom = 8 * s + t" "k = 8 * i + j" "t < 8" "j < 8" "s < 8" "i < 16"
    using assms by (simp_all add: d)
  have m: "take 16 (ocb_shift bottom a) ! i = shift_byte t (a ! (i + s)) (a ! (i + s + 1))"
    using assms e(6)
    unfolding ocb_shift_def Let_def ocb_shift_loop [OF assms(1) order.refl assms(2)] by (simp add: d)
  have p: "(bottom + k) div 8 = (if t + j < 8 then i + s else i + s + 1)"
     "(bottom + k) mod 8 = (if t + j < 8 then t + j else t + j - 8)"
    using e(3,4) split_by_8 [of "t + j" "i + s"] unfolding e(1,2) by (simp_all add: algebra_simps)
  show ?thesis
    using e(3,4) unfolding be_bit_def p by (auto simp: m bit_shift_byte add.commute simp flip: d)
qed

subsection \<open>The table of offsets is large enough\<close>

lemma ocb_ntz_le: "0 < a \<Longrightarrow> 2 ^ ocb_ntz a \<le> a"
proof (induction a rule: ocb_ntz.induct)
  case (1 a)
  then show ?case by (subst ocb_ntz.simps) (auto elim!: evenE)
qed

lemma ocb_ntz_less: "i < m \<Longrightarrow> ocb_ntz (i + 1) < ocb_ntz_round_plus_1 m"
proof -
  assume "i < m"
  then have "2 ^ ocb_ntz (i + 1) < (2 :: nat) ^ bit_count m"
    using ocb_ntz_le [of "i + 1"] less_bit_count [of m] by linarith
  then have "ocb_ntz (i + 1) < bit_count m" by (rule power_less_imp_less_exp [rotated]) simp
  then show ?thesis using \<open>i < m\<close> by (simp add: ocb_ntz_round_plus_1_def)
qed

lemma length_l_table_fold:
  "length (fold (\<lambda>i l. l @ [f (l ! (i - 1))]) [1..<n] [x]) = max 1 n"
  by (induction n) auto

lemma length_ocb_l_table: "length (snd (snd (ocb_l_table n la))) = max 1 n"
  by (simp add: ocb_l_table_def Let_def length_l_table_fold del: One_nat_def)

lemma ocb_ntz_less_l_length:
  assumes "i < n div 16 \<or> i < ad_len div 16"
  shows "ocb_ntz (i + 1) < ocb_l_length n ad_len"
proof -
  have "i < (if n > ad_len then n div 16 else ad_len div 16)"
    using assms div_le_mono [of ad_len n 16] div_le_mono [of n ad_len 16] by auto
  then show ?thesis using ocb_ntz_less by (simp add: ocb_l_length_def del: One_nat_def split: if_splits)
qed

lemma ocb_l_length_eq_0: "ocb_l_length n ad_len = 0 \<longleftrightarrow> n < 16 \<and> ad_len < 16"
  by (auto simp: ocb_l_length_def ocb_ntz_round_plus_1_def)

subsection \<open>Stores outside the arrays\<close>

lemma fold_arr_set:
  "length (snd (fold (\<lambda>i. arr_set nm (b + int i) (f i)) is s)) = length (snd s)"
  "fst (fold (\<lambda>i. arr_set nm (b + int i) (f i)) is s) = fst s @
     map (\<lambda>i. OutOfBounds nm (b + int i)) (filter (\<lambda>i. \<not> (0 \<le> b + int i \<and> b + int i < int (length (snd s)))) is)"
  by (induction "is" arbitrary: s) (auto split: prod.splits simp: case_prod_beta)

lemma ocb_nonce_faults:
  assumes "nl \<le> 16"
  shows "fst (ocb_nonce nonce nl) = (if nl = 16 then [OutOfBounds ''offset'' (-1)] else [])"
proof -
  have "filter (\<lambda>i. \<not> (0 \<le> 15 - int nl + 1 + int i \<and> 15 - int nl + 1 + int i < 24)) [0..<nl] = []"
    using assms by (auto simp: filter_empty_conv)
  then show ?thesis using assms
    by (auto simp: ocb_nonce_def Let_def fold_arr_set(2) simp del: diff_add_eq)
qed

lemma ocb_faults:
  fixes n ad_len :: nat
  assumes "nl \<le> 16"
  defines "fs \<equiv> (if n < 16 \<and> ad_len < 16 then [OutOfBounds ''l'' 0] else []) @
    (if nl = 16 then [OutOfBounds ''offset'' (-1)] else [])"
  shows "fst (ocb_encrypt E nonce nl message n ad ad_len out) = fs"
    and "fst (ocb_decrypt E D nonce nl encrypted n ad ad_len out) = fs"
  using ocb_nonce_faults [OF assms(1), of nonce]
  by (simp_all add: ocb_encrypt_def ocb_decrypt_def Let_def case_prod_beta ocb_l_table_def
      ocb_offset_def ocb_l_length_eq_0 fs_def del: One_nat_def)

subsection \<open>Only the given lengths are read\<close>

lemma hash_cong:
  assumes "take n ad = take n ad'"
  shows "hash E ad n l la = hash E ad' n l la"
proof -
  have "slice (i * 16) 16 ad = slice (i * 16) 16 ad'" if "i < n div 16" for i
    using that by (intro slice_cong [OF assms]) simp
  then have "fold (hash_step E ad l) [0..<n div 16] s = fold (hash_step E ad' l) [0..<n div 16] s" for s
    by (intro fold_cong) (auto simp: hash_step_def Let_def)
  moreover have "slice (n XOR n mod 16) (n mod 16) ad = slice (n XOR n mod 16) (n mod 16) ad'"
    by (intro slice_cong [OF assms]) (simp add: nat_xor_mod_16)
  ultimately show ?thesis by (simp add: hash_def Let_def cong: if_cong)
qed

lemma ocb_encrypt_ad_cong:
  "take ad_len ad = take ad_len ad' \<Longrightarrow>
    ocb_encrypt E nonce nl message n ad ad_len out = ocb_encrypt E nonce nl message n ad' ad_len out"
  by (simp add: ocb_encrypt_def hash_cong [of ad_len ad ad'])

lemma ocb_decrypt_cong:
  assumes "take ad_len ad = take ad_len ad'" and "take (n + 16) encrypted = take (n + 16) encrypted'"
  shows "ocb_decrypt E D nonce nl encrypted n ad ad_len out =
    ocb_decrypt E D nonce nl encrypted' n ad' ad_len out"
proof -
  let ?f = "n XOR n mod 16"
  have f: "?f + n mod 16 = n" by (simp add: nat_xor_mod_16)
  have "take ?f encrypted = take ?f encrypted'"
    using arg_cong [OF assms(2), of "take ?f"] f by (simp add: min_def split: if_splits)
  moreover have "slice ?f (n mod 16) encrypted = slice ?f (n mod 16) encrypted'"
    using f by (intro slice_cong [OF assms(2)]) simp
  moreover have "slice n 16 encrypted = slice n 16 encrypted'" by (intro slice_cong [OF assms(2)]) simp
  ultimately show ?thesis by (simp add: ocb_decrypt_def Let_def hash_cong [OF assms(1)] cong: if_cong)
qed

lemma length_ocb_encrypt:
  assumes "\<And>b. length (E b) = 16" and "n \<le> length message" and "n + 16 \<le> length out"
  shows "length (snd (ocb_encrypt E nonce nl message n ad ad_len out)) = length out \<and>
    drop (n + 16) (snd (ocb_encrypt E nonce nl message n ad ad_len out)) = drop (n + 16) out"
proof -
  obtain ms p where msg: "message = concat ms @ p @ drop n message" "\<forall>b \<in> set ms. length b = 16"
    "length p < 16" and n: "n = 16 * length ms + length p" using assms(2) by (rule text_split)
  obtain fs1 ld l where T: "ocb_l_table (ocb_l_length n ad_len) (ocb_l_asterisk E) = (fs1, ld, l)"
    by (metis prod_cases3)
  obtain fs2 o0 where O: "ocb_offset E nonce nl = (fs2, o0)" by fastforce
  obtain o1 cs where B: "ocb_blocks E l 0 o0 ms = (o1, cs)" by fastforce
  obtain o2 cp ck where L: "ocb_last E o1 (ocb_checksum (16 * length ms) message) p = (o2, cp, ck)"
    by (metis prod_cases3)
  let ?t = "ocb_tag E ck o2 ld (hash E ad ad_len l (ocb_l_asterisk E))"
  have e: "snd (ocb_encrypt E nonce nl message n ad ad_len out) = (concat cs @ cp @ ?t) @ drop (n + 16) out"
    using ocb_encrypt_layout [where E = E and nonce = nonce and nl = nl and ad = ad and ad_len = ad_len,
        OF assms(1) msg n assms(3)] by (simp add: T O B L)
  have "length cp = length p" "length cs = length ms" "\<forall>b \<in> set cs. length b = 16"
    using length_ocb_last [of E p o1 "ocb_checksum (16 * length ms) message"] L B msg(3) assms(1)
      length_ocb_blocks [of _ E l 0 o0 ms] length_snd_ocb_blocks [of E l 0 o0 ms] by auto
  then have "length (concat cs @ cp @ ?t) = n + 16"
    using length_concat_blocks [of cs 16] by (simp add: n)
  then show ?thesis using assms(3) by (simp add: e del: append_assoc)
qed

subsection \<open>Properties\<close>







text \<open>
  Every row of the table the loops read, for a full block of the message or of the
  associated data, is a row the table has.
\<close>

lemma SM4_OCB_table_in_bounds:
  assumes "i < n div 16 \<or> i < ad_len div 16"
  shows "ocb_ntz (i + 1) < ocb_l_length n ad_len \<and>
    length (snd (snd (ocb_l_table (ocb_l_length n ad_len) l_asterisk))) = ocb_l_length n ad_len"
  using ocb_ntz_less_l_length [OF assms] by (simp add: length_ocb_l_table)

lemma SM4_OCB_table_in_bounds_example:
  "ocb_ntz (7 + 1) < ocb_l_length 130 5"
  using SM4_OCB_table_in_bounds [of 7 130 5] by simp

text \<open>
  C38: \<open>double_arr\<close> doubles in the field with \<open>2 ^ 128\<close> elements: read as a big-endian
  number, the block is shifted left by one bit and, when a bit is lost, reduced by the
  polynomial \<open>x^128 + x^7 + x^2 + x + 1\<close>.
\<close>

theorem double_arr_is_field_doubling:
  assumes "length s = 16"
  shows "be128 (double_arr s) = push_bit 1 (be128 s) XOR (if bit (be128 s) 127 then 135 else 0)"
  using assms by (rule double_arr_field)

theorem double_arr_is_field_doubling_witness:
  "be128 (double_arr (replicate 16 0x80)) =
    push_bit 1 (be128 (replicate 16 0x80)) XOR (if bit (be128 (replicate 16 0x80)) 127 then 135 else 0)"
  by (rule double_arr_is_field_doubling) simp

text \<open>
  The initial offset is the run of 128 bits of the stretched nonce that starts at bit
  \<open>bottom\<close>, although the loop shifts the array in place.
\<close>

lemma ocb_shift_selects_bits:
  assumes "length a = 24" and "bottom < 64" and "k < 128"
  shows "be_bit (take 16 (ocb_shift bottom a)) k = be_bit a (bottom + k)"
  using assms by (rule ocb_shift_bits)

lemma ocb_shift_selects_bits_example:
  "be_bit (take 16 (ocb_shift 37 (replicate 24 0xA5))) 90 = be_bit (replicate 24 0xA5) (37 + 90)"
  by (rule ocb_shift_selects_bits) simp_all

end
