(* ===== verification/Seal.thy ===== *)
theory Seal
  imports SM4_OCB
begin

text \<open>
  Sealing, \<^verbatim>\<open>lib/app/src/seal.c\<close> with \<^verbatim>\<open>seal.h\<close>: data is encrypted under a key that the secure
  monitor derives from a random salt, and stored with salt, nonce, tag and additional text.

  Two services are outside the file and are parameters. \<open>EAPP_GET_KEY salt salt_len key_len\<close>
  is the monitor call of \<^verbatim>\<open>eret.S\<close>: its return value and the key buffer afterwards.
  \<open>penglai_read_rand g n\<close> is the pseudo-random generator with its hidden state made
  explicit: \<open>n\<close> bytes and the next state. A pointer that may be \<open>NULL\<close> is an option.
  The messages printed on the error paths and the clearing of dead local arrays are left out.
\<close>

subsection \<open>Data\<close>

type_synonym key_service = "bytes \<Rightarrow> nat \<Rightarrow> nat \<Rightarrow> u64 \<times> bytes"
type_synonym 'g random_service = "'g \<Rightarrow> nat \<Rightarrow> bytes \<times> 'g"

record penglai_sealed_data_t =
  sd_nonce :: bytes
  sd_salt :: bytes
  txt_encrypt_size :: u32
  add_mac_txt_size :: u32
  payload_data :: bytes

definition SEAL_KEY_SALT_LEN :: nat where "SEAL_KEY_SALT_LEN = 16"
definition SEAL_KEY_LEN :: nat where "SEAL_KEY_LEN = 16"
definition SEAL_DATA_NONCE_LEN :: nat where "SEAL_DATA_NONCE_LEN = 16"
definition SEAL_DATA_TAG_LEN :: u32 where "SEAL_DATA_TAG_LEN = 16"
definition sizeof_sealed_data :: u32 where "sizeof_sealed_data = 40"
definition UINT32_MAX :: u32 where "UINT32_MAX = 0xFFFFFFFF"

lemmas seal_consts = SEAL_KEY_SALT_LEN_def SEAL_KEY_LEN_def SEAL_DATA_NONCE_LEN_def
  SEAL_DATA_TAG_LEN_def sizeof_sealed_data_def UINT32_MAX_def

subsection \<open>Operations\<close>

text \<open>The \<open>unsigned long\<close> of the monitor call is stored in an \<open>int\<close>.\<close>

definition DeriveSealingKey :: "key_service \<Rightarrow> bytes \<Rightarrow> nat \<Rightarrow> nat \<Rightarrow> int \<times> bytes" where
  "DeriveSealingKey EAPP_GET_KEY salt salt_len seal_key_len =
     (let (r, seal_key_buf) = EAPP_GET_KEY salt salt_len seal_key_len
      in (sint (ucast r :: u32), seal_key_buf))"

definition penglai_calc_sealed_data_size :: "u32 \<Rightarrow> u32 \<Rightarrow> u32" where
  "penglai_calc_sealed_data_size mac_size txt_size =
     (if UINT32_MAX - mac_size \<le> txt_size then UINT32_MAX
      else if UINT32_MAX - (mac_size + txt_size) \<le> SEAL_DATA_TAG_LEN then UINT32_MAX
      else if UINT32_MAX - (mac_size + txt_size + SEAL_DATA_TAG_LEN) \<le> sizeof_sealed_data
        then UINT32_MAX
      else mac_size + txt_size + SEAL_DATA_TAG_LEN + sizeof_sealed_data)"

definition penglai_get_add_mac_txt_len :: "penglai_sealed_data_t option \<Rightarrow> u32" where
  "penglai_get_add_mac_txt_len p_sealed_data =
     (case p_sealed_data of None \<Rightarrow> UINT32_MAX | Some sd \<Rightarrow> add_mac_txt_size sd)"

definition penglai_get_encrypt_txt_len :: "penglai_sealed_data_t option \<Rightarrow> u32" where
  "penglai_get_encrypt_txt_len p_sealed_data =
     (case p_sealed_data of None \<Rightarrow> UINT32_MAX | Some sd \<Rightarrow> txt_encrypt_size sd)"

text \<open>The length of the additional text is passed as a \<open>uint8_t\<close>.\<close>

definition data_copy ::
  "penglai_sealed_data_t \<Rightarrow> bytes \<Rightarrow> bytes \<Rightarrow> bytes option \<Rightarrow> u8 \<Rightarrow> penglai_sealed_data_t" where
  "data_copy sealed_data salt nonce mac_data mac_data_len =
     (let sd = sealed_data\<lparr>sd_salt := take SEAL_KEY_SALT_LEN salt, sd_nonce := take SEAL_DATA_NONCE_LEN nonce\<rparr>;
          mac_data_offset = txt_encrypt_size sd + SEAL_DATA_TAG_LEN;
          sd = (case mac_data of
                  None \<Rightarrow> sd
                | Some mac \<Rightarrow>
                    if mac_data_len \<noteq> 0
                    then sd\<lparr>payload_data := buf_write (payload_data sd) (unat mac_data_offset)
                              (take (unat mac_data_len) mac)\<rparr>
                    else sd)
      in sd\<lparr>add_mac_txt_size := ucast mac_data_len\<rparr>)"

definition penglai_seal_data ::
  "key_service \<Rightarrow> 'g random_service \<Rightarrow> 'g \<Rightarrow> u32 \<Rightarrow> bytes option \<Rightarrow> u32 \<Rightarrow> bytes \<Rightarrow> u32 \<Rightarrow>
     penglai_sealed_data_t \<Rightarrow> fault list \<times> int \<times> penglai_sealed_data_t \<times> 'g" where
  "penglai_seal_data EAPP_GET_KEY penglai_read_rand g additional_MACtext_length p_additional_MACtext
      text2encrypt_length p_text2encrypt sealed_data_size p_sealed_data =
     (if penglai_calc_sealed_data_size additional_MACtext_length text2encrypt_length > sealed_data_size
      then ([], -1, p_sealed_data, g)
      else
        let (salt, g) = penglai_read_rand g SEAL_KEY_SALT_LEN;
            (result, key_buf) = DeriveSealingKey EAPP_GET_KEY salt SEAL_KEY_SALT_LEN SEAL_KEY_LEN
        in if result \<noteq> 0 then ([], -1, p_sealed_data, g)
           else
             let (nonce, g) = penglai_read_rand g SEAL_DATA_NONCE_LEN;
                 (fs, payload) = SM4_OCB_Encrypt key_buf nonce SEAL_DATA_NONCE_LEN p_text2encrypt
                   (unat text2encrypt_length) (case p_additional_MACtext of None \<Rightarrow> [] | Some ad \<Rightarrow> ad)
                   (unat additional_MACtext_length) (payload_data p_sealed_data);
                 sd = p_sealed_data\<lparr>payload_data := payload, txt_encrypt_size := text2encrypt_length\<rparr>;
                 sd = data_copy sd salt nonce p_additional_MACtext (ucast additional_MACtext_length)
             in (fs, result, sd, g))"

text \<open>
  Unsealing returns the two output buffers and the two lengths it was given pointers to, or
  the null dereference that stops it.
\<close>

record unseal_result =
  us_faults :: "fault list"
  us_ret :: int
  us_mac :: bytes
  us_mac_len :: u32
  us_text :: bytes
  us_text_len :: u32

definition penglai_unseal_data ::
  "key_service \<Rightarrow> penglai_sealed_data_t option \<Rightarrow> bytes \<Rightarrow> u32 \<Rightarrow> bytes \<Rightarrow> u32 \<Rightarrow> fault + unseal_result" where
  "penglai_unseal_data EAPP_GET_KEY p_sealed_data p_additional_MACtext additional_MACtext_length
      p_decrypted_text decrypted_text_length =
     (let r = \<lparr>us_faults = [], us_ret = -1, us_mac = p_additional_MACtext,
                us_mac_len = additional_MACtext_length, us_text = p_decrypted_text,
                us_text_len = decrypted_text_length\<rparr>
      in if penglai_get_encrypt_txt_len p_sealed_data > decrypted_text_length then Inr r
         else if penglai_get_add_mac_txt_len p_sealed_data > additional_MACtext_length then Inr r
         else case p_sealed_data of
           None \<Rightarrow> Inl (NullDeref ''p_sealed_data'')
         | Some sd \<Rightarrow>
             let (result, key_buf) = DeriveSealingKey EAPP_GET_KEY (sd_salt sd) SEAL_KEY_SALT_LEN SEAL_KEY_LEN
             in if result \<noteq> 0 then Inr (r\<lparr>us_ret := result\<rparr>)
                else
                  let mac_data_offset = unat (txt_encrypt_size sd + SEAL_DATA_TAG_LEN);
                      (fs, result, text) = SM4_OCB_Decrypt key_buf (sd_nonce sd) SEAL_DATA_NONCE_LEN
                        (payload_data sd) (unat (txt_encrypt_size sd)) (drop mac_data_offset (payload_data sd))
                        (unat (add_mac_txt_size sd)) p_decrypted_text
                  in Inr \<lparr>us_faults = fs, us_ret = result,
                           us_mac = buf_write p_additional_MACtext 0
                             (slice mac_data_offset (unat (add_mac_txt_size sd)) (payload_data sd)),
                           us_mac_len = add_mac_txt_size sd, us_text = text,
                           us_text_len = txt_encrypt_size sd\<rparr>)"

subsection \<open>Sizes\<close>

lemma unat_UINT32_MAX [simp]: "unat UINT32_MAX = 2 ^ 32 - 1"
  by (simp add: UINT32_MAX_def)

lemma UINT32_MAX_minus: "unat (UINT32_MAX - a) = 2 ^ 32 - 1 - unat a"
proof -
  have "unat a < 2 ^ LENGTH(32)" by (rule unsigned_less)
  then have "unat a \<le> unat UINT32_MAX" by simp
  then have "a \<le> UINT32_MAX" by (simp only: word_le_nat_alt)
  then show ?thesis by (simp add: unat_sub)
qed

lemma unat_add_small: "unat a + unat b < 2 ^ LENGTH('a) \<Longrightarrow> unat (a + b :: 'a::len word) = unat a + unat b"
  by (simp add: unat_word_ariths(1))

lemma calc_size_eq:
  "unat (penglai_calc_sealed_data_size mac txt) =
    (if unat mac + unat txt + 56 < 2 ^ 32 - 1 then unat mac + unat txt + 56 else 2 ^ 32 - 1)"
proof (cases "unat mac + unat txt < 2 ^ 32 - 1")
  case True
  then have s: "unat (mac + txt) = unat mac + unat txt" by (intro unat_add_small) simp
  show ?thesis
  proof (cases "unat mac + unat txt + 16 < 2 ^ 32 - 1")
    case True
    then have t: "unat (mac + txt + 16) = unat mac + unat txt + 16"
      using s by (subst unat_add_small) simp_all
    have u: "unat (mac + txt + 16 + 40) = unat mac + unat txt + 56"
      if "unat mac + unat txt + 56 < 2 ^ 32 - 1"
      using that t by (subst unat_add_small) simp_all
    show ?thesis
      using True s t u
      by (auto simp: penglai_calc_sealed_data_size_def word_le_nat_alt UINT32_MAX_minus
          SEAL_DATA_TAG_LEN_def sizeof_sealed_data_def add.assoc)
  next
    case False
    then show ?thesis using s
      by (simp add: penglai_calc_sealed_data_size_def word_le_nat_alt UINT32_MAX_minus SEAL_DATA_TAG_LEN_def)
  qed
next
  case False
  then show ?thesis
    by (simp add: penglai_calc_sealed_data_size_def word_le_nat_alt UINT32_MAX_minus)
qed

lemma calc_size_fits:
  assumes "penglai_calc_sealed_data_size mac txt \<le> sz" and "sz < UINT32_MAX"
  shows "unat mac + unat txt + 56 \<le> unat sz"
proof -
  have "unat (penglai_calc_sealed_data_size mac txt) \<le> unat sz" "unat sz < 2 ^ 32 - 1"
    using assms by (simp_all add: word_le_nat_alt word_less_nat_alt)
  then show ?thesis by (simp add: calc_size_eq split: if_splits)
qed

subsection \<open>What a successful seal stores\<close>

lemma data_copy_simps [simp]:
  "txt_encrypt_size (data_copy sd salt nonce mac n) = txt_encrypt_size sd"
  "add_mac_txt_size (data_copy sd salt nonce mac n) = ucast n"
  "sd_salt (data_copy sd salt nonce mac n) = take SEAL_KEY_SALT_LEN salt"
  "sd_nonce (data_copy sd salt nonce mac n) = take SEAL_DATA_NONCE_LEN nonce"
  by (simp_all add: data_copy_def Let_def split: option.split)

definition mac_bytes :: "bytes option \<Rightarrow> bytes" where
  "mac_bytes mac = (case mac of None \<Rightarrow> [] | Some ad \<Rightarrow> ad)"

lemma data_copy_payload:
  assumes "unat (txt_encrypt_size sd) + 16 + unat n \<le> length (payload_data sd)"
    and "length (payload_data sd) < 2 ^ 32" and "mac = None \<longrightarrow> n = 0"
    and "unat n \<le> length (mac_bytes mac)"
  shows "payload_data (data_copy sd salt nonce mac n) =
    take (unat (txt_encrypt_size sd) + 16) (payload_data sd) @
    take (unat n) (mac_bytes mac) @
    drop (unat (txt_encrypt_size sd) + 16 + unat n) (payload_data sd)"
proof -
  have o: "unat (txt_encrypt_size sd + SEAL_DATA_TAG_LEN) = unat (txt_encrypt_size sd) + 16"
    using assms(1,2) by (subst unat_add_small) (simp_all add: SEAL_DATA_TAG_LEN_def)
  show ?thesis
  proof (cases "n = 0")
    case True
    then show ?thesis by (simp add: data_copy_def Let_def split: option.split)
  next
    case False
    then obtain m where m: "mac = Some m" using assms(3) by blast
    then have "unat n \<le> length m" using assms(4) by (simp add: mac_bytes_def)
    then show ?thesis using False o
      by (simp add: data_copy_def Let_def m mac_bytes_def buf_write_def min_def)
  qed
qed

lemma unat_ucast_u8: "unat (ucast (n :: u32) :: u8) = unat n mod 256"
  by (simp add: unsigned_ucast_eq unsigned_take_bit_eq take_bit_eq_mod)

lemma unat_ucast_ucast_u8: "unat (ucast (ucast (n :: u32) :: u8) :: u32) = unat n mod 256"
  by (simp add: unsigned_ucast_eq unsigned_take_bit_eq take_bit_eq_mod unat_mod_distrib)

text \<open>The setting of a call of \<open>penglai_seal_data\<close> that succeeds.\<close>

definition seal_ready ::
  "key_service \<Rightarrow> 'g random_service \<Rightarrow> 'g \<Rightarrow> u32 \<Rightarrow> bytes option \<Rightarrow> u32 \<Rightarrow> bytes \<Rightarrow> u32 \<Rightarrow>
     penglai_sealed_data_t \<Rightarrow> bool" where
  "seal_ready get_key rand g ml mac tn text sz sd \<longleftrightarrow>
     penglai_calc_sealed_data_size ml tn \<le> sz \<and> sz < UINT32_MAX \<and>
     unat sz \<le> 40 + length (payload_data sd) \<and> length (payload_data sd) < 2 ^ 32 \<and>
     unat tn \<le> length text \<and> unat ml \<le> length (mac_bytes mac) \<and>
     fst (DeriveSealingKey get_key (fst (rand g SEAL_KEY_SALT_LEN)) SEAL_KEY_SALT_LEN SEAL_KEY_LEN) = 0"

lemma seal_data_eq:
  assumes "seal_ready get_key rand g ml mac tn text sz sd"
    and rand: "rand g SEAL_KEY_SALT_LEN = (salt, g1)" "rand g1 SEAL_DATA_NONCE_LEN = (nonce, g2)"
    and key: "DeriveSealingKey get_key salt SEAL_KEY_SALT_LEN SEAL_KEY_LEN = (r, key)"
  shows "penglai_seal_data get_key rand g ml mac tn text sz sd =
    (fst (SM4_OCB_Encrypt key nonce 16 text (unat tn) (mac_bytes mac) (unat ml) (payload_data sd)), 0,
     data_copy (sd\<lparr>payload_data := snd (SM4_OCB_Encrypt key nonce 16 text (unat tn) (mac_bytes mac)
        (unat ml) (payload_data sd)), txt_encrypt_size := tn\<rparr>) salt nonce mac (ucast ml), g2)"
  using assms
  by (simp add: penglai_seal_data_def seal_ready_def mac_bytes_def SEAL_DATA_NONCE_LEN_def case_prod_beta Let_def
      not_less [symmetric])

lemma seal_payload:
  assumes ready: "seal_ready get_key rand g ml mac tn text sz sd"
    and sealed: "penglai_seal_data get_key rand g ml mac tn text sz sd = (fs, ret, sd', g')"
    and rand: "rand g SEAL_KEY_SALT_LEN = (salt, g1)" "rand g1 SEAL_DATA_NONCE_LEN = (nonce, g2)"
    and key: "DeriveSealingKey get_key salt SEAL_KEY_SALT_LEN SEAL_KEY_LEN = (r, key)"
  defines "n \<equiv> unat tn" and "m \<equiv> unat ml mod 256"
  shows "length (payload_data sd') = length (payload_data sd) \<and>
    take (n + 16) (payload_data sd') =
      take (n + 16) (snd (SM4_OCB_Encrypt key nonce 16 text n (mac_bytes mac) (unat ml) (payload_data sd))) \<and>
    slice (n + 16) m (payload_data sd') = take m (mac_bytes mac)"
proof -
  let ?P = "snd (SM4_OCB_Encrypt key nonce 16 text n (mac_bytes mac) (unat ml) (payload_data sd))"
  have fit: "unat ml + n + 16 \<le> length (payload_data sd)"
    using calc_size_fits [of ml tn sz] ready by (simp add: seal_ready_def n_def)
  have P: "length ?P = length (payload_data sd)"
    using length_ocb_encrypt [of "SM4_Encrypt key" n "text" "payload_data sd"] fit ready
    by (simp add: SM4_OCB_Encrypt_def seal_ready_def n_def)
  have m: "m \<le> unat ml" "m \<le> length (mac_bytes mac)" "mac = None \<longrightarrow> unat ml = 0"
    using ready mod_less_eq_dividend [of "unat ml" 256]
    by (auto simp: seal_ready_def m_def mac_bytes_def)
  let ?sd = "sd\<lparr>payload_data := ?P, txt_encrypt_size := tn\<rparr>"
  have "unat (txt_encrypt_size ?sd) + 16 + unat (ucast ml :: u8) \<le> length (payload_data ?sd)"
    "length (payload_data ?sd) < 2 ^ 32" "mac = None \<longrightarrow> (ucast ml :: u8) = 0"
    "unat (ucast ml :: u8) \<le> length (mac_bytes mac)"
    using fit P m ready by (simp_all add: unat_ucast_u8 seal_ready_def unat_eq_0 flip: n_def m_def)
  note dc = data_copy_payload [OF this, of salt nonce]
  have "payload_data sd' = take (n + 16) ?P @ take m (mac_bytes mac) @ drop (n + 16 + m) ?P"
    using sealed dc by (simp add: seal_data_eq [OF ready rand key] unat_ucast_u8 flip: n_def m_def)
  then show ?thesis using fit P m by (simp add: slice_def)
qed

text \<open>Sealed data is unsealed with the same key service.\<close>

lemma seal_unseal:
  assumes ready: "seal_ready get_key rand g ml mac tn text sz sd" and small: "unat ml < 256"
    and len: "\<And>g n. length (fst (rand g n)) = n"
    and sealed: "penglai_seal_data get_key rand g ml mac tn text sz sd = (fs, ret, sd', g')"
    and bufs: "tn \<le> on" "ml \<le> om" "unat tn \<le> length otext"
  shows "ret = 0 \<and> penglai_unseal_data get_key (Some sd') omac om otext on =
    Inr \<lparr>us_faults = fs, us_ret = 0, us_mac = buf_write omac 0 (take (unat ml) (mac_bytes mac)), us_mac_len = ml,
         us_text = take (unat tn) text @ drop (unat tn) otext, us_text_len = tn\<rparr>"
proof -
  obtain salt g1 where r1: "rand g SEAL_KEY_SALT_LEN = (salt, g1)" by fastforce
  obtain nonce g2 where r2: "rand g1 SEAL_DATA_NONCE_LEN = (nonce, g2)" by fastforce
  obtain r key where key: "DeriveSealingKey get_key salt SEAL_KEY_SALT_LEN SEAL_KEY_LEN = (r, key)" by fastforce
  let ?n = "unat tn" and ?m = "unat ml"
  let ?E = "ocb_encrypt (SM4_Encrypt key) nonce 16 text ?n (mac_bytes mac) ?m (payload_data sd)"
  have r0: "r = 0" using ready r1 key by (simp add: seal_ready_def)
  have lens: "length salt = 16" "length nonce = 16"
    using len [of g SEAL_KEY_SALT_LEN] len [of g1 SEAL_DATA_NONCE_LEN] r1 r2 by (simp_all add: seal_consts)
  note eq = seal_data_eq [OF ready r1 r2 key]
  have sd': "txt_encrypt_size sd' = tn" "add_mac_txt_size sd' = ml" "sd_salt sd' = salt"
    "sd_nonce sd' = nonce" "ret = 0" "fs = fst ?E"
    using sealed eq lens small
    by (auto simp: word_unat_eq_iff unat_ucast_ucast_u8 SEAL_KEY_SALT_LEN_def SEAL_DATA_NONCE_LEN_def
        SM4_OCB_Encrypt_def)
  have fit: "?m + ?n + 16 \<le> length (payload_data sd)" "length (payload_data sd) < 2 ^ 32"
    using calc_size_fits [of ml tn sz] ready by (simp_all add: seal_ready_def)
  then have off: "unat (tn + SEAL_DATA_TAG_LEN) = ?n + 16"
    by (subst unat_add_small) (simp_all add: SEAL_DATA_TAG_LEN_def)
  have pl: "take (?n + 16) (payload_data sd') = take (?n + 16) (snd ?E)"
    "slice (?n + 16) ?m (payload_data sd') = take ?m (mac_bytes mac)"
    using seal_payload [OF ready sealed r1 r2 key] small by (simp_all add: SM4_OCB_Encrypt_def)
  have "ocb_decrypt (SM4_Encrypt key) (SM4_Decrypt key) nonce 16 (payload_data sd') ?n
      (drop (?n + 16) (payload_data sd')) ?m otext =
      ocb_decrypt (SM4_Encrypt key) (SM4_Decrypt key) nonce 16 (snd ?E) ?n (mac_bytes mac) ?m otext"
    using pl by (intro ocb_decrypt_cong) (simp_all add: slice_def)
  also have "\<dots> = (fst ?E, 0, take ?n text @ drop ?n otext)"
    using fit ready bufs by (intro sm4.ocb_decrypt_encrypt) (simp_all add: seal_ready_def)
  finally show ?thesis
    using bufs sd' pl off key r0
    by (simp add: penglai_unseal_data_def penglai_get_encrypt_txt_len_def penglai_get_add_mac_txt_len_def
        SM4_OCB_Decrypt_def SEAL_DATA_NONCE_LEN_def Let_def not_less [symmetric])
qed

subsection \<open>Properties\<close>

text \<open>
  The size computation is exact and cannot be fooled by wrap-around: the result is the
  sum of header (40 bytes), text, tag (16 bytes) and additional text computed without
  overflow when that is below \<open>UINT32_MAX\<close>, and \<open>UINT32_MAX\<close> otherwise.
\<close>

lemma penglai_calc_sealed_data_size_exact:
  "unat (penglai_calc_sealed_data_size mac txt) = min (40 + unat txt + 16 + unat mac) (unat UINT32_MAX)"
  by (simp add: calc_size_eq)

text \<open>
  C7: Unsealing what \<open>penglai_seal_data\<close> stored gives back text and additional text with
  their lengths and returns 0, when the monitor derives the same key for the same salt, the
  random generator delivers as many bytes as asked for, and the additional text is shorter
  than 256 bytes.
\<close>

theorem seal_unseal_roundtrip:
  assumes "seal_ready get_key rand g ml mac tn text sz sd" and "unat ml < 256"
    and "\<And>g n. length (fst (rand g n)) = n"
    and "penglai_seal_data get_key rand g ml mac tn text sz sd = (fs, ret, sd', g')"
    and "tn \<le> on" and "ml \<le> om" and "unat tn \<le> length otext"
  shows "ret = 0 \<and> penglai_unseal_data get_key (Some sd') omac om otext on =
    Inr \<lparr>us_faults = fs, us_ret = 0, us_mac = buf_write omac 0 (take (unat ml) (mac_bytes mac)), us_mac_len = ml,
         us_text = take (unat tn) text @ drop (unat tn) otext, us_text_len = tn\<rparr>"
  using assms by (rule seal_unseal)

definition example_sealed :: penglai_sealed_data_t where
  "example_sealed = \<lparr>sd_nonce = replicate 16 0, sd_salt = replicate 16 0, txt_encrypt_size = 0,
     add_mac_txt_size = 0, payload_data = replicate 24 0\<rparr>"

definition example_key :: key_service where
  "example_key salt salt_len key_len = (0, replicate key_len 1)"

definition example_rand :: "nat random_service" where
  "example_rand g n = (replicate n (of_nat g), Suc g)"

lemma example_ready:
  "seal_ready example_key example_rand 5 2 (Some [1, 2]) 3 [10, 20, 30] 61 example_sealed"
  by (simp add: seal_ready_def example_sealed_def example_key_def example_rand_def DeriveSealingKey_def
      mac_bytes_def word_le_nat_alt calc_size_eq word_less_nat_alt)

theorem seal_unseal_roundtrip_witness:
  "(case penglai_seal_data example_key example_rand 5 2 (Some [1, 2]) 3 [10, 20, 30] 61 example_sealed of
     (fs, ret, sd', g') \<Rightarrow> ret = 0 \<and> penglai_unseal_data example_key (Some sd') [0, 0] 2 [0, 0, 0] 3 =
       Inr \<lparr>us_faults = fs, us_ret = 0, us_mac = [1, 2], us_mac_len = 2, us_text = [10, 20, 30], us_text_len = 3\<rparr>)"
  using seal_unseal_roundtrip [OF example_ready, where on = 3 and om = 2 and otext = "[0, 0, 0]" and
      omac = "[0, 0]"]
  by (simp add: example_rand_def mac_bytes_def buf_write_def split: prod.split)

text \<open>
  What is stored. The payload starts with the authenticated encryption of the text under
  the derived key, the sizes of buffers do not change, and the recorded length of the
  additional text is its length modulo 256, as it passes through a \<open>uint8_t\<close>: only that
  many bytes of it are stored, although all of them were authenticated.
\<close>

lemma seal_stores:
  assumes "seal_ready get_key rand g ml mac tn text sz sd"
    and "penglai_seal_data get_key rand g ml mac tn text sz sd = (fs, ret, sd', g')"
    and "rand g SEAL_KEY_SALT_LEN = (salt, g1)" and "rand g1 SEAL_DATA_NONCE_LEN = (nonce, g2)"
    and "DeriveSealingKey get_key salt SEAL_KEY_SALT_LEN SEAL_KEY_LEN = (r, key)"
  shows "txt_encrypt_size sd' = tn \<and> unat (add_mac_txt_size sd') = unat ml mod 256 \<and>
    length (payload_data sd') = length (payload_data sd) \<and>
    take (unat tn + 16) (payload_data sd') = take (unat tn + 16)
      (snd (SM4_OCB_Encrypt key nonce 16 text (unat tn) (mac_bytes mac) (unat ml) (payload_data sd))) \<and>
    slice (unat tn + 16) (unat ml mod 256) (payload_data sd') = take (unat ml mod 256) (mac_bytes mac)"
proof -
  have "txt_encrypt_size sd' = tn" "unat (add_mac_txt_size sd') = unat ml mod 256"
    using assms(2) seal_data_eq [OF assms(1,3-5)] by (auto simp: unat_ucast_ucast_u8)
  then show ?thesis using seal_payload [OF assms] by simp
qed

lemma seal_stores_example:
  "(case penglai_seal_data example_key example_rand 5 2 (Some [1, 2]) 3 [10, 20, 30] 61 example_sealed of
     (fs, ret, sd', g') \<Rightarrow> unat (add_mac_txt_size sd') = 2 \<and> slice 19 2 (payload_data sd') = [1, 2])"
  using seal_stores [OF example_ready, where salt = "replicate 16 5" and nonce = "replicate 16 6"]
  by (simp add: example_rand_def example_key_def DeriveSealingKey_def mac_bytes_def SEAL_KEY_SALT_LEN_def
      SEAL_DATA_NONCE_LEN_def SEAL_KEY_LEN_def split: prod.split)

text \<open>
  The failures of sealing: a buffer smaller than the computed size, and a monitor that
  does not deliver the key. Either way -1 is returned and the sealed structure is as before.
\<close>

lemma seal_failures:
  assumes "sz < penglai_calc_sealed_data_size ml tn \<or>
    fst (DeriveSealingKey get_key (fst (rand g SEAL_KEY_SALT_LEN)) SEAL_KEY_SALT_LEN SEAL_KEY_LEN) \<noteq> 0"
  shows "\<exists>g'. penglai_seal_data get_key rand g ml mac tn text sz sd = ([], -1, sd, g')"
  using assms by (auto simp: penglai_seal_data_def Let_def case_prod_beta)

lemma seal_failures_example:
  "\<exists>g'. penglai_seal_data example_key example_rand 5 2 (Some [1, 2]) 3 [10, 20, 30] 60 example_sealed =
    ([], -1, example_sealed, g')"
  by (rule seal_failures) (simp add: word_less_nat_alt calc_size_eq)



text \<open>
  Every seal that gets its key writes one byte before the array \<open>offset\<close> of the mode of
  operation, since the nonce is as long as a block; a text and additional text below a block
  also write behind the empty table.
\<close>

lemma seal_writes_out_of_bounds:
  assumes "seal_ready get_key rand g ml mac tn text sz sd"
  shows "OutOfBounds ''offset'' (-1) \<in> set (fst (penglai_seal_data get_key rand g ml mac tn text sz sd))"
proof -
  obtain salt g1 where r1: "rand g SEAL_KEY_SALT_LEN = (salt, g1)" by fastforce
  obtain nonce g2 where r2: "rand g1 SEAL_DATA_NONCE_LEN = (nonce, g2)" by fastforce
  obtain r key where key: "DeriveSealingKey get_key salt SEAL_KEY_SALT_LEN SEAL_KEY_LEN = (r, key)" by fastforce
  show ?thesis
    by (simp add: seal_data_eq [OF assms r1 r2 key] SM4_OCB_Encrypt_def ocb_faults(1))
qed

lemma seal_writes_out_of_bounds_example:
  "OutOfBounds ''offset'' (-1) \<in>
    set (fst (penglai_seal_data example_key example_rand 5 2 (Some [1, 2]) 3 [10, 20, 30] 61 example_sealed))"
  by (rule seal_writes_out_of_bounds [OF example_ready])

end
