(* ===== verification/Print.thy ===== *)
theory Print
  imports Prelude
begin

text \<open>
  Formatted output of the enclave side, \<^verbatim>\<open>lib/app/src/print.c\<close>: \<open>vsnprintf\<close>,
  \<open>vprintf\<close> and \<open>eapp_print\<close>. The variable arguments are a list of 64-bit slots, as
  the calling convention passes them: a number, or a pointer to a string; \<open>va_arg\<close> of an
  \<open>int\<close> reads the low half of a slot. Using a slot at the wrong type, or a slot that is
  not there, has no defined result: \<open>None\<close>. The format is the list of its characters
  without the terminating NUL.
\<close>

subsection \<open>State\<close>

datatype varg = VNum u64 | VStr string

record fmt =
  f_format :: bool
  f_longarg :: bool
  f_pos :: nat
  f_out :: string
  f_args :: "varg list"

text \<open>\<open>if (++pos < n) out[pos-1] = c;\<close>\<close>

definition put :: "nat \<Rightarrow> char \<Rightarrow> fmt \<Rightarrow> fmt" where
  "put n c st =
     st\<lparr>f_pos := Suc (f_pos st),
        f_out := (if Suc (f_pos st) < n then (f_out st)[f_pos st := c] else f_out st)\<rparr>"

definition va_long :: "bool \<Rightarrow> varg list \<Rightarrow> (u64 \<times> varg list) option" where
  "va_long longarg as =
     (case as of
        VNum w # as' \<Rightarrow> Some (if longarg then w else scast (ucast w :: u32), as')
      | _ \<Rightarrow> None)"

subsection \<open>Conversions\<close>

definition hex_char :: "u64 \<Rightarrow> nat \<Rightarrow> char" where
  "hex_char num i =
     (let d = unat (signed_drop_bit (4 * i) num AND 0xF)
      in char_of (if d < 10 then 48 + d else 97 + d - 10))"

definition fmt_x :: "nat \<Rightarrow> fmt \<Rightarrow> fmt option" where
  "fmt_x n st =
     (case va_long (f_longarg st) (f_args st) of
        None \<Rightarrow> None
      | Some (num, as) \<Rightarrow>
          let st = fold (\<lambda>i. put n (hex_char num i)) (rev [0..<2 * (if f_longarg st then 8 else 4)])
                     (st\<lparr>f_args := as\<rparr>)
          in Some (st\<lparr>f_longarg := False, f_format := False\<rparr>))"

text \<open>\<open>long digits = 1; for (long nn = num; nn /= 10; digits++);\<close>\<close>

function digit_count :: "int \<Rightarrow> nat" where
  "digit_count nn = (if cdiv nn 10 = 0 then 1 else Suc (digit_count (cdiv nn 10)))"
  by pat_completeness auto
termination
  by (relation "measure (\<lambda>nn. nat \<bar>nn\<bar>)") (auto simp: cdiv_def sgn_if abs_if split: if_splits)

declare digit_count.simps [simp del]

text \<open>The loop that writes the digits from the last to the first; \<open>k\<close> digits are left.\<close>

primrec put_dec :: "nat \<Rightarrow> nat \<Rightarrow> nat \<Rightarrow> int \<Rightarrow> string \<Rightarrow> string" where
  "put_dec n pos 0 num out = out"
| "put_dec n pos (Suc i) num out =
     put_dec n pos i (cdiv num 10)
       (if pos + i + 1 < n then out[pos + i := char_of (48 + crem num 10)] else out)"

definition fmt_d :: "nat \<Rightarrow> fmt \<Rightarrow> fmt option" where
  "fmt_d n st =
     (case va_long (f_longarg st) (f_args st) of
        None \<Rightarrow> None
      | Some (num, as) \<Rightarrow>
          let st = st\<lparr>f_args := as\<rparr>;
              (num, st) = (if sint num < 0 then (- num, put n (CHR ''-'') st) else (num, st));
              digits = digit_count (sint num)
          in Some (st\<lparr>f_out := put_dec n (f_pos st) digits (sint num) (f_out st), f_pos := f_pos st + digits,
                      f_longarg := False, f_format := False\<rparr>))"

definition fmt_s :: "nat \<Rightarrow> fmt \<Rightarrow> fmt option" where
  "fmt_s n st =
     (case f_args st of
        VStr s2 # as \<Rightarrow> Some ((fold (put n) s2 (st\<lparr>f_args := as\<rparr>))\<lparr>f_longarg := False, f_format := False\<rparr>)
      | _ \<Rightarrow> None)"

text \<open>The argument of \<open>%c\<close> is fetched only when the character fits.\<close>

definition fmt_c :: "nat \<Rightarrow> fmt \<Rightarrow> fmt option" where
  "fmt_c n st =
     (if Suc (f_pos st) < n
      then case f_args st of
             VNum w # as \<Rightarrow>
               Some ((put n (char_of (uint w)) st)\<lparr>f_args := as, f_longarg := False, f_format := False\<rparr>)
           | _ \<Rightarrow> None
      else Some (st\<lparr>f_pos := Suc (f_pos st), f_longarg := False, f_format := False\<rparr>))"

subsection \<open>The three functions\<close>

definition vsn_step :: "nat \<Rightarrow> char \<Rightarrow> fmt \<Rightarrow> fmt option" where
  "vsn_step n c st =
     (if f_format st then
        (if c = CHR ''l'' then Some (st\<lparr>f_longarg := True\<rparr>)
         else if c = CHR ''p'' then fmt_x n (put n (CHR ''x'') (put n (CHR ''0'') (st\<lparr>f_longarg := True\<rparr>)))
         else if c = CHR ''x'' then fmt_x n st
         else if c = CHR ''d'' then fmt_d n st
         else if c = CHR ''s'' then fmt_s n st
         else if c = CHR ''c'' then fmt_c n st
         else Some st)
      else if c = CHR ''%'' then Some (st\<lparr>f_format := True\<rparr>)
      else Some (put n c st))"

primrec vsn_loop :: "nat \<Rightarrow> string \<Rightarrow> fmt \<Rightarrow> fmt option" where
  "vsn_loop n [] st = Some st"
| "vsn_loop n (c # s) st = (case vsn_step n c st of None \<Rightarrow> None | Some st' \<Rightarrow> vsn_loop n s st')"

definition vsnprintf :: "string \<Rightarrow> nat \<Rightarrow> string \<Rightarrow> varg list \<Rightarrow> (string \<times> nat) option" where
  "vsnprintf out n s vl =
     (case vsn_loop n s \<lparr>f_format = False, f_longarg = False, f_pos = 0, f_out = out, f_args = vl\<rparr> of
        None \<Rightarrow> None
      | Some st \<Rightarrow>
          Some (if f_pos st < n then (f_out st)[f_pos st := CHR 0x00]
                else if n \<noteq> 0 then (f_out st)[n - 1 := CHR 0x00] else f_out st,
                f_pos st))"

text \<open>
  \<open>vprintf\<close> formats into the buffer shared with the host and makes the call
  \<open>EAPP_OCALL\<close>, a function of the call's number and the buffer.
\<close>

definition OCALL_SYS_WRITE :: nat where "OCALL_SYS_WRITE = 3"

definition vprintf :: "(nat \<Rightarrow> string \<Rightarrow> 'r) \<Rightarrow> string \<Rightarrow> string \<Rightarrow> varg list \<Rightarrow> (string \<times> 'r) option" where
  "vprintf EAPP_OCALL kbuffer s vl =
     (case vsnprintf kbuffer 512 s vl of
        None \<Rightarrow> None
      | Some (kbuffer', _) \<Rightarrow> Some (kbuffer', EAPP_OCALL OCALL_SYS_WRITE kbuffer'))"

definition eapp_print :: "(nat \<Rightarrow> string \<Rightarrow> 'r) \<Rightarrow> string \<Rightarrow> string \<Rightarrow> varg list \<Rightarrow> (string \<times> 'r) option" where
  "eapp_print EAPP_OCALL kbuffer s args = vprintf EAPP_OCALL kbuffer s args"

subsection \<open>Reference: the text a format stands for\<close>

fun dec_string :: "nat \<Rightarrow> string" where
  "dec_string m = (if m < 10 then [char_of (48 + m)] else dec_string (m div 10) @ [char_of (48 + m mod 10)])"

declare dec_string.simps [simp del]

definition int_string :: "int \<Rightarrow> string" where
  "int_string k = (if k < 0 then CHR ''-'' # dec_string (nat (- k)) else dec_string (nat k))"

definition hex_string :: "nat \<Rightarrow> u64 \<Rightarrow> string" where
  "hex_string digits w =
     map (\<lambda>i. let d = unat w div 16 ^ i mod 16 in char_of (if d < 10 then 48 + d else 87 + d)) (rev [0..<digits])"

definition convert :: "char \<Rightarrow> bool \<Rightarrow> varg list \<Rightarrow> (string \<times> varg list) option" where
  "convert c longarg as =
     (if c = CHR ''x'' then
        map_option (map_prod (hex_string (if longarg then 16 else 8)) id) (va_long longarg as)
      else if c = CHR ''p'' then map_option (map_prod (\<lambda>w. ''0x'' @ hex_string 16 w) id) (va_long True as)
      else if c = CHR ''d'' then map_option (map_prod (\<lambda>w. int_string (sint w)) id) (va_long longarg as)
      else case as of
        VStr t # as' \<Rightarrow> if c = CHR ''s'' then Some (t, as') else None
      | VNum w # as' \<Rightarrow> if c = CHR ''c'' then Some ([char_of (uint w)], as') else None
      | [] \<Rightarrow> None)"

fun render :: "bool \<Rightarrow> bool \<Rightarrow> string \<Rightarrow> varg list \<Rightarrow> string option" where
  "render format longarg [] as = Some []"
| "render format longarg (c # s) as =
     (if \<not> format then
        (if c = CHR ''%'' then render True longarg s as else map_option ((#) c) (render False longarg s as))
      else if c = CHR ''l'' then render True True s as
      else if c \<in> set ''pxdsc'' then
        (case convert c longarg as of
           None \<Rightarrow> None
         | Some (t, as') \<Rightarrow> map_option ((@) t) (render False False s as'))
      else render True longarg s as)"

subsection \<open>Writing with a limit\<close>

text \<open>The state has produced the text \<open>r\<close>: it is in the buffer as far as it fits.\<close>

definition produced :: "nat \<Rightarrow> string \<Rightarrow> string \<Rightarrow> fmt \<Rightarrow> bool" where
  "produced n out0 r st \<longleftrightarrow> f_pos st = length r \<and> f_out st = buf_write out0 0 (take (n - 1) r)"

lemma put_simps [simp]:
  "f_args (put n c st) = f_args st" "f_format (put n c st) = f_format st"
  "f_longarg (put n c st) = f_longarg st"
  by (simp_all add: put_def)

lemma fold_put_simps [simp]:
  "f_args (fold (put n) t st) = f_args st" "f_format (fold (put n) t st) = f_format st"
  "f_longarg (fold (put n) t st) = f_longarg st"
  by (induction t arbitrary: st) simp_all

lemma produced_put:
  assumes "produced n out0 r st" and "n \<le> length out0"
  shows "produced n out0 (r @ [c]) (put n c st)"
proof (cases "Suc (length r) < n")
  case True
  then have "(r @ drop (length r) out0)[length r := c] = r @ [c] @ drop (Suc (length r)) out0"
    using assms(2) by (simp add: list_update_append Cons_nth_drop_Suc [symmetric])
  then show ?thesis using assms(1) True
    by (simp add: produced_def put_def buf_write_0 min_def)
next
  case False
  then have "take (n - 1) (r @ [c]) = take (n - 1) r" by simp
  then show ?thesis using assms(1) False by (simp add: produced_def put_def)
qed

lemma produced_puts:
  assumes "produced n out0 r st" and "n \<le> length out0"
  shows "produced n out0 (r @ t) (fold (put n) t st)"
  using assms
proof (induction t arbitrary: r st)
  case (Cons c t)
  then show ?case using Cons.IH [OF produced_put [OF Cons.prems, of c] Cons.prems(2)] by simp
qed simp

lemma produced_update [simp]:
  "produced n out0 r (st\<lparr>f_args := as\<rparr>) = produced n out0 r st"
  "produced n out0 r (st\<lparr>f_longarg := l\<rparr>) = produced n out0 r st"
  "produced n out0 r (st\<lparr>f_format := f\<rparr>) = produced n out0 r st"
  by (simp_all add: produced_def)

primrec digs :: "nat \<Rightarrow> nat \<Rightarrow> string" where
  "digs 0 m = []"
| "digs (Suc k) m = digs k (m div 10) @ [char_of (48 + m mod 10)]"

lemma length_digs [simp]: "length (digs k m) = k"
  by (induction k arbitrary: m) simp_all

lemma char_of_int_nat: "char_of (int m) = (char_of m :: char)"
  by (simp add: char_of_def bit_of_nat_iff)

lemma put_dec_eq:
  assumes "n \<le> length out"
  shows "put_dec n pos k (int m) out =
    map (\<lambda>i. if pos \<le> i \<and> i < pos + k \<and> Suc i < n then digs k m ! (i - pos) else out ! i) [0..<length out]"
  using assms
proof (induction k arbitrary: m out)
  case 0
  have "map (\<lambda>i. if pos \<le> i \<and> i < pos + 0 \<and> Suc i < n then digs 0 m ! (i - pos) else out ! i) [0..<length out] =
      map ((!) out) [0..<length out]"
    by (rule map_cong) auto
  then show ?case by (simp only: put_dec.simps map_nth)
next
  case (Suc k)
  have q: "cdiv (int m) 10 = int (m div 10)" by (simp add: cdiv_pos zdiv_int)
  have "48 + crem (int m) 10 = int (48 + m mod 10)" by (simp add: crem_pos zmod_int)
  then have r: "char_of (48 + crem (int m) 10) = (char_of (48 + m mod 10) :: char)"
    by (simp only: char_of_int_nat)
  let ?out = "if pos + k + 1 < n then out[pos + k := char_of (48 + m mod 10)] else out"
  have "put_dec n pos (Suc k) (int m) out = put_dec n pos k (int (m div 10)) ?out" by (simp only: put_dec.simps q r)
  also have "\<dots> = map (\<lambda>i. if pos \<le> i \<and> i < pos + k \<and> Suc i < n then digs k (m div 10) ! (i - pos)
      else ?out ! i) [0..<length out]"
    using Suc.IH [of ?out "m div 10"] Suc.prems by simp
  also have "\<dots> = map (\<lambda>i. if pos \<le> i \<and> i < pos + Suc k \<and> Suc i < n then digs (Suc k) m ! (i - pos)
      else out ! i) [0..<length out]"
  proof (rule map_cong [OF refl])
    fix i assume "i \<in> set [0..<length out]"
    then show "(if pos \<le> i \<and> i < pos + k \<and> Suc i < n then digs k (m div 10) ! (i - pos) else ?out ! i) =
        (if pos \<le> i \<and> i < pos + Suc k \<and> Suc i < n then digs (Suc k) m ! (i - pos) else out ! i)"
      by (cases "i = pos + k") (auto simp: nth_append)
  qed
  finally show ?case .
qed

lemma digs_digit_count: "digs (digit_count (int m)) m = dec_string m"
proof (induction m rule: less_induct)
  case (less m)
  have "digit_count (int m) = (if m < 10 then 1 else Suc (digit_count (int (m div 10))))"
  proof -
    have "cdiv (int m) 10 = int (m div 10)" by (simp add: cdiv_pos zdiv_int)
    moreover have "int (m div 10) = 0 \<longleftrightarrow> m < 10" by auto
    ultimately show ?thesis by (subst digit_count.simps) simp
  qed
  then show ?case using less by (simp add: dec_string.simps [of m])
qed

lemma produced_dec:
  assumes "produced n out0 r st" and "n \<le> length out0"
  shows "produced n out0 (r @ dec_string m)
    (st\<lparr>f_out := put_dec n (f_pos st) (digit_count (int m)) (int m) (f_out st),
        f_pos := f_pos st + digit_count (int m)\<rparr>)"
proof -
  let ?k = "digit_count (int m)" and ?out = "buf_write out0 0 (take (n - 1) r)"
  have len: "length ?out = length out0" using assms(2) by (simp add: buf_write_0)
  have "put_dec n (length r) ?k (int m) ?out = buf_write out0 0 (take (n - 1) (r @ digs ?k m))"
  proof (rule nth_equalityI)
    fix i assume "i < length (put_dec n (length r) ?k (int m) ?out)"
    then have "i < length out0" using assms(2) len by (simp add: put_dec_eq)
    then show "put_dec n (length r) ?k (int m) ?out ! i = buf_write out0 0 (take (n - 1) (r @ digs ?k m)) ! i"
      using assms(2) len by (auto simp: put_dec_eq buf_write_0 nth_append min_def)
  qed (use assms(2) len in \<open>simp add: put_dec_eq buf_write_0\<close>)
  moreover have "length (dec_string m) = ?k" by (metis digs_digit_count length_digs)
  ultimately show ?thesis using assms(1) by (simp add: produced_def digs_digit_count)
qed

lemma hex_char_eq:
  assumes "i < 16"
  shows "hex_char w i = (let d = unat w div 16 ^ i mod 16 in char_of (if d < 10 then 48 + d else 87 + d))"
proof -
  have "signed_drop_bit (4 * i) w AND 0xF = take_bit 4 (drop_bit (4 * i) w)"
    by (rule bit_word_eqI) (use assms in \<open>auto simp: bit_simps bit_15_iff\<close>)
  then have "unat (signed_drop_bit (4 * i) w AND 0xF) = take_bit 4 (drop_bit (4 * i) (unat w))"
    by (simp only: unsigned_take_bit_eq unat_drop_bit_eq)
  then have "unat (signed_drop_bit (4 * i) w AND 0xF) = unat w div 16 ^ i mod 16"
    by (simp add: take_bit_eq_mod drop_bit_eq_div power_mult)
  then show ?thesis by (simp add: hex_char_def Let_def)
qed

lemma fold_put_map: "fold (\<lambda>i. put n (f i)) is st = fold (put n) (map f is) st"
  by (induction "is" arbitrary: st) simp_all

lemma sint_inject: "sint v = sint w \<Longrightarrow> v = w"
  by (metis scast_eq scast_id)

lemma sint_uminus:
  fixes w :: u64
  assumes "w \<noteq> 0x8000000000000000"
  shows "sint (- w) = - sint w"
proof -
  have "sint w \<noteq> sint (0x8000000000000000 :: u64)" using assms sint_inject by blast
  then have "sint w \<noteq> - (2 ^ 63)" by simp
  moreover have "- (2 ^ 63) \<le> sint w" "sint w < 2 ^ 63" using sint_ge [of w] sint_lt [of w] by simp_all
  ultimately have "signed_take_bit 63 (- sint w) = - sint w"
    by (intro signed_take_bit_int_eq_self) simp_all
  then show ?thesis by (simp add: sint_word_ariths)
qed

subsection \<open>The loop refines the reference\<close>

lemma fmt_x_produced:
  assumes "produced n out0 r st" and "n \<le> length out0" and "va_long (f_longarg st) (f_args st) = Some (w, as)"
  shows "\<exists>st'. fmt_x n st = Some st' \<and>
    produced n out0 (r @ hex_string (if f_longarg st then 16 else 8) w) st' \<and>
    f_args st' = as \<and> \<not> f_format st' \<and> \<not> f_longarg st'"
proof -
  define k where "k = 2 * (if f_longarg st then 8 else 4 :: nat)"
  have k: "k \<le> 16" "k = (if f_longarg st then 16 else 8)" by (simp_all add: k_def)
  have "map (hex_char w) (rev [0..<k]) = hex_string k w"
    unfolding hex_string_def by (rule map_cong) (use k(1) hex_char_eq in auto)
  then have "fmt_x n st =
      Some ((fold (put n) (hex_string k w) (st\<lparr>f_args := as\<rparr>))\<lparr>f_longarg := False, f_format := False\<rparr>)"
    unfolding fmt_x_def assms(3) k_def [symmetric] using fold_put_map [of n "hex_char w" "rev [0..<k]"]
    by (simp add: Let_def)
  then show ?thesis
    using assms(1,2) produced_puts [of n out0 r "st\<lparr>f_args := as\<rparr>" "hex_string k w"] by (simp flip: k(2))
qed

lemma fmt_d_produced:
  assumes "produced n out0 r st" and "n \<le> length out0" and "va_long (f_longarg st) (f_args st) = Some (w, as)"
    and "w \<noteq> 0x8000000000000000"
  shows "\<exists>st'. fmt_d n st = Some st' \<and> produced n out0 (r @ int_string (sint w)) st' \<and>
    f_args st' = as \<and> \<not> f_format st' \<and> \<not> f_longarg st'"
proof -
  let ?st = "st\<lparr>f_args := as\<rparr>"
  have st: "produced n out0 r ?st" using assms(1) by simp
  show ?thesis
  proof (cases "sint w < 0")
    case True
    have "sint (- w) = int (nat (- sint w))" using True assms(4) by (simp add: sint_uminus)
    then show ?thesis
      using produced_dec [OF produced_put [OF st assms(2), of "CHR ''-''"] assms(2), of "nat (- sint w)"]
        True assms(3) by (simp add: fmt_d_def int_string_def produced_def)
  next
    case False
    then have "sint w = int (nat (sint w))" by simp
    then show ?thesis
      using produced_dec [OF st assms(2), of "nat (sint w)"] False assms(3)
      by (simp add: fmt_d_def int_string_def produced_def)
  qed
qed

lemma va_long_not_min:
  assumes "va_long l as = Some (w, as')" and "VNum 0x8000000000000000 \<notin> set as"
  shows "w \<noteq> 0x8000000000000000"
proof -
  obtain v where v: "as = VNum v # as'" "w = (if l then v else scast (ucast v :: u32))"
    using assms(1) by (auto simp: va_long_def split: list.splits varg.splits)
  have "sint (scast (ucast v :: u32) :: u64) = sint (ucast v :: u32)"
    by (rule sint_up_scast) (simp add: is_up)
  moreover have "- (2 ^ 31) \<le> sint (ucast v :: u32)" using sint_ge [of "ucast v :: u32"] by simp
  ultimately have "sint (scast (ucast v :: u32) :: u64) \<noteq> sint (0x8000000000000000 :: u64)" by simp
  then show ?thesis using v assms(2) by auto
qed

lemma vsn_step_convert:
  assumes "produced n out0 r st" and "n \<le> length out0" and "f_format st" and "c \<in> set ''pxdsc''"
    and "convert c (f_longarg st) (f_args st) = Some (t, as)" and "VNum 0x8000000000000000 \<notin> set (f_args st)"
    and "c = CHR ''c'' \<longrightarrow> length r + 1 < n"
  shows "\<exists>st'. vsn_step n c st = Some st' \<and> produced n out0 (r @ t) st' \<and> f_args st' = as \<and>
    \<not> f_format st' \<and> \<not> f_longarg st'"
proof -
  consider "c = CHR ''x''" | "c = CHR ''p''" | "c = CHR ''d''" | "c = CHR ''s''" | "c = CHR ''c''"
    using assms(4) by auto
  then show ?thesis
  proof cases
    case 1
    then show ?thesis using assms fmt_x_produced [OF assms(1,2)]
      by (auto simp: vsn_step_def convert_def)
  next
    case 2
    let ?st = "put n (CHR ''x'') (put n (CHR ''0'') (st\<lparr>f_longarg := True\<rparr>))"
    have "produced n out0 ((r @ [CHR ''0'']) @ [CHR ''x'']) ?st"
      using assms(1,2) by (intro produced_put) simp_all
    from fmt_x_produced [OF this assms(2)] show ?thesis
      using assms 2 by (auto simp: vsn_step_def convert_def)
  next
    case 3
    then show ?thesis using assms fmt_d_produced [OF assms(1,2)] va_long_not_min
      by (fastforce simp: vsn_step_def convert_def)
  next
    case 4
    then show ?thesis using assms produced_puts [of n out0 r "st\<lparr>f_args := as\<rparr>" t]
      by (auto simp: vsn_step_def convert_def fmt_s_def split: list.splits varg.splits)
  next
    case 5
    then show ?thesis using assms produced_put [OF assms(1,2)]
      by (auto simp: vsn_step_def convert_def fmt_c_def produced_def [of n out0 r st] split: list.splits varg.splits)
  qed
qed

text \<open>Does the format use \<open>%c\<close>?\<close>

fun uses_c :: "bool \<Rightarrow> string \<Rightarrow> bool" where
  "uses_c format [] = False"
| "uses_c format (c # s) =
     (if \<not> format then uses_c (c = CHR ''%'') s
      else if c = CHR ''c'' then True else uses_c (c \<notin> set ''pxds'') s)"

lemma set_va_long: "va_long l as = Some (w, as') \<Longrightarrow> set as' \<subseteq> set as"
  by (auto simp: va_long_def split: list.splits varg.splits)

lemma set_convert: "convert c l as = Some (t, as') \<Longrightarrow> set as' \<subseteq> set as"
  by (auto simp: convert_def dest!: set_va_long split: if_splits list.splits varg.splits)

lemma length_convert_c: "convert (CHR ''c'') l as = Some (t, as') \<Longrightarrow> length t = 1"
  by (auto simp: convert_def split: list.splits varg.splits)

lemma vsn_loop_produced:
  assumes "produced n out0 r st" and "n \<le> length out0"
    and "render (f_format st) (f_longarg st) s (f_args st) = Some t"
    and "VNum 0x8000000000000000 \<notin> set (f_args st)"
    and "length r + length t < n \<or> \<not> uses_c (f_format st) s"
  shows "\<exists>st'. vsn_loop n s st = Some st' \<and> produced n out0 (r @ t) st'"
  using assms
proof (induction s arbitrary: r st t)
  case (Cons c s)
  show ?case
  proof (cases "f_format st \<and> c \<in> set ''pxdsc''")
    case True
    then obtain u as t' where u: "convert c (f_longarg st) (f_args st) = Some (u, as)"
      "render False False s as = Some t'" "t = u @ t'"
      using Cons.prems(3) by (auto split: option.splits)
    have "c = CHR ''c'' \<longrightarrow> length r + 1 < n"
      using Cons.prems(5) True u(1,3) length_convert_c by fastforce
    from vsn_step_convert [OF Cons.prems(1,2) _ _ u(1) Cons.prems(4) this] True
    obtain st' where st': "vsn_step n c st = Some st'" "produced n out0 (r @ u) st'" "f_args st' = as"
      "\<not> f_format st'" "\<not> f_longarg st'" by auto
    have "\<exists>st''. vsn_loop n s st' = Some st'' \<and> produced n out0 ((r @ u) @ t') st''"
      using st' u Cons.prems True set_convert [OF u(1)]
      by (intro Cons.IH) (auto split: if_splits)
    then show ?thesis using st'(1) u(3) by simp
  next
    case False
    define st' where "st' = (if f_format st then (if c = CHR ''l'' then st\<lparr>f_longarg := True\<rparr> else st)
      else if c = CHR ''%'' then st\<lparr>f_format := True\<rparr> else put n c st)"
    define u where "u = (if f_format st \<or> c = CHR ''%'' then [] else [c])"
    have step: "vsn_step n c st = Some st'" using False by (auto simp: vsn_step_def st'_def)
    obtain t' where t': "render (f_format st') (f_longarg st') s (f_args st') = Some t'" "t = u @ t'"
      using Cons.prems(3) False by (auto simp: st'_def u_def split: if_splits)
    have "produced n out0 (r @ u) st'"
      using Cons.prems(1,2) produced_put by (auto simp: st'_def u_def)
    moreover have "f_args st' = f_args st" by (simp add: st'_def)
    moreover have "uses_c (f_format st') s \<longrightarrow> uses_c (f_format st) (c # s)"
      using False by (auto simp: st'_def)
    ultimately have "\<exists>st''. vsn_loop n s st' = Some st'' \<and> produced n out0 ((r @ u) @ t') st''"
      using Cons.prems t' by (intro Cons.IH) auto
    then show ?thesis using step t'(2) by simp
  qed
qed simp

subsection \<open>What is never written\<close>

definition within :: "nat \<Rightarrow> string \<Rightarrow> fmt \<Rightarrow> bool" where
  "within n out0 st \<longleftrightarrow> length (f_out st) = length out0 \<and> drop (n - 1) (f_out st) = drop (n - 1) out0"

lemma within_put: "within n out0 st \<Longrightarrow> within n out0 (put n c st)"
  by (auto simp: within_def put_def drop_update_cancel)

lemma within_puts: "within n out0 st \<Longrightarrow> within n out0 (fold (put n) t st)"
  by (induction t arbitrary: st) (simp_all add: within_put)

lemma within_puts_map: "within n out0 st \<Longrightarrow> within n out0 (fold (\<lambda>i. put n (f i)) is st)"
  by (induction "is" arbitrary: st) (simp_all add: within_put)

lemma within_update [simp]:
  "within n out0 (st\<lparr>f_args := as\<rparr>) = within n out0 st" "within n out0 (st\<lparr>f_pos := p\<rparr>) = within n out0 st"
  "within n out0 (st\<lparr>f_longarg := l\<rparr>) = within n out0 st" "within n out0 (st\<lparr>f_format := f\<rparr>) = within n out0 st"
  by (simp_all add: within_def)

lemma put_dec_keeps:
  "length (put_dec n pos k num out) = length out \<and> drop (n - 1) (put_dec n pos k num out) = drop (n - 1) out"
  by (induction k arbitrary: num out) (simp_all add: drop_update_cancel)

lemma within_step:
  assumes "within n out0 st" and "vsn_step n c st = Some st'"
  shows "within n out0 st'"
proof -
  have x: "within n out0 st''" if "fmt_x n s = Some st''" "within n out0 s" for s st''
    using that by (auto simp: fmt_x_def Let_def intro!: within_puts_map split: option.splits)
  have d: "within n out0 st'" if "fmt_d n st = Some st'"
    using that assms(1) within_put [of n out0 st "CHR ''-''"]
    by (auto simp: fmt_d_def Let_def within_def put_def put_dec_keeps [unfolded One_nat_def] split: option.splits if_splits)
  show ?thesis
    using assms d x [of st st'] x [of "put n (CHR ''x'') (put n (CHR ''0'') (st\<lparr>f_longarg := True\<rparr>))" st']
    by (auto simp: vsn_step_def fmt_s_def fmt_c_def within_put within_puts split: if_splits list.splits varg.splits)
qed

lemma within_loop: "within n out0 st \<Longrightarrow> vsn_loop n s st = Some st' \<Longrightarrow> within n out0 st'"
  by (induction s arbitrary: st) (auto split: option.splits dest: within_step)

subsection \<open>Properties\<close>



text \<open>
  C28: Whatever format and arguments, \<open>vsnprintf\<close> stays inside the first \<open>n\<close> bytes: the
  buffer keeps its size, what is behind them is untouched, and there is a NUL among them.
\<close>

theorem vsnprintf_in_bounds:
  assumes "vsnprintf out n s args = Some (out', pos)" and "n \<le> length out"
  shows "length out' = length out \<and> drop n out' = drop n out \<and> (n \<noteq> 0 \<longrightarrow> CHR 0x00 \<in> set (take n out'))"
proof -
  let ?st = "\<lparr>f_format = False, f_longarg = False, f_pos = 0, f_out = out, f_args = args\<rparr>"
  from assms(1) obtain st where st: "vsn_loop n s ?st = Some st" "pos = f_pos st"
    "out' = (if f_pos st < n then (f_out st)[f_pos st := CHR 0x00]
      else if n \<noteq> 0 then (f_out st)[n - 1 := CHR 0x00] else f_out st)"
    by (auto simp: vsnprintf_def split: option.splits)
  have "within n out st" using within_loop [OF _ st(1)] by (simp add: within_def)
  then have w: "length (f_out st) = length out" "drop (n - 1) (f_out st) = drop (n - 1) out"
    by (simp_all add: within_def)
  have d: "drop n (f_out st) = drop n out"
    using arg_cong [OF w(2), of "drop 1"] w(2) by (cases n) simp_all
  have nul: "CHR 0x00 \<in> set (take n ((f_out st)[i := CHR 0x00]))" if "i < n" for i
    using that w(1) assms(2)
    by (metis in_set_conv_nth length_list_update length_take min.absorb2 nth_list_update_eq nth_take
        order_less_le_trans)
  show ?thesis using w(1) d nul by (auto simp: st(3) drop_update_cancel)
qed

theorem vsnprintf_in_bounds_witness:
  "(case vsnprintf (replicate 8 CHR ''.'') 3 ''%s'' [VStr ''abcdef''] of
      None \<Rightarrow> False
    | Some (out', pos) \<Rightarrow> length out' = 8 \<and> drop 3 out' = replicate 5 CHR ''.'' \<and> CHR 0x00 \<in> set (take 3 out'))"
proof -
  have e: "vsnprintf (replicate 8 CHR ''.'') 3 ''%s'' [VStr ''abcdef''] = Some (''ab'' @ [CHR 0x00] @ ''.....'', 6)"
    by code_simp
  from vsnprintf_in_bounds [OF e] show ?thesis unfolding e by simp
qed

text \<open>
  A directive the code does not know, \<open>%%\<close> among them, does not end: the text after it
  is skipped and its next conversion letter takes an argument. The message
  \<open>50%% done\<close>, which has no argument, therefore reads one.
\<close>

lemma vsnprintf_percent_percent:
  "vsnprintf out n ''50%% done'' [] = None \<and>
   vsnprintf out n ''50%% done'' [VStr t] = None"
  by (simp add: vsnprintf_def vsn_step_def fmt_d_def va_long_def)

text \<open>
  When the buffer is full \<open>%c\<close> does not fetch its argument, so that the conversions
  after it take the arguments of their predecessors: a call whose arguments fit its format
  reads a character as the address of a string.
\<close>

lemma vsnprintf_skips_c:
  "render False False ''%c%s'' [VNum 65, VStr ''x''] = Some ''Ax'' \<and>
   (\<forall>n out. n \<le> 1 \<longrightarrow> vsnprintf out n ''%c%s'' [VNum 65, VStr ''x''] = None)"
proof
  show "render False False ''%c%s'' [VNum 65, VStr ''x''] = Some ''Ax''" by code_simp
qed (simp add: vsnprintf_def vsn_step_def fmt_c_def fmt_s_def)

lemma vsnprintf_skips_c_example:
  "vsnprintf [CHR ''.''] 1 ''%c%s'' [VNum 65, VStr ''x''] = None"
  using vsnprintf_skips_c by simp

end
