(* ===== verification/Kernel_Mem.thy ===== *)
theory Kernel_Mem
  imports Prelude
begin

text \<open>
  Kernel memory as the driver uses it: bytes at 64-bit addresses, little-endian 64-bit loads
  and stores for page table entries, and block writes (\<open>memset\<close>, the destination of
  \<open>copy_from_user\<close>). Pages are 4096 bytes; a page is named by the address of its first
  byte. The interface the page table code relies on is the locale \<open>table_memory\<close>:
  entries of different tables, and different entries of a table, do not overlap.
\<close>

subsection \<open>Loads and stores\<close>

type_synonym kmem = "u64 \<Rightarrow> u8"

definition load64 :: "kmem \<Rightarrow> u64 \<Rightarrow> u64" where
  "load64 m a = fold (\<lambda>i w. w OR push_bit (8 * i) (ucast (m (a + of_nat i)))) [0..<8] 0"

definition store64 :: "kmem \<Rightarrow> u64 \<Rightarrow> u64 \<Rightarrow> kmem" where
  "store64 m a v = (\<lambda>x. if unat (x - a) < 8 then ucast (drop_bit (8 * unat (x - a)) v) else m x)"

definition write_block :: "kmem \<Rightarrow> u64 \<Rightarrow> bytes \<Rightarrow> kmem" where
  "write_block m a bs = (\<lambda>x. if unat (x - a) < length bs then bs ! unat (x - a) else m x)"

lemma bit_load64_fold:
  "k \<le> 8 \<Longrightarrow> bit (fold (\<lambda>i w. w OR push_bit (8 * i) (ucast (m (a + of_nat i)))) [0..<k] (0 :: u64)) n \<longleftrightarrow>
    n < 8 * k \<and> bit (m (a + of_nat (n div 8)) :: u8) (n mod 8)"
proof (induction k)
  case (Suc k)
  let ?b = "m (a + of_nat k) :: u8"
  have "bit (push_bit (8 * k) (ucast ?b :: u64)) n \<longleftrightarrow> 8 * k \<le> n \<and> n < 8 * k + 8 \<and> bit ?b (n - 8 * k)"
    using Suc.prems bit_imp_le_length [of ?b "n - 8 * k"] by (auto simp: bit_push_bit_iff bit_ucast_iff)
  moreover have "8 * k \<le> n \<Longrightarrow> n < 8 * k + 8 \<Longrightarrow> n div 8 = k \<and> n mod 8 = n - 8 * k" by presburger
  ultimately show ?case using Suc by (auto simp: bit_or_iff)
qed simp

lemma bit_load64: "bit (load64 m a) n \<longleftrightarrow> n < 64 \<and> bit (m (a + of_nat (n div 8))) (n mod 8)"
  using bit_load64_fold [of 8 m a n] by (simp add: load64_def)

lemma load64_cong: "(\<And>k. k < 8 \<Longrightarrow> m (a + of_nat k) = m' (a + of_nat k)) \<Longrightarrow> load64 m a = load64 m' a"
  by (rule bit_word_eqI) (simp add: bit_load64 less_mult_imp_div_less)

lemma load64_store64_same [simp]: "load64 (store64 m a v) a = v"
proof (rule bit_word_eqI)
  fix n assume "n < LENGTH(64)"
  then have "unat (of_nat (n div 8) :: u64) = n div 8" "n div 8 < 8"
    by (simp_all add: unat_of_nat less_mult_imp_div_less)
  with \<open>n < LENGTH(64)\<close> show "bit (load64 (store64 m a v) a) n = bit v n"
    by (simp add: bit_load64 store64_def bit_ucast_iff bit_drop_bit_eq)
qed

lemma load64_zero: "(\<And>k. k < 8 \<Longrightarrow> m (a + of_nat k) = 0) \<Longrightarrow> load64 m a = 0"
  by (rule bit_word_eqI) (simp add: bit_load64 less_mult_imp_div_less)

subsection \<open>Pages\<close>

definition page_ok :: "u64 \<Rightarrow> bool" where
  "page_ok p \<longleftrightarrow> 4096 dvd unat p"

text \<open>The page an address is in.\<close>

definition page_of :: "u64 \<Rightarrow> nat" where
  "page_of x = unat x div 4096"

lemma unat_page_add:
  assumes "page_ok p" and "k < 4096"
  shows "unat (p + of_nat k) = unat p + k"
proof -
  have "unat p < 2 ^ 64" using unsigned_less [of p, where 'a = nat] by simp
  moreover obtain q where "unat p = 4096 * q" using assms(1) by (auto simp: page_ok_def)
  ultimately have "unat p + k < 2 ^ 64" using assms(2) by simp
  moreover have "unat (of_nat k :: u64) = k" using assms(2) by (simp add: unat_of_nat)
  ultimately show ?thesis by (simp add: unat_word_ariths(1))
qed

lemma page_of_add [simp]: "page_ok p \<Longrightarrow> k < 4096 \<Longrightarrow> page_of (p + of_nat k) = page_of p"
  by (auto simp: page_of_def unat_page_add page_ok_def)

lemma page_of_inject: "page_ok p \<Longrightarrow> page_ok q \<Longrightarrow> page_of p = page_of q \<longleftrightarrow> p = q"
  by (auto simp: page_of_def page_ok_def word_unat_eq_iff)

lemma page_offset_inject:
  assumes "page_ok p" "page_ok q" "j < 4096" "k < 4096"
  shows "p + of_nat j = q + of_nat k \<longleftrightarrow> p = q \<and> j = k"
proof
  assume e: "p + of_nat j = q + of_nat k"
  then have "page_of p = page_of q" using assms by (metis page_of_add)
  then have "p = q" using assms by (simp add: page_of_inject)
  moreover have "unat p + j = unat q + k" using e assms by (metis unat_page_add)
  ultimately show "p = q \<and> j = k" by simp
qed simp

lemma page_addr_exhaust:
  assumes "page_of x = page_of p" and "page_ok p"
  obtains k where "k < 4096" and "x = p + of_nat k"
proof
  let ?k = "unat x mod 4096"
  show "?k < 4096" by simp
  have "unat (p + of_nat ?k) = unat x"
    using assms by (subst unat_page_add) (auto simp: page_of_def page_ok_def)
  then show "x = p + of_nat ?k" by (simp add: word_unat_eq_iff)
qed

subsection \<open>Table entries\<close>

definition entry_addr :: "u64 \<Rightarrow> nat \<Rightarrow> u64" where
  "entry_addr t i = t + of_nat (8 * i)"

definition zero_page :: "kmem \<Rightarrow> u64 \<Rightarrow> bool" where
  "zero_page m p \<longleftrightarrow> (\<forall>k < 4096. m (p + of_nat k) = 0)"

lemma page_limit: "page_ok p \<Longrightarrow> unat p + 4096 \<le> 2 ^ 64"
  using unat_page_add [of p 4095] unsigned_less [of "p + of_nat 4095", where 'a = nat] by simp

lemma page_distance:
  assumes "page_ok t" "page_ok u" "a + n \<le> 4096" "a < 4096" "k < 4096"
  shows "unat ((u + of_nat k) - (t + of_nat a)) < n \<longleftrightarrow> t = u \<and> a \<le> k \<and> k < a + n"
    and "t = u \<Longrightarrow> a \<le> k \<Longrightarrow> unat ((u + of_nat k) - (t + of_nat a)) = k - a"
proof -
  let ?d = "unat ((u + of_nat k) - (t + of_nat a))"
  have lt: "unat t + 4096 \<le> 2 ^ 64" "unat u + 4096 \<le> 2 ^ 64" using assms(1,2) page_limit by auto
  have d: "?d = (if unat t + a \<le> unat u + k then unat u + k - (unat t + a)
      else unat u + k + 2 ^ 64 - (unat t + a))"
    using assms by (simp add: unat_sub_if' word_le_nat_alt unat_page_add)
  show "t = u \<Longrightarrow> a \<le> k \<Longrightarrow> ?d = k - a" using d by simp
  show "?d < n \<longleftrightarrow> t = u \<and> a \<le> k \<and> k < a + n"
  proof (cases "t = u")
    case True
    then show ?thesis using d lt assms(3-5) by auto
  next
    case False
    then have "unat t div 4096 \<noteq> unat u div 4096" "unat t = 4096 * (unat t div 4096)" "unat u = 4096 * (unat u div 4096)"
      using assms(1,2) page_of_inject [of t u] by (auto simp: page_of_def page_ok_def)
    then have "unat u + 4096 \<le> unat t \<or> unat t + 4096 \<le> unat u" by linarith
    then have "\<not> ?d < n" using d lt assms(3-5) by auto
    then show ?thesis using False by simp
  qed
qed

text \<open>A store to an entry changes the eight bytes of the entry.\<close>

lemma store64_entry:
  assumes "page_ok t" "page_ok u" "i < 512" "k < 4096"
  shows "store64 m (entry_addr t i) v (u + of_nat k) =
    (if t = u \<and> 8 * i \<le> k \<and> k < 8 * i + 8 then ucast (drop_bit (8 * (k - 8 * i)) v) else m (u + of_nat k))"
  using page_distance [of t u "8 * i" 8 k] assms unfolding store64_def entry_addr_def by auto

lemma load64_store64_entry:
  assumes "page_ok t" "page_ok u" "i < 512" "j < 512"
  shows "load64 (store64 m (entry_addr t i) v) (entry_addr u j) =
    (if t = u \<and> i = j then v else load64 m (entry_addr u j))"
proof (cases "t = u \<and> i = j")
  case False
  have "store64 m (entry_addr t i) v (entry_addr u j + of_nat k) = m (entry_addr u j + of_nat k)" if "k < 8" for k
  proof -
    have e: "entry_addr u j + of_nat k = u + of_nat (8 * j + k)" by (simp add: entry_addr_def)
    show ?thesis
      unfolding e using False that assms by (subst store64_entry) auto
  qed
  then show ?thesis using False by (simp only: if_False) (rule load64_cong)
qed simp

lemma zero_page_entry: "zero_page m p \<Longrightarrow> i < 512 \<Longrightarrow> load64 m (entry_addr p i) = 0"
proof (rule load64_zero)
  fix k :: nat assume "zero_page m p" "i < 512" "k < 8"
  then have "m (p + of_nat (8 * i + k)) = 0"
    unfolding zero_page_def by (elim allE [of _ "8 * i + k"]) linarith
  moreover have "entry_addr p i + of_nat k = p + of_nat (8 * i + k)" by (simp add: entry_addr_def)
  ultimately show "m (entry_addr p i + of_nat k) = 0" by (simp only:)
qed

lemma write_block_page:
  assumes "page_ok p" "page_ok q" "length bs \<le> 4096" "k < 4096"
  shows "write_block m p bs (q + of_nat k) = (if p = q \<and> k < length bs then bs ! k else m (q + of_nat k))"
  using page_distance [of p q 0 "length bs" k] assms unfolding write_block_def by auto

subsection \<open>Trees of tables\<close>

text \<open>
  What the page table code needs of memory: an entry reads back as written and writing it
  leaves all other entries alone.
\<close>

locale table_memory =
  fixes get :: "'m \<Rightarrow> u64 \<Rightarrow> nat \<Rightarrow> u64" and put :: "'m \<Rightarrow> u64 \<Rightarrow> nat \<Rightarrow> u64 \<Rightarrow> 'm"
  assumes get_put: "page_ok t \<Longrightarrow> page_ok u \<Longrightarrow> i < 512 \<Longrightarrow> j < 512 \<Longrightarrow>
    get (put m t i v) u j = (if t = u \<and> i = j then v else get m u j)"

interpretation kmem: table_memory "\<lambda>m t i. load64 m (entry_addr t i)" "\<lambda>m t i. store64 m (entry_addr t i)"
  by unfold_locales (rule load64_store64_entry)

text \<open>
  Entries that can point to tables: \<open>ptr\<close> reads the pointer of an entry, \<open>mk\<close> makes the
  entry for a table. A tree of tables of depth three is well formed, next to a list of free
  pages, when no table is used twice, no table is free, the entries of the upper two levels are zero or
  made by \<open>mk\<close>, and the free pages hold only zeros.
\<close>

locale table_tree = table_memory get put
  for get :: "'m \<Rightarrow> u64 \<Rightarrow> nat \<Rightarrow> u64" and put :: "'m \<Rightarrow> u64 \<Rightarrow> nat \<Rightarrow> u64 \<Rightarrow> 'm" +
  fixes ptr :: "u64 \<Rightarrow> u64 option" and mk :: "u64 \<Rightarrow> u64"
  assumes ptr_mk: "page_ok t \<Longrightarrow> ptr (mk t) = Some t" and ptr_0: "ptr 0 = None"
begin

fun node :: "'m \<Rightarrow> u64 \<Rightarrow> nat list \<Rightarrow> u64 option" where
  "node m t [] = Some t"
| "node m t (i # p) = (case ptr (get m t i) of None \<Rightarrow> None | Some u \<Rightarrow> node m u p)"

definition path :: "nat list \<Rightarrow> bool" where
  "path p \<longleftrightarrow> length p \<le> 2 \<and> (\<forall>i \<in> set p. i < 512)"

definition tree_ok :: "'m \<Rightarrow> u64 \<Rightarrow> u64 list \<Rightarrow> bool" where
  "tree_ok m r free \<longleftrightarrow>
     (\<forall>p t. path p \<longrightarrow> node m r p = Some t \<longrightarrow> page_ok t \<and> t \<notin> set free) \<and>
     (\<forall>p q t. path p \<longrightarrow> path q \<longrightarrow> node m r p = Some t \<longrightarrow> node m r q = Some t \<longrightarrow> p = q) \<and>
     (\<forall>p t i. path (p @ [i]) \<longrightarrow> node m r p = Some t \<longrightarrow> get m t i = 0 \<or> (\<exists>u. get m t i = mk u)) \<and>
     distinct free \<and> (\<forall>f \<in> set free. page_ok f \<and> (\<forall>i < 512. get m f i = 0))"

text \<open>The entry of the last level, 0 where there is no table.\<close>

definition leaf :: "'m \<Rightarrow> u64 \<Rightarrow> nat \<times> nat \<times> nat \<Rightarrow> u64" where
  "leaf m r = (\<lambda>(i, j, k). case node m r [i, j] of None \<Rightarrow> 0 | Some t \<Rightarrow> get m t k)"

lemma path_prefix: "path (p @ q) \<Longrightarrow> path p"
  by (auto simp: path_def)

lemma node_append: "node m r (p @ q) = (case node m r p of None \<Rightarrow> None | Some t \<Rightarrow> node m t q)"
  by (induction p arbitrary: r) (auto split: option.split)

lemma tree_okD:
  assumes "tree_ok m r free" and "path p" and "node m r p = Some t"
  shows "page_ok t" and "t \<notin> set free" and "\<And>q. path q \<Longrightarrow> node m r q = Some t \<Longrightarrow> q = p"
  using assms unfolding tree_ok_def by blast+

lemma node_put_other:
  assumes ok: "tree_ok m r free" and p: "path p" "node m r p = Some t" and i: "i < 512"
    and q: "path (q1 @ q2)" "node m r q1 = Some u" and no: "\<And>s. q1 @ q2 \<noteq> p @ [i] @ s"
  shows "node (put m t i v) u q2 = node m u q2"
  using q no
proof (induction q2 arbitrary: q1 u)
  case (Cons j q2)
  have q1: "path q1" and j: "j < 512" using Cons.prems(1) by (auto simp: path_def)
  have pg: "page_ok t" "page_ok u" using tree_okD(1) [OF ok] p q1 Cons.prems(2) by blast+
  have "\<not> (t = u \<and> i = j)"
    using tree_okD(3) [OF ok p, of q1] q1 Cons.prems(2,3) by auto
  then have g: "get (put m t i v) u j = get m u j" using pg i j by (auto simp: get_put)
  show ?case
  proof (cases "ptr (get m u j)")
    case (Some w)
    have "node m r (q1 @ [j]) = Some w" using Cons.prems(2) Some by (simp add: node_append)
    then have "node (put m t i v) w q2 = node m w q2"
      using Cons.prems(1,3) by (intro Cons.IH [of "q1 @ [j]"]) auto
    then show ?thesis using Some g by simp
  qed (use g in simp)
qed simp

lemma node_add:
  assumes ok: "tree_ok m r (f # fs)" and p: "path (p @ [i])" "node m r p = Some t" and new: "ptr (get m t i) = None"
    and q: "path q"
  shows "node (put m t i (mk f)) r q = (if q = p @ [i] then Some f else node m r q)"
proof (cases "\<exists>s. q = p @ [i] @ s")
  case False
  then show ?thesis
    using node_put_other [OF ok _ p(2), of i "[]" q r] p q by (auto simp: path_def)
next
  case True
  then obtain s where s: "q = p @ [i] @ s" by blast
  let ?m = "put m t i (mk f)"
  have pp: "path p" "i < 512" using p(1) by (auto simp: path_def)
  have t: "page_ok t" "t \<noteq> f" using tree_okD [OF ok pp(1) p(2)] by auto
  have f: "page_ok f" "\<And>k. k < 512 \<Longrightarrow> get m f k = 0" using ok by (auto simp: tree_ok_def)
  have "node ?m r p = Some t"
    using node_put_other [OF ok pp(1) p(2) pp(2), of "[]" p r "mk f"] pp p(2) by simp
  moreover have "ptr (get ?m t i) = Some f" using t f pp by (simp add: get_put ptr_mk)
  ultimately have n: "node ?m r q = node ?m f s" by (simp add: s node_append)
  show ?thesis
  proof (cases s)
    case Nil
    then show ?thesis using n s by simp
  next
    case (Cons k s')
    then have "k < 512" using q s by (auto simp: path_def)
    then have "get ?m f k = 0" using t f pp by (auto simp: get_put)
    moreover have "node m r q = None" using p(2) new by (simp add: s node_append)
    ultimately show ?thesis using n s Cons by (simp add: ptr_0)
  qed
qed

lemma tree_ok_add:
  assumes ok: "tree_ok m r (f # fs)" and p: "path (p @ [i])" "node m r p = Some t" and new: "ptr (get m t i) = None"
  shows "tree_ok (put m t i (mk f)) r fs"
proof -
  let ?m = "put m t i (mk f)"
  note n = node_add [OF ok p new]
  have t: "path p" "i < 512" "page_ok t" "t \<notin> set (f # fs)"
    using tree_okD(1,2) [OF ok _ p(2)] p(1) by (auto simp: path_def)
  have old: "\<And>q u. path q \<Longrightarrow> node m r q = Some u \<Longrightarrow> page_ok u \<and> u \<noteq> f \<and> u \<notin> set fs"
    using tree_okD(1,2) [OF ok] by fastforce
  have f: "page_ok f" "f \<notin> set fs" "distinct fs" using ok by (auto simp: tree_ok_def)
  show ?thesis
    unfolding tree_ok_def
  proof (intro conjI allI impI ballI)
    fix q q' u assume "path q" "path q'" "node ?m r q = Some u" "node ?m r q' = Some u"
    then show "q = q'"
      using n [of q] n [of q'] tree_okD(3) [OF ok, of q u q'] old [of q u] old [of q' u]
      by (auto split: if_splits)
  next
    fix q u j assume q: "path (q @ [j])" "node ?m r q = Some u"
    then have qq: "path q" "j < 512" by (auto simp: path_def)
    show "get ?m u j = 0 \<or> (\<exists>w. get ?m u j = mk w)"
    proof (cases "q = p @ [i]")
      case True
      then have "u = f" using n [OF qq(1)] q(2) by simp
      then show ?thesis using t f qq(2) ok by (auto simp: get_put tree_ok_def)
    next
      case False
      then have "node m r q = Some u" using n [OF qq(1)] q(2) by simp
      then have "get m u j = 0 \<or> (\<exists>w. get m u j = mk w)" "page_ok u"
        using ok q(1) old [OF qq(1)] unfolding tree_ok_def by blast+
      then show ?thesis using t qq(2) by (auto simp: get_put)
    qed
  next
    fix g j assume "g \<in> set fs" "j < (512 :: nat)"
    then have "page_ok g" "g \<noteq> t" "get m g j = 0" using ok t by (auto simp: tree_ok_def)
    then show "get ?m g j = 0" using t \<open>j < 512\<close> by (auto simp: get_put)
  qed (use n old f ok in \<open>auto simp: tree_ok_def split: if_splits\<close>)
qed

lemma leaf_add:
  assumes ok: "tree_ok m r (f # fs)" and p: "path (p @ [i])" "node m r p = Some t" and new: "ptr (get m t i) = None"
    and idx: "i1 < 512" "i2 < 512" "i3 < 512"
  shows "leaf (put m t i (mk f)) r (i1, i2, i3) = leaf m r (i1, i2, i3)"
proof -
  let ?m = "put m t i (mk f)"
  have q: "path [i1, i2]" using idx by (simp add: path_def)
  have pp: "path p" "i < 512" "length p \<le> 1" using p(1) by (auto simp: path_def)
  have t: "page_ok t" "t \<noteq> f" using tree_okD(1,2) [OF ok pp(1) p(2)] by auto
  have f: "page_ok f" "get m f i3 = 0" using ok idx by (auto simp: tree_ok_def)
  show ?thesis
  proof (cases "[i1, i2] = p @ [i]")
    case True
    then have "node ?m r [i1, i2] = Some f" "node m r [i1, i2] = None"
      using node_add [OF ok p new q] p(2) new by (simp_all only: node_append) simp_all
    then show ?thesis using t f pp idx by (auto simp: leaf_def get_put simp del: node.simps)
  next
    case False
    then have n: "node ?m r [i1, i2] = node m r [i1, i2]" using node_add [OF ok p new q] by (simp only: if_False)
    show ?thesis
    proof (cases "node m r [i1, i2]")
      case (Some u)
      have "u \<noteq> t" using tree_okD(3) [OF ok pp(1) p(2) q] Some pp(3) by auto
      moreover have "page_ok u" using tree_okD(1) [OF ok q Some] .
      ultimately show ?thesis using n Some t pp idx by (auto simp: leaf_def get_put simp del: node.simps)
    qed (use n in \<open>simp add: leaf_def del: node.simps\<close>)
  qed
qed

lemma put_leaf:
  assumes ok: "tree_ok m r free" and idx: "i < 512" "j < 512" "k < 512" and t: "node m r [i, j] = Some t"
  shows "tree_ok (put m t k v) r free"
    and "i' < 512 \<Longrightarrow> j' < 512 \<Longrightarrow> k' < 512 \<Longrightarrow>
      leaf (put m t k v) r (i', j', k') = (if (i', j', k') = (i, j, k) then v else leaf m r (i', j', k'))"
proof -
  let ?m = "put m t k v"
  have p: "path [i, j]" using idx by (simp add: path_def)
  have pt: "page_ok t" "t \<notin> set free" using tree_okD(1,2) [OF ok p t] .
  have n: "node ?m r q = node m r q" if "path q" for q
  proof -
    have "q \<noteq> [i, j] @ [k] @ s" for s using that by (auto simp: path_def)
    then show ?thesis using node_put_other [OF ok p t idx(3), of "[]" q r] that by simp
  qed
  have "get ?m f l = get m f l" if "f \<in> set free" "l < 512" for f l
    using that pt idx ok by (auto simp: get_put tree_ok_def)
  moreover have "get ?m u l = get m u l" if "path (q @ [l])" "node m r q = Some u" for q u l
  proof -
    have q: "path q" "l < 512" "length q \<le> 1" using that(1) by (auto simp: path_def)
    then have "u \<noteq> t" using tree_okD(3) [OF ok p t q(1)] that(2) by auto
    then show ?thesis using tree_okD(1) [OF ok q(1) that(2)] pt q idx by (auto simp: get_put)
  qed
  ultimately show "tree_ok ?m r free" using ok n path_prefix unfolding tree_ok_def by simp
  assume idx': "i' < 512" "j' < 512" "k' < 512"
  then have p': "path [i', j']" by (simp add: path_def)
  show "leaf ?m r (i', j', k') = (if (i', j', k') = (i, j, k) then v else leaf m r (i', j', k'))"
  proof (cases "node m r [i', j']")
    case (Some u)
    have u: "page_ok u" using tree_okD(1) [OF ok p' Some] .
    moreover have "t = u \<longleftrightarrow> [i', j'] = [i, j]" using tree_okD(3) [OF ok p t p'] Some t by auto
    ultimately show ?thesis
      using Some n [OF p'] pt idx idx' by (auto simp: leaf_def get_put simp del: node.simps)
  next
    case None
    then have "[i', j'] \<noteq> [i, j]" using t by auto
    then show ?thesis using None n [OF p'] by (auto simp: leaf_def simp del: node.simps)
  qed
qed

text \<open>Only the entries of the tables, and of the free pages, matter.\<close>

lemma node_cong:
  assumes same: "\<And>p t i. path p \<Longrightarrow> node m r p = Some t \<Longrightarrow> i < 512 \<Longrightarrow> get m' t i = get m t i"
    and q: "path (q1 @ q2)" "node m r q1 = Some u"
  shows "node m' u q2 = node m u q2"
  using q
proof (induction q2 arbitrary: q1 u)
  case (Cons j q2)
  have "path q1" "j < 512" using Cons.prems(1) by (auto simp: path_def)
  then have "get m' u j = get m u j" using same Cons.prems(2) by blast
  moreover have "node m' w q2 = node m w q2" if "ptr (get m u j) = Some w" for w
    using Cons.prems that by (intro Cons.IH [of "q1 @ [j]"]) (auto simp: node_append)
  ultimately show ?case by (auto split: option.split)
qed simp

lemma tree_cong:
  assumes same: "\<And>p t i. path p \<Longrightarrow> node m r p = Some t \<Longrightarrow> i < 512 \<Longrightarrow> get m' t i = get m t i"
    and free: "\<And>f i. f \<in> set free \<Longrightarrow> i < 512 \<Longrightarrow> get m' f i = get m f i" and ok: "tree_ok m r free"
  shows "path q \<Longrightarrow> node m' r q = node m r q" and "tree_ok m' r free"
    and "i < 512 \<Longrightarrow> j < 512 \<Longrightarrow> k < 512 \<Longrightarrow> leaf m' r (i, j, k) = leaf m r (i, j, k)"
proof -
  have n: "node m' r q = node m r q" if "path q" for q
    by (rule node_cong [where r = r and ?q1.0 = "[]"]) (use that same in auto)
  then show "path q \<Longrightarrow> node m' r q = node m r q" .
  have "get m' t i = get m t i" if "path (p @ [i])" "node m r p = Some t" for p t i
    using same [OF path_prefix [OF that(1)] that(2)] that(1) by (auto simp: path_def)
  then show "tree_ok m' r free"
    using ok n path_prefix free unfolding tree_ok_def by simp
  assume idx: "i < 512" "j < 512" "k < 512"
  then have p: "path [i, j]" by (simp add: path_def)
  then show "leaf m' r (i, j, k) = leaf m r (i, j, k)"
    using n [OF p] same [OF p _ idx(3)] by (auto simp: leaf_def simp del: node.simps split: option.split)
qed

end

end
