(* ===== verification/Enclave_Page.thy ===== *)
theory Enclave_Page
  imports Kernel_Mem
begin

text \<open>
  The driver's page allocator and page table code, \<^verbatim>\<open>penglai-enclave-page.c\<close> with the constants
  of \<^verbatim>\<open>riscv64.h\<close>. The kernel's linear mapping is a parameter \<open>K\<close>: \<open>__va\<close> adds, and
  \<open>__pa\<close> subtracts, an offset of \<open>K\<close> pages. The list of \<open>free_mem_t\<close> structs is the
  list of their addresses; \<open>kmalloc\<close> of a list cell, whose result the code does not check,
  is taken to succeed. Writing through the null pointer that a failed walk returns is the
  value \<open>Inl (NullDeref ...)\<close>.
\<close>

subsection \<open>Constants and types\<close>

definition PTE_V :: u64 where "PTE_V = 0x001"
definition PTE_R :: u64 where "PTE_R = 0x002"
definition PTE_W :: u64 where "PTE_W = 0x004"
definition PTE_X :: u64 where "PTE_X = 0x008"
definition PTE_U :: u64 where "PTE_U = 0x010"
definition PTE_A :: u64 where "PTE_A = 0x040"
definition PTE_D :: u64 where "PTE_D = 0x080"

definition RISCV_PGSIZE :: u64 where "RISCV_PGSIZE = 4096"

definition ENCLAVE_USER_PAGE :: u64 where
  "ENCLAVE_USER_PAGE = PTE_D OR PTE_A OR PTE_R OR PTE_X OR PTE_W OR PTE_U"
definition ENCLAVE_STACK_PAGE :: u64 where
  "ENCLAVE_STACK_PAGE = PTE_D OR PTE_A OR PTE_R OR PTE_W OR PTE_U"
definition ENCLAVE_UNTRUSTED_PAGE :: u64 where
  "ENCLAVE_UNTRUSTED_PAGE = PTE_D OR PTE_A OR PTE_R OR PTE_W OR PTE_U"
definition ENCLAVE_KBUFFER_PAGE :: u64 where
  "ENCLAVE_KBUFFER_PAGE = PTE_D OR PTE_A OR PTE_R OR PTE_W OR PTE_U"

lemmas pte_bits = PTE_V_def PTE_R_def PTE_W_def PTE_X_def PTE_U_def PTE_A_def PTE_D_def
lemmas page_flags = ENCLAVE_USER_PAGE_def ENCLAVE_STACK_PAGE_def ENCLAVE_UNTRUSTED_PAGE_def ENCLAVE_KBUFFER_PAGE_def

record enclave_mem_t =
  enclave_root_pt :: u64
  free_mem :: "u64 list"
  em_size :: u64
  em_vaddr :: u64
  em_paddr :: u64

definition kva :: "u64 \<Rightarrow> u64 \<Rightarrow> u64" where "kva K x = x + push_bit 12 K"
definition kpa :: "u64 \<Rightarrow> u64 \<Rightarrow> u64" where "kpa K x = x - push_bit 12 K"

subsection \<open>The free list\<close>

fun get_free_mem :: "u64 list \<Rightarrow> u64 \<times> u64 list" where
  "get_free_mem [] = (0, [])"
| "get_free_mem (page # free) = (page, free)"

definition put_free_page :: "u64 list \<Rightarrow> u64 \<Rightarrow> u64 list" where
  "put_free_page free vaddr = free @ [vaddr]"

fun init_free_mem :: "u64 list \<Rightarrow> u64 \<Rightarrow> nat \<Rightarrow> u64 list" where
  "init_free_mem free cur 0 = free"
| "init_free_mem free cur (Suc n) = init_free_mem (put_free_page free cur) (cur + RISCV_PGSIZE) n"

fun clean_free_mem :: "u64 list \<Rightarrow> int \<times> u64 list" where
  "clean_free_mem [] = (0, [])"
| "clean_free_mem (page # free) = clean_free_mem free"

subsection \<open>Page table entries\<close>

definition pte_create :: "u64 \<Rightarrow> u64 \<Rightarrow> u64" where
  "pte_create ppn type = push_bit 10 ppn OR PTE_V OR type"

definition ptd_create :: "u64 \<Rightarrow> u64" where
  "ptd_create ppn = pte_create ppn PTE_V"

definition pte2pa :: "u64 \<Rightarrow> u64" where
  "pte2pa pte = push_bit 12 (drop_bit 10 pte)"

definition pte2va :: "u64 \<Rightarrow> u64 \<Rightarrow> u64" where
  "pte2va K pte = kva K (pte2pa pte)"

definition va2ppn :: "u64 \<Rightarrow> u64 \<Rightarrow> u64" where
  "va2ppn K vaddr = drop_bit 12 (kpa K vaddr)"

definition pa2ppn :: "u64 \<Rightarrow> u64" where
  "pa2ppn paddr = drop_bit 12 paddr"

text \<open>The shifted address is stored in an \<open>int\<close> before it is masked.\<close>

definition get_pt_index :: "u64 \<Rightarrow> nat \<Rightarrow> nat" where
  "get_pt_index vaddr level =
     unat ((ucast (drop_bit (39 - (level + 1) * 9) vaddr) :: u32) AND 511)"

subsection \<open>Walking the table\<close>

definition create_ptd_page :: "u64 \<Rightarrow> u64 list \<Rightarrow> u64 \<Rightarrow> kmem \<Rightarrow> int \<times> u64 list \<times> kmem" where
  "create_ptd_page K free pte mem =
     (let (addr, free) = get_free_mem free
      in if addr = 0 then (-1, free, mem)
         else (0, free, store64 mem pte (ptd_create (va2ppn K addr))))"

text \<open>The body of the loop: the next table, or \<open>None\<close> for the early return.\<close>

definition walk_level ::
  "u64 \<Rightarrow> bool \<Rightarrow> u64 \<Rightarrow> nat \<Rightarrow> u64 list \<Rightarrow> kmem \<Rightarrow> u64 option \<times> u64 list \<times> kmem" where
  "walk_level K create pgdir pt_index free mem =
     (let pt_entry = load64 mem (entry_addr pgdir pt_index)
      in if pt_entry AND PTE_V = 0
         then if create
              then let (r, free, mem) = create_ptd_page K free (entry_addr pgdir pt_index) mem
                   in if r < 0 then (None, free, mem)
                      else (Some (pte2va K (load64 mem (entry_addr pgdir pt_index))), free, mem)
              else (Some (pte2va K pt_entry), free, mem)
         else (Some (pte2va K pt_entry), free, mem))"

fun walk_levels ::
  "u64 \<Rightarrow> bool \<Rightarrow> u64 \<Rightarrow> nat list \<Rightarrow> u64 \<Rightarrow> u64 list \<Rightarrow> kmem \<Rightarrow> u64 option \<times> u64 list \<times> kmem" where
  "walk_levels K create vaddr [] pgdir free mem = (Some pgdir, free, mem)"
| "walk_levels K create vaddr (i # is) pgdir free mem =
     (case walk_level K create pgdir (get_pt_index vaddr i) free mem of
        (None, free, mem) \<Rightarrow> (None, free, mem)
      | (Some pgdir, free, mem) \<Rightarrow> walk_levels K create vaddr is pgdir free mem)"

definition walk_enclave_pt ::
  "u64 \<Rightarrow> u64 list \<Rightarrow> u64 \<Rightarrow> u64 \<Rightarrow> bool \<Rightarrow> kmem \<Rightarrow> u64 option \<times> u64 list \<times> kmem" where
  "walk_enclave_pt K free root vaddr create mem =
     (case walk_levels K create vaddr [0, 1] root free mem of
        (None, free, mem) \<Rightarrow> (None, free, mem)
      | (Some pgdir, free, mem) \<Rightarrow> (Some (entry_addr pgdir (get_pt_index vaddr 2)), free, mem))"

fun clear_levels :: "u64 \<Rightarrow> u64 \<Rightarrow> nat list \<Rightarrow> u64 \<Rightarrow> kmem \<Rightarrow> u64 option" where
  "clear_levels K vaddr [] pgdir mem = Some pgdir"
| "clear_levels K vaddr (i # is) pgdir mem =
     (let pt_entry = load64 mem (entry_addr pgdir (get_pt_index vaddr i))
      in if pt_entry AND PTE_V = 0 then None else clear_levels K vaddr is (pte2va K pt_entry) mem)"

definition clear_enclave_pt :: "u64 \<Rightarrow> u64 \<Rightarrow> u64 \<Rightarrow> kmem \<Rightarrow> u64 option \<times> kmem" where
  "clear_enclave_pt K root vaddr mem =
     (case clear_levels K vaddr [0, 1] root mem of
        None \<Rightarrow> (None, mem)
      | Some pgdir \<Rightarrow>
          (Some (entry_addr pgdir (get_pt_index vaddr 2)),
           store64 mem (entry_addr pgdir (get_pt_index vaddr 2)) 0))"

subsection \<open>Mapping pages\<close>

definition enclave_alloc_page ::
  "u64 \<Rightarrow> enclave_mem_t \<Rightarrow> kmem \<Rightarrow> u64 \<Rightarrow> u64 \<Rightarrow> fault + u64 \<times> enclave_mem_t \<times> kmem" where
  "enclave_alloc_page K em mem vaddr flags =
     (let (free_page, free) = get_free_mem (free_mem em);
          (pte, free, mem) = walk_enclave_pt K free (enclave_root_pt em) vaddr True mem;
          ppn = va2ppn K free_page
      in case pte of
           None \<Rightarrow> Inl (NullDeref ''pte'')
         | Some a \<Rightarrow>
             Inr (free_page, em\<lparr>free_mem := free\<rparr>, store64 mem a (ptd_create ppn OR flags OR PTE_V)))"

definition map_va2pa ::
  "u64 \<Rightarrow> enclave_mem_t \<Rightarrow> kmem \<Rightarrow> u64 \<Rightarrow> u64 \<Rightarrow> u64 \<Rightarrow> fault + u64 \<times> enclave_mem_t \<times> kmem" where
  "map_va2pa K em mem vaddr paddr flags =
     (let (pte, free, mem) = walk_enclave_pt K (free_mem em) (enclave_root_pt em) vaddr True mem;
          ppn = pa2ppn paddr
      in case pte of
           None \<Rightarrow> Inl (NullDeref ''pte'')
         | Some a \<Rightarrow>
             Inr (vaddr, em\<lparr>free_mem := free\<rparr>, store64 mem a (ptd_create ppn OR flags OR PTE_V)))"

text \<open>
  \<open>size / RISCV_PGSIZE\<close> is a division of \<open>int\<close>s and becomes the \<open>unsigned int count\<close>.
  The struct's list is initialised by the caller.
\<close>

definition enclave_mem_int :: "enclave_mem_t \<Rightarrow> u64 \<Rightarrow> int \<Rightarrow> u64 \<Rightarrow> enclave_mem_t" where
  "enclave_mem_int em vaddr sz paddr =
     (let free = init_free_mem (free_mem em) vaddr (unat (word_of_int (cdiv sz 4096) :: u32));
          em = em\<lparr>em_vaddr := vaddr, em_paddr := paddr, em_size := word_of_int sz\<rparr>;
          (pte, free) = get_free_mem free;
          (_, free) = get_free_mem free
      in em\<lparr>enclave_root_pt := pte, free_mem := free\<rparr>)"

definition enclave_mem_destroy :: "enclave_mem_t \<Rightarrow> int \<times> enclave_mem_t" where
  "enclave_mem_destroy em = (let (_, free) = clean_free_mem (free_mem em) in (0, em\<lparr>free_mem := free\<rparr>))"

subsection \<open>Arithmetic of entries and indices\<close>

lemma page_ok_push [simp]: "page_ok (push_bit 12 K)"
  by (simp add: page_ok_def push_bit_eq_mult unat_word_ariths dvd_mod_iff)

lemma page_ok_plus: "page_ok a \<Longrightarrow> page_ok b \<Longrightarrow> page_ok (a + b)"
  by (simp add: page_ok_def unat_word_ariths dvd_mod_iff)

lemma page_ok_minus: "page_ok a \<Longrightarrow> page_ok b \<Longrightarrow> page_ok (a - b)"
  by (auto simp: page_ok_def unat_sub_if' intro!: dvd_diff_nat)

lemma page_ok_bits: "page_ok p \<longleftrightarrow> push_bit 12 (drop_bit 12 p) = p"
proof
  assume "page_ok p"
  then obtain k where k: "unat p = 4096 * k" by (auto simp: page_ok_def)
  moreover have "unat p < 2 ^ 64" using unsigned_less [of p, where 'a = nat] by simp
  ultimately have "unat (push_bit 12 (drop_bit 12 p)) = unat p"
    by (simp add: push_bit_eq_mult unat_word_ariths unat_drop_bit_eq drop_bit_eq_div)
  then show "push_bit 12 (drop_bit 12 p) = p" by (simp add: word_unat_eq_iff)
next
  assume "push_bit 12 (drop_bit 12 p) = p"
  then show "page_ok p" by (metis page_ok_push)
qed

lemma kva_kpa [simp]: "kva K (kpa K x) = x" "kpa K (kva K x) = x"
  by (simp_all add: kva_def kpa_def)

lemma page_ok_kpa [simp]: "page_ok (kpa K p) \<longleftrightarrow> page_ok p"
  by (metis kva_kpa(1) kva_def kpa_def page_ok_minus page_ok_plus page_ok_push)

definition small_flags :: "u64 \<Rightarrow> bool" where
  "small_flags fl \<longleftrightarrow> fl < 1024"

lemma small_flags_bit: "small_flags fl \<Longrightarrow> bit fl n \<Longrightarrow> n < 10"
proof -
  assume "small_flags fl" "bit fl n"
  then have "unat fl < 2 ^ 10" "bit (unat fl) n"
    by (simp_all add: small_flags_def word_less_nat_alt bit_unsigned_iff bit_imp_possible_bit)
  then show ?thesis by (metis bit_take_bit_iff take_bit_nat_eq_self)
qed

lemma pte2pa_create:
  "small_flags fl \<Longrightarrow> pte2pa (push_bit 10 (drop_bit 12 x) OR fl) = push_bit 12 (drop_bit 12 x)"
  by (rule bit_word_eqI)
    (auto simp: pte2pa_def bit_push_bit_iff bit_drop_bit_eq bit_or_iff dest: small_flags_bit bit_imp_le_length)

lemma pte2va_ptd: "page_ok t \<Longrightarrow> pte2va K (ptd_create (va2ppn K t)) = t"
  using pte2pa_create [of 1 "kpa K t"] page_ok_bits [of "kpa K t"]
  by (simp add: pte2va_def ptd_create_def pte_create_def va2ppn_def PTE_V_def small_flags_def or.assoc)

lemma get_pt_index_less: "get_pt_index vaddr level < 512"
proof -
  have "(511 :: u32) = mask 9" by (simp add: mask_eq_exp_minus_1)
  then have "x AND 511 = take_bit 9 x" for x :: u32 by (simp only: take_bit_eq_mask)
  then show ?thesis
    using take_bit_nat_less_exp [of 9] by (simp add: get_pt_index_def unsigned_take_bit_eq)
qed

subsection \<open>The tree of page tables\<close>

text \<open>What an entry of an upper level points to, as the code reads it, and the entry it makes.\<close>

definition pte_ptr :: "u64 \<Rightarrow> u64 \<Rightarrow> u64 option" where
  "pte_ptr K e = (if e AND PTE_V = 0 then None else Some (pte2va K e))"

definition table_pte :: "u64 \<Rightarrow> u64 \<Rightarrow> u64" where
  "table_pte K t = ptd_create (va2ppn K t)"

lemma ptd_valid: "ptd_create ppn AND PTE_V \<noteq> 0"
proof
  assume "ptd_create ppn AND PTE_V = 0"
  then have "bit (ptd_create ppn AND PTE_V) 0 = bit (0 :: u64) 0" by simp
  then show False by (simp add: ptd_create_def pte_create_def PTE_V_def bit_simps)
qed

interpretation pt: table_tree "\<lambda>m t i. load64 m (entry_addr t i)" "\<lambda>m t i. store64 m (entry_addr t i)"
  "pte_ptr K" "table_pte K" for K
  by unfold_locales (simp_all add: pte_ptr_def table_pte_def ptd_valid pte2va_ptd)

abbreviation pt_node :: "u64 \<Rightarrow> kmem \<Rightarrow> u64 \<Rightarrow> nat list \<Rightarrow> u64 option" where
  "pt_node K \<equiv> table_tree.node (\<lambda>m t i. load64 m (entry_addr t i)) (pte_ptr K)"

abbreviation pt_leaf :: "u64 \<Rightarrow> kmem \<Rightarrow> u64 \<Rightarrow> nat \<times> nat \<times> nat \<Rightarrow> u64" where
  "pt_leaf K \<equiv> table_tree.leaf (\<lambda>m t i. load64 m (entry_addr t i)) (pte_ptr K)"

abbreviation pt_path :: "nat list \<Rightarrow> bool" where
  "pt_path \<equiv> table_tree.path"

text \<open>
  The invariant of an enclave's memory: a well-formed tree next to the free list, no page of
  which has address 0, and free pages that are all zero.
\<close>

definition pt_ok :: "u64 \<Rightarrow> kmem \<Rightarrow> u64 \<Rightarrow> u64 list \<Rightarrow> bool" where
  "pt_ok K m root free \<longleftrightarrow>
     table_tree.tree_ok (\<lambda>m t i. load64 m (entry_addr t i)) (pte_ptr K) (table_pte K) m root free \<and>
     0 \<notin> set free \<and> (\<forall>f \<in> set free. zero_page m f)"

text \<open>A page that is neither free nor a table.\<close>

definition outside :: "u64 \<Rightarrow> kmem \<Rightarrow> u64 \<Rightarrow> u64 list \<Rightarrow> u64 \<Rightarrow> bool" where
  "outside K m root free P \<longleftrightarrow> page_ok P \<and> P \<notin> set free \<and> (\<forall>p. pt_path p \<longrightarrow> pt_node K m root p \<noteq> Some P)"

definition same_page :: "kmem \<Rightarrow> kmem \<Rightarrow> u64 \<Rightarrow> bool" where
  "same_page m m' P \<longleftrightarrow> (\<forall>k < 4096. m' (P + of_nat k) = m (P + of_nat k))"

text \<open>
  \<open>grown n\<close>: at most \<open>n\<close> pages of the free list became tables, no mapping changed, and
  pages outside the tables were left alone.
\<close>

definition grown :: "u64 \<Rightarrow> u64 \<Rightarrow> nat \<Rightarrow> kmem \<Rightarrow> u64 list \<Rightarrow> kmem \<Rightarrow> u64 list \<Rightarrow> bool" where
  "grown K root n m free m' free' \<longleftrightarrow>
     pt_ok K m' root free' \<and> (\<exists>used. free = used @ free' \<and> length used \<le> n) \<and>
     (\<forall>i j k. i < 512 \<and> j < 512 \<and> k < 512 \<longrightarrow> pt_leaf K m' root (i, j, k) = pt_leaf K m root (i, j, k)) \<and>
     (\<forall>P. outside K m root free P \<longrightarrow> outside K m' root free' P \<and> same_page m m' P)"

lemma grown_refl: "pt_ok K m root free \<Longrightarrow> grown K root n m free m free"
  by (simp add: grown_def same_page_def)

lemma grown_trans:
  assumes "grown K root n m free m' free'" and "grown K root n' m' free' m'' free''"
  shows "grown K root (n + n') m free m'' free''"
proof -
  obtain u u' where "free = u @ free'" "length u \<le> n" "free' = u' @ free''" "length u' \<le> n'"
    using assms unfolding grown_def by blast
  then have "\<exists>used. free = used @ free'' \<and> length used \<le> n + n'" by (intro exI [of _ "u @ u'"]) simp
  then show ?thesis using assms unfolding grown_def same_page_def by simp
qed

lemma same_page_trans: "same_page m m' P \<Longrightarrow> same_page m' m'' P \<Longrightarrow> same_page m m'' P"
  by (simp add: same_page_def)

lemma store_entry_page:
  assumes "page_ok t" "page_ok P" "t \<noteq> P" "i < 512"
  shows "same_page m (store64 m (entry_addr t i) v) P"
  using assms by (simp add: same_page_def store64_entry)

lemma same_page_entry:
  assumes "same_page m m' P" "i < 512"
  shows "load64 m' (entry_addr P i) = load64 m (entry_addr P i)"
proof (rule load64_cong)
  fix k :: nat assume "k < 8"
  moreover have "entry_addr P i + of_nat k = P + of_nat (8 * i + k)" by (simp add: entry_addr_def)
  moreover have "8 * i + k < 4096" using assms(2) \<open>k < 8\<close> by linarith
  ultimately show "m' (entry_addr P i + of_nat k) = m (entry_addr P i + of_nat k)"
    using assms(1) unfolding same_page_def by metis
qed

lemma zero_page_same: "same_page m m' P \<Longrightarrow> zero_page m P \<Longrightarrow> zero_page m' P"
  by (simp add: same_page_def zero_page_def)

lemma grown_add:
  assumes ok: "pt_ok K m root (f # fs)" and p: "pt_path (p @ [i])" "pt_node K m root p = Some t"
    and new: "load64 m (entry_addr t i) AND PTE_V = 0"
  defines "m' \<equiv> store64 m (entry_addr t i) (table_pte K f)"
  shows "grown K root 1 m (f # fs) m' fs" and "pt_node K m' root (p @ [i]) = Some f"
proof -
  have tree: "table_tree.tree_ok (\<lambda>m t i. load64 m (entry_addr t i)) (pte_ptr K) (table_pte K) m root (f # fs)"
    using ok by (simp add: pt_ok_def)
  have ptr: "pte_ptr K (load64 m (entry_addr t i)) = None" using new by (simp add: pte_ptr_def)
  have pi: "pt_path p" "i < 512" using p(1) by (auto simp: pt.path_def)
  have t: "page_ok t" "t \<notin> set (f # fs)" using pt.tree_okD(1,2) [OF tree pi(1) p(2)] .
  have n: "pt_node K m' root q = (if q = p @ [i] then Some f else pt_node K m root q)" if "pt_path q" for q
    unfolding m'_def by (rule pt.node_add [OF tree p ptr that])
  then show "pt_node K m' root (p @ [i]) = Some f" using p(1) by simp
  have fs: "\<And>g. g \<in> set (f # fs) \<Longrightarrow> page_ok g" using tree unfolding pt.tree_ok_def by blast
  have same: "same_page m m' P" if "page_ok P" "P \<noteq> t" for P
    unfolding m'_def using that t pi by (intro store_entry_page) auto
  have "zero_page m' g" if "g \<in> set fs" for g
    using that ok fs [of g] same [of g] t zero_page_same [of m m' g] by (auto simp: pt_ok_def)
  then have "pt_ok K m' root fs"
    using pt.tree_ok_add [OF tree p ptr] ok by (simp add: pt_ok_def m'_def)
  moreover have "outside K m' root fs P \<and> same_page m m' P" if "outside K m root (f # fs) P" for P
    using that same [of P] n p(2) pi by (auto simp: outside_def)
  moreover have "pt_leaf K m' root (a, b, c) = pt_leaf K m root (a, b, c)" if "a < 512" "b < 512" "c < 512" for a b c
    unfolding m'_def using that by (intro pt.leaf_add [OF tree p ptr])
  ultimately show "grown K root 1 m (f # fs) m' fs"
    unfolding grown_def by (auto intro: exI [of _ "[f]"])
qed

lemma walk_level_ok:
  assumes ok: "pt_ok K m root free" and p: "pt_path (p @ [i])" "pt_node K m root p = Some t"
    and w: "walk_level K True t i free m = (res, free', m')"
  shows "case res of
      None \<Rightarrow> free = []
    | Some u \<Rightarrow> grown K root 1 m free m' free' \<and> pt_node K m' root (p @ [i]) = Some u"
proof (cases "load64 m (entry_addr t i) AND PTE_V = 0")
  case new: True
  show ?thesis
  proof (cases free)
    case Nil
    then show ?thesis using w new by (simp add: walk_level_def create_ptd_page_def)
  next
    case (Cons f fs)
    have f: "f \<noteq> 0" "page_ok f" using ok Cons by (auto simp: pt_ok_def pt.tree_ok_def)
    then have "res = Some f \<and> free' = fs \<and> m' = store64 m (entry_addr t i) (table_pte K f)"
      using w new Cons by (simp add: walk_level_def create_ptd_page_def table_pte_def pte2va_ptd)
    then show ?thesis using grown_add [OF ok [unfolded Cons] p new] Cons by simp
  qed
next
  case False
  then have "res = Some (pte2va K (load64 m (entry_addr t i))) \<and> free' = free \<and> m' = m"
    using w False by (auto simp: walk_level_def)
  moreover have "pt_node K m root (p @ [i]) = Some (pte2va K (load64 m (entry_addr t i)))"
    using False p(2) by (simp add: pt.node_append pte_ptr_def)
  ultimately show ?thesis using grown_refl [OF ok] by simp
qed

lemma pt_path_index [simp]:
  "pt_path [get_pt_index v 0]" "pt_path [get_pt_index v 0, get_pt_index v (Suc 0)]" "pt_path []"
  by (simp_all add: pt.path_def get_pt_index_less)

lemma walk_enclave_pt_ok:
  assumes ok: "pt_ok K m root free" and w: "walk_enclave_pt K free root v True m = (res, free', m')"
  shows "case res of
      None \<Rightarrow> length free < 2
    | Some a \<Rightarrow> grown K root 2 m free m' free' \<and>
        (\<exists>t. a = entry_addr t (get_pt_index v 2) \<and> pt_node K m' root [get_pt_index v 0, get_pt_index v 1] = Some t)"
proof -
  obtain r1 free1 m1 where w1: "walk_level K True root (get_pt_index v 0) free m = (r1, free1, m1)"
    by (metis prod_cases3)
  have l1: "case r1 of None \<Rightarrow> free = []
    | Some u \<Rightarrow> grown K root 1 m free m1 free1 \<and> pt_node K m1 root [get_pt_index v 0] = Some u"
    using walk_level_ok [OF ok _ _ w1, of "[]", unfolded append_Nil] by simp
  show ?thesis
  proof (cases r1)
    case None
    then show ?thesis using w w1 l1 by (auto simp: walk_enclave_pt_def)
  next
    case (Some u)
    then have g1: "grown K root 1 m free m1 free1" and u: "pt_node K m1 root [get_pt_index v 0] = Some u"
      using l1 by auto
    have ok1: "pt_ok K m1 root free1" using g1 by (simp add: grown_def)
    obtain r2 free2 m2 where w2: "walk_level K True u (get_pt_index v 1) free1 m1 = (r2, free2, m2)"
      by (metis prod_cases3)
    have l2: "case r2 of None \<Rightarrow> free1 = []
      | Some t \<Rightarrow> grown K root 1 m1 free1 m2 free2 \<and>
          pt_node K m2 root [get_pt_index v 0, get_pt_index v 1] = Some t"
      using walk_level_ok [OF ok1 _ u w2, unfolded append_Cons append_Nil] by simp
    show ?thesis
    proof (cases r2)
      case None
      then have "length free < 2" using l2 g1 by (auto simp: grown_def)
      then show ?thesis using w w1 w2 Some None by (auto simp: walk_enclave_pt_def)
    next
      case (Some t)
      then show ?thesis
        using w w1 w2 \<open>r1 = Some u\<close> l2 grown_trans [OF g1, of 1 m2 free2]
        by (auto simp: walk_enclave_pt_def numeral_2_eq_2)
    qed
  qed
qed

text \<open>The pages of virtual addresses, as index triples.\<close>

definition vpn :: "u64 \<Rightarrow> nat \<times> nat \<times> nat" where
  "vpn v = (get_pt_index v 0, get_pt_index v 1, get_pt_index v 2)"

lemma store_leaf:
  fixes e :: u64
  assumes ok: "pt_ok K m root free"
    and t: "pt_node K m root [get_pt_index v 0, get_pt_index v 1] = Some t"
  defines "m' \<equiv> store64 m (entry_addr t (get_pt_index v 2)) e"
  shows "pt_ok K m' root free" and "pt_leaf K m' root (vpn w) = (if vpn w = vpn v then e else pt_leaf K m root (vpn w))"
    and "outside K m root free P \<Longrightarrow> outside K m' root free P \<and> same_page m m' P"
proof -
  have tree: "table_tree.tree_ok (\<lambda>m t i. load64 m (entry_addr t i)) (pte_ptr K) (table_pte K) m root free"
    using ok by (simp add: pt_ok_def)
  note idx = get_pt_index_less [of v 0] get_pt_index_less [of v 1] get_pt_index_less [of v 2]
  have p: "pt_path [get_pt_index v 0, get_pt_index v 1]" by simp
  have pt: "page_ok t" "t \<notin> set free" using pt.tree_okD(1,2) [OF tree p t] .
  have same: "same_page m m' P" if "page_ok P" "P \<noteq> t" for P
    unfolding m'_def using that pt idx by (intro store_entry_page) auto
  have fs: "\<And>g. g \<in> set free \<Longrightarrow> page_ok g" using tree unfolding pt.tree_ok_def by blast
  have "zero_page m' g" if "g \<in> set free" for g
    using that ok fs [of g] same [of g] pt zero_page_same [of m m' g] by (auto simp: pt_ok_def)
  then show "pt_ok K m' root free"
    using pt.put_leaf(1) [OF tree idx t] ok by (simp add: pt_ok_def m'_def)
  show "pt_leaf K m' root (vpn w) = (if vpn w = vpn v then e else pt_leaf K m root (vpn w))"
    using pt.put_leaf(2) [OF tree idx t, of "get_pt_index w 0" "get_pt_index w 1" "get_pt_index w 2" e]
    by (simp add: vpn_def m'_def get_pt_index_less)
  have n: "pt_node K m' root q = pt_node K m root q" if "pt_path q" for q
  proof -
    have "q \<noteq> [get_pt_index v 0, get_pt_index v 1] @ [get_pt_index v 2] @ s" for s
      using that by (auto simp: pt.path_def)
    then show ?thesis
      unfolding m'_def using pt.node_put_other [OF tree p t idx(3), of "[]" q root] that by simp
  qed
  show "outside K m' root free P \<and> same_page m m' P" if "outside K m root free P"
  proof -
    have "P \<noteq> t" using that p t unfolding outside_def by blast
    then show ?thesis using that same [of P] n by (auto simp: outside_def)
  qed
qed

lemma pt_ok_pop:
  assumes "pt_ok K m root (f # fs)"
  shows "pt_ok K m root fs" and "outside K m root fs f" and "f \<noteq> 0" and "page_ok f" and "zero_page m f"
  using assms by (auto simp: pt_ok_def pt.tree_ok_def outside_def)

lemma outside_pop: "outside K m root (f # fs) P \<Longrightarrow> outside K m root fs P"
  by (simp add: outside_def)

subsection \<open>The translation the hardware makes\<close>

text \<open>
  Sv39 address translation: an invalid entry faults; an entry with one of the bits R, W, X is
  a leaf, which on the upper levels would be a large page (the driver makes none, they are not
  followed here); another entry points to the next table.
\<close>

fun sv39_walk :: "u64 \<Rightarrow> kmem \<Rightarrow> u64 \<Rightarrow> nat list \<Rightarrow> u64 option" where
  "sv39_walk K m t [] = None"
| "sv39_walk K m t (i # is) =
     (let e = load64 m (entry_addr t i)
      in if e AND PTE_V = 0 then None
         else if e AND (PTE_R OR PTE_W OR PTE_X) \<noteq> 0 then (if is = [] then Some e else None)
         else sv39_walk K m (pte2va K e) is)"

definition sv39 :: "u64 \<Rightarrow> kmem \<Rightarrow> u64 \<Rightarrow> u64 \<Rightarrow> u64 option" where
  "sv39 K m root v = sv39_walk K m root [get_pt_index v 0, get_pt_index v 1, get_pt_index v 2]"

definition leaf_ok :: "u64 \<Rightarrow> bool" where
  "leaf_ok e \<longleftrightarrow> e AND PTE_V \<noteq> 0 \<and> e AND (PTE_R OR PTE_W OR PTE_X) \<noteq> 0"

lemma table_pte_no_leaf: "table_pte K u AND (PTE_R OR PTE_W OR PTE_X) = 0"
proof (rule bit_word_eqI)
  fix n
  have "(PTE_R OR PTE_W OR PTE_X) = 14" by (simp add: pte_bits)
  moreover have "bit (14 :: u64) n \<Longrightarrow> n < 10 \<and> n \<noteq> 0"
    using small_flags_bit [of 14 n] by (cases n) (auto simp: small_flags_def)
  ultimately show "bit (table_pte K u AND (PTE_R OR PTE_W OR PTE_X)) n = bit 0 n"
    by (auto simp: table_pte_def ptd_create_def pte_create_def PTE_V_def bit_and_iff bit_or_iff
        bit_push_bit_iff bit_1_iff)
qed

lemma sv39_upper:
  assumes "pt_ok K m root free" and "pt_path (p @ [i])" and "pt_node K m root p = Some t" and "is \<noteq> []"
  shows "sv39_walk K m t (i # is) =
    (case pt_node K m root (p @ [i]) of None \<Rightarrow> None | Some u \<Rightarrow> sv39_walk K m u is)"
proof -
  let ?e = "load64 m (entry_addr t i)"
  have "?e = 0 \<or> (\<exists>u. ?e = table_pte K u)"
    using assms(1-3) unfolding pt_ok_def pt.tree_ok_def by blast
  then show ?thesis
    using assms(3) table_pte_no_leaf ptd_valid
    by (auto simp: pt.node_append pte_ptr_def Let_def table_pte_def)
qed

lemma sv39_leaf:
  assumes ok: "pt_ok K m root free"
  shows "sv39 K m root v = (if leaf_ok (pt_leaf K m root (vpn v)) then Some (pt_leaf K m root (vpn v)) else None)"
proof -
  let ?i = "get_pt_index v 0" and ?j = "get_pt_index v 1" and ?k = "get_pt_index v 2"
  have z: "\<not> leaf_ok 0" by (simp add: leaf_ok_def)
  have 1: "sv39 K m root v = (case pt_node K m root [?i] of None \<Rightarrow> None | Some u \<Rightarrow> sv39_walk K m u [?j, ?k])"
    unfolding sv39_def using sv39_upper [OF ok, of "[]" ?i root "[?j, ?k]", unfolded append_Nil] by simp
  show ?thesis
  proof (cases "pt_node K m root [?i]")
    case None
    then have "pt_node K m root ([?i] @ [?j]) = None" by (simp only: pt.node_append option.case)
    then show ?thesis using None z by (simp only: 1 vpn_def pt.leaf_def append_Cons append_Nil prod.case option.case if_False)
  next
    case (Some u)
    have "sv39_walk K m u [?j, ?k] =
        (case pt_node K m root [?i, ?j] of None \<Rightarrow> None | Some t \<Rightarrow> sv39_walk K m t [?k])"
      using sv39_upper [OF ok _ Some, of ?j "[?k]", unfolded append_Cons append_Nil] by simp
    then show ?thesis
      using Some z by (cases "pt_node K m root [?i, ?j]")
        (simp_all add: 1 vpn_def pt.leaf_def leaf_ok_def Let_def del: pt.node.simps)
  qed
qed

text \<open>Writing to a page that is neither free nor a table changes no translation.\<close>

lemma write_outside:
  assumes ok: "pt_ok K m root free" and P: "outside K m root free P" and bs: "length bs \<le> 4096"
  defines "m' \<equiv> write_block m P bs"
  shows "pt_ok K m' root free" and "sv39 K m' root w = sv39 K m root w"
    and "outside K m root free Q \<Longrightarrow> outside K m' root free Q"
    and "page_ok Q \<Longrightarrow> Q \<noteq> P \<Longrightarrow> same_page m m' Q"
proof -
  have pg: "page_ok P" using P by (simp add: outside_def)
  show same: "same_page m m' Q" if "page_ok Q" "Q \<noteq> P" for Q
    using that pg bs by (simp add: same_page_def m'_def write_block_page)
  have entries: "load64 m' (entry_addr Q i) = load64 m (entry_addr Q i)" if "page_ok Q" "Q \<noteq> P" "i < 512" for Q i
    using same_page_entry [OF same [OF that(1,2)] that(3)] .
  have tree: "table_tree.tree_ok (\<lambda>m t i. load64 m (entry_addr t i)) (pte_ptr K) (table_pte K) m root free"
    using ok by (simp add: pt_ok_def)
  have tables: "load64 m' (entry_addr t i) = load64 m (entry_addr t i)" if "pt_path p" "pt_node K m root p = Some t" "i < 512" for p t i
    using that entries pt.tree_okD(1) [OF tree that(1,2)] P unfolding outside_def by blast
  have free: "load64 m' (entry_addr f i) = load64 m (entry_addr f i)" if "f \<in> set free" "i < 512" for f i
    using that entries tree P unfolding outside_def pt.tree_ok_def by blast
  have cong: "pt_path q \<Longrightarrow> pt_node K m' root q = pt_node K m root q"
      "table_tree.tree_ok (\<lambda>m t i. load64 m (entry_addr t i)) (pte_ptr K) (table_pte K) m' root free"
      "i < 512 \<Longrightarrow> j < 512 \<Longrightarrow> k < 512 \<Longrightarrow> pt_leaf K m' root (i, j, k) = pt_leaf K m root (i, j, k)" for q i j k
    by (rule pt.tree_cong [OF _ free tree]; use tables in blast)+
  have "zero_page m' f" if "f \<in> set free" for f
    using that ok P tree same [of f] zero_page_same [of m m' f] unfolding pt_ok_def outside_def pt.tree_ok_def by blast
  then show ok': "pt_ok K m' root free" using ok cong(2) by (simp add: pt_ok_def)
  show "sv39 K m' root w = sv39 K m root w"
    unfolding sv39_leaf [OF ok'] sv39_leaf [OF ok] vpn_def by (simp add: cong(3) get_pt_index_less)
  show "outside K m' root free Q" if "outside K m root free Q"
    using that cong(1) unfolding outside_def by simp
qed

subsection \<open>Mapping a page\<close>

lemma leaf_entry:
  assumes "small_flags fl" and "fl AND (PTE_R OR PTE_W OR PTE_X) \<noteq> 0"
  shows "leaf_ok (ptd_create ppn OR fl OR PTE_V)"
proof -
  let ?e = "ptd_create ppn OR fl OR PTE_V" and ?r = "PTE_R OR PTE_W OR PTE_X"
  have "bit (?e AND PTE_V) 0" by (simp add: bit_and_iff bit_or_iff PTE_V_def)
  then have "?e AND PTE_V \<noteq> 0" by auto
  moreover obtain n where "bit (fl AND ?r) n" using assms(2) by (metis bit_eqI bit_0_eq bot_apply bot_bool_def)
  then have "bit (?e AND ?r) n" by (simp add: bit_and_iff bit_or_iff)
  then have "?e AND ?r \<noteq> 0" by auto
  ultimately show ?thesis by (simp add: leaf_ok_def)
qed

lemma entry_pa:
  assumes "small_flags fl" and "page_ok pa"
  shows "pte2pa (ptd_create (drop_bit 12 pa) OR fl OR PTE_V) = pa"
proof -
  have "small_flags (fl OR 1)"
  proof -
    have "fl OR 1 = take_bit 10 (fl OR 1)"
      by (rule bit_word_eqI) (auto simp: bit_take_bit_iff bit_or_iff bit_1_iff dest: small_flags_bit [OF assms(1)])
    then have "unat (fl OR 1) < 2 ^ 10"
      by (metis unsigned_take_bit_eq take_bit_nat_less_exp)
    then show ?thesis by (simp add: small_flags_def word_less_nat_alt)
  qed
  moreover have "ptd_create (drop_bit 12 pa) OR fl OR PTE_V = push_bit 10 (drop_bit 12 pa) OR (fl OR 1)"
    by (rule bit_word_eqI) (auto simp: ptd_create_def pte_create_def PTE_V_def bit_or_iff)
  ultimately show ?thesis using assms(2) pte2pa_create [of "fl OR 1" pa] by (simp add: page_ok_bits)
qed

lemma sv39_store_leaf:
  assumes ok: "pt_ok K m root free" and g: "grown K root n m free m' free'"
    and t: "pt_node K m' root [get_pt_index v 0, get_pt_index v 1] = Some t" and e: "leaf_ok e"
  defines "m'' \<equiv> store64 m' (entry_addr t (get_pt_index v 2)) e"
  shows "pt_ok K m'' root free'" and "sv39 K m'' root w = (if vpn w = vpn v then Some e else sv39 K m root w)"
    and "outside K m root free P \<Longrightarrow> outside K m'' root free' P \<and> same_page m m'' P"
proof -
  have ok': "pt_ok K m' root free'" using g by (simp add: grown_def)
  note st = store_leaf [OF ok' t, where e = e]
  show ok'': "pt_ok K m'' root free'" unfolding m''_def by (rule st(1))
  have "pt_leaf K m' root (vpn w) = pt_leaf K m root (vpn w)"
    using g by (simp add: grown_def vpn_def get_pt_index_less)
  then have l: "pt_leaf K m'' root (vpn w) = (if vpn w = vpn v then e else pt_leaf K m root (vpn w))"
    unfolding m''_def using st(2) [of w] by simp
  show "sv39 K m'' root w = (if vpn w = vpn v then Some e else sv39 K m root w)"
    unfolding sv39_leaf [OF ok''] sv39_leaf [OF ok] l by (cases "vpn w = vpn v") (simp_all add: e)
  show "outside K m'' root free' P \<and> same_page m m'' P" if "outside K m root free P"
  proof -
    have "outside K m' root free' P" "same_page m m' P" using that g by (simp_all add: grown_def)
    then show ?thesis unfolding m''_def using st(3) [of P] same_page_trans by blast
  qed
qed

lemma alloc_page_maps:
  assumes ok: "pt_ok K m (enclave_root_pt em) (page # free)" and free: "free_mem em = page # free"
    and fl: "small_flags fl" "fl AND (PTE_R OR PTE_W OR PTE_X) \<noteq> 0"
    and alloc: "enclave_alloc_page K em m v fl = Inr (page', em', m')"
  defines "e \<equiv> ptd_create (va2ppn K page) OR fl OR PTE_V"
  shows "page' = page" and "enclave_root_pt em' = enclave_root_pt em"
    and "\<exists>used. free = used @ free_mem em' \<and> length used \<le> 2"
    and "pt_ok K m' (enclave_root_pt em) (free_mem em')"
    and "sv39 K m' (enclave_root_pt em) w = (if vpn w = vpn v then Some e else sv39 K m (enclave_root_pt em) w)"
    and "outside K m (enclave_root_pt em) free P \<Longrightarrow>
      outside K m' (enclave_root_pt em) (free_mem em') P \<and> same_page m m' P"
    and "em_size em' = em_size em" and "em_paddr em' = em_paddr em" and "em_vaddr em' = em_vaddr em"
proof -
  let ?r = "enclave_root_pt em"
  obtain res free' m1 where w: "walk_enclave_pt K free ?r v True m = (res, free', m1)" by (metis prod_cases3)
  then obtain a where a: "res = Some a" "page' = page" "em' = em\<lparr>free_mem := free'\<rparr>" "m' = store64 m1 a e"
    using alloc free by (auto simp: enclave_alloc_page_def e_def split: option.splits)
  have g: "grown K ?r 2 m free m1 free'" and "\<exists>t. a = entry_addr t (get_pt_index v 2) \<and>
      pt_node K m1 ?r [get_pt_index v 0, get_pt_index v 1] = Some t"
    using walk_enclave_pt_ok [OF pt_ok_pop(1) [OF ok] w] a(1) by auto
  then obtain t where t: "a = entry_addr t (get_pt_index v 2)"
      "pt_node K m1 ?r [get_pt_index v 0, get_pt_index v 1] = Some t" by blast
  have e: "leaf_ok e" unfolding e_def using fl by (rule leaf_entry)
  note st = sv39_store_leaf [OF pt_ok_pop(1) [OF ok] g t(2) e, folded t(1), folded a(4)]
  show "page' = page" by (rule a(2))
  show "enclave_root_pt em' = ?r" "em_size em' = em_size em" "em_paddr em' = em_paddr em" "em_vaddr em' = em_vaddr em"
    by (simp_all add: a(3))
  show "\<exists>used. free = used @ free_mem em' \<and> length used \<le> 2" using g by (simp add: grown_def a(3))
  show "pt_ok K m' ?r (free_mem em')" using st(1) by (simp add: a(3))
  show "sv39 K m' ?r w = (if vpn w = vpn v then Some e else sv39 K m ?r w)" by (rule st(2))
  show "outside K m ?r free P \<Longrightarrow> outside K m' ?r (free_mem em') P \<and> same_page m m' P"
    using st(3) by (simp add: a(3))
qed

lemma alloc_page_succeeds:
  assumes "pt_ok K m (enclave_root_pt em) (free_mem em)" and "3 \<le> length (free_mem em)"
  shows "\<exists>page em' m'. enclave_alloc_page K em m v fl = Inr (page, em', m')"
proof -
  obtain page free where f: "free_mem em = page # free" "2 \<le> length free"
    using assms(2) by (cases "free_mem em") auto
  obtain res free' m1 where w: "walk_enclave_pt K free (enclave_root_pt em) v True m = (res, free', m1)"
    by (metis prod_cases3)
  have "res \<noteq> None"
    using walk_enclave_pt_ok [OF pt_ok_pop(1) [OF assms(1) [unfolded f(1)]] w] f(2) by (cases res) auto
  then show ?thesis using w f(1) by (auto simp: enclave_alloc_page_def)
qed

lemma map_va2pa_maps:
  assumes ok: "pt_ok K m (enclave_root_pt em) (free_mem em)"
    and fl: "small_flags fl" "fl AND (PTE_R OR PTE_W OR PTE_X) \<noteq> 0"
    and map: "map_va2pa K em m v paddr fl = Inr (v', em', m')"
  defines "e \<equiv> ptd_create (pa2ppn paddr) OR fl OR PTE_V"
  shows "v' = v" and "enclave_root_pt em' = enclave_root_pt em"
    and "\<exists>used. free_mem em = used @ free_mem em' \<and> length used \<le> 2"
    and "pt_ok K m' (enclave_root_pt em) (free_mem em')"
    and "sv39 K m' (enclave_root_pt em) w = (if vpn w = vpn v then Some e else sv39 K m (enclave_root_pt em) w)"
    and "outside K m (enclave_root_pt em) (free_mem em) P \<Longrightarrow>
      outside K m' (enclave_root_pt em) (free_mem em') P \<and> same_page m m' P"
    and "em_size em' = em_size em" and "em_paddr em' = em_paddr em" and "em_vaddr em' = em_vaddr em"
proof -
  let ?r = "enclave_root_pt em"
  obtain res free' m1 where w: "walk_enclave_pt K (free_mem em) ?r v True m = (res, free', m1)" by (metis prod_cases3)
  then obtain a where a: "res = Some a" "v' = v" "em' = em\<lparr>free_mem := free'\<rparr>" "m' = store64 m1 a e"
    using map by (auto simp: map_va2pa_def e_def split: option.splits)
  have g: "grown K ?r 2 m (free_mem em) m1 free'" and "\<exists>t. a = entry_addr t (get_pt_index v 2) \<and>
      pt_node K m1 ?r [get_pt_index v 0, get_pt_index v 1] = Some t"
    using walk_enclave_pt_ok [OF ok w] a(1) by auto
  then obtain t where t: "a = entry_addr t (get_pt_index v 2)"
      "pt_node K m1 ?r [get_pt_index v 0, get_pt_index v 1] = Some t" by blast
  have e: "leaf_ok e" unfolding e_def using fl by (rule leaf_entry)
  note st = sv39_store_leaf [OF ok g t(2) e, folded t(1), folded a(4)]
  show "v' = v" by (rule a(2))
  show "enclave_root_pt em' = ?r" "em_size em' = em_size em" "em_paddr em' = em_paddr em" "em_vaddr em' = em_vaddr em"
    by (simp_all add: a(3))
  show "\<exists>used. free_mem em = used @ free_mem em' \<and> length used \<le> 2" using g by (simp add: grown_def a(3))
  show "pt_ok K m' ?r (free_mem em')" using st(1) by (simp add: a(3))
  show "sv39 K m' ?r w = (if vpn w = vpn v then Some e else sv39 K m ?r w)" by (rule st(2))
  show "outside K m ?r (free_mem em) P \<Longrightarrow> outside K m' ?r (free_mem em') P \<and> same_page m m' P"
    using st(3) by (simp add: a(3))
qed

lemma map_va2pa_succeeds:
  assumes "pt_ok K m (enclave_root_pt em) (free_mem em)" and "2 \<le> length (free_mem em)"
  shows "\<exists>v' em' m'. map_va2pa K em m v paddr fl = Inr (v', em', m')"
proof -
  obtain res free' m1 where w: "walk_enclave_pt K (free_mem em) (enclave_root_pt em) v True m = (res, free', m1)"
    by (metis prod_cases3)
  have "res \<noteq> None" using walk_enclave_pt_ok [OF assms(1) w] assms(2) by (cases res) auto
  then show ?thesis using w by (auto simp: map_va2pa_def)
qed

subsection \<open>Initialisation\<close>

text \<open>The pages of a region.\<close>

definition region_page :: "u64 \<Rightarrow> nat \<Rightarrow> u64" where
  "region_page base i = base + of_nat (4096 * i)"

lemma init_free_mem_eq: "init_free_mem free base n = free @ map (region_page base) [0..<n]"
proof (induction n arbitrary: free base)
  case (Suc n)
  have "map (region_page (base + RISCV_PGSIZE)) [0..<n] = map (region_page base) (map Suc [0..<n])"
    by (simp add: region_page_def RISCV_PGSIZE_def algebra_simps)
  moreover have "map (region_page base) [0..<Suc n] = base # map (region_page base) (map Suc [0..<n])"
    by (simp add: map_Suc_upt upt_conv_Cons region_page_def del: upt_Suc)
  ultimately show ?case using Suc by (simp add: put_free_page_def)
qed simp

lemma region_pages:
  assumes "page_ok base" and "unat base + 4096 * n \<le> 2 ^ 64" and "i < n"
  shows "unat (region_page base i) = unat base + 4096 * i" and "page_ok (region_page base i)"
proof -
  have "4096 * i < 2 ^ 64" "unat base + 4096 * i < 2 ^ 64" using assms(2,3) by simp_all
  moreover have "unat (of_nat (4096 * i) :: u64) = 4096 * i"
    using calculation(1) by (simp only: unat_of_nat) simp
  ultimately show u: "unat (region_page base i) = unat base + 4096 * i"
    unfolding region_page_def by (simp only: unat_word_ariths(1)) simp
  then show "page_ok (region_page base i)" using assms(1) by (simp add: page_ok_def)
qed

lemma fresh_tree:
  assumes "zero_page m root" and "pt_path p" and "pt_node K m root p = Some t"
  shows "p = [] \<and> t = root"
proof (cases p)
  case (Cons i q)
  then have "i < 512" using assms(2) by (simp add: pt.path_def)
  then have "load64 m (entry_addr root i) = 0" using assms(1) zero_page_entry by blast
  then show ?thesis using assms(3) Cons by (simp add: pte_ptr_def)
qed (use assms in simp)

lemma fresh_pt_ok:
  assumes "page_ok root" and "zero_page m root" and "root \<notin> set free" and "distinct free" and "0 \<notin> set free"
    and "\<forall>f \<in> set free. page_ok f \<and> zero_page m f"
  shows "pt_ok K m root free" and "sv39 K m root w = None"
proof -
  have t: "\<And>p t. pt_path p \<Longrightarrow> pt_node K m root p = Some t \<Longrightarrow> p = [] \<and> t = root"
    using fresh_tree [OF assms(2)] by blast
  have "load64 m (entry_addr t i) = 0" if "pt_path (p @ [i])" "pt_node K m root p = Some t" for p t i
    using t [of p t] that pt.path_prefix [OF that(1)] assms(2) zero_page_entry by (auto simp: pt.path_def)
  then show ok: "pt_ok K m root free"
    using t assms zero_page_entry unfolding pt_ok_def pt.tree_ok_def by blast
  have "pt_node K m root [get_pt_index w 0, get_pt_index w 1] = None"
    using t [of "[get_pt_index w 0, get_pt_index w 1]"]
    by (cases "pt_node K m root [get_pt_index w 0, get_pt_index w 1]") auto
  then show "sv39 K m root w = None"
    by (simp add: sv39_leaf [OF ok] vpn_def pt.leaf_def leaf_ok_def del: pt.node.simps)
qed

lemma enclave_mem_int_eq:
  assumes "free_mem em = []" and "sz = 4096 * int n" and "2 \<le> n" and "n < 2 ^ 32"
  shows "enclave_mem_int em vaddr sz paddr = em\<lparr>enclave_root_pt := vaddr,
    free_mem := map (region_page vaddr) [2..<n], em_size := word_of_int sz, em_vaddr := vaddr, em_paddr := paddr\<rparr>"
proof -
  have "unat (word_of_int (cdiv sz 4096) :: u32) = n"
    using assms(2,4) by (simp add: cdiv_pos unat_of_nat)
  moreover have "[0..<n] = 0 # 1 # [2..<n]"
    using assms(3) by (simp add: upt_conv_Cons numeral_2_eq_2)
  ultimately show ?thesis
    using assms(1) by (simp add: enclave_mem_int_def init_free_mem_eq region_page_def Let_def)
qed

lemma enclave_mem_int_ok:
  fixes paddr :: u64
  assumes "free_mem em = []" and "sz = 4096 * int n" and "2 \<le> n" and "n < 2 ^ 32" and "page_ok vaddr"
    and "vaddr \<noteq> 0" and "unat vaddr + 4096 * n \<le> 2 ^ 64" and "\<forall>i < n. zero_page m (region_page vaddr i)"
  defines "em' \<equiv> enclave_mem_int em vaddr sz paddr"
  shows "pt_ok K m (enclave_root_pt em') (free_mem em')" and "sv39 K m (enclave_root_pt em') w = None"
    and "length (free_mem em') = n - 2"
proof -
  have eq: "enclave_root_pt em' = vaddr" "free_mem em' = map (region_page vaddr) [2..<n]"
    unfolding em'_def using enclave_mem_int_eq [OF assms(1-4)] by simp_all
  have u: "unat (region_page vaddr i) = unat vaddr + 4096 * i" "page_ok (region_page vaddr i)" if "i < n" for i
    using region_pages [OF assms(5,7) that] .
  have "region_page vaddr i \<noteq> vaddr \<and> region_page vaddr i \<noteq> 0" if "2 \<le> i" "i < n" for i
    using u(1) [of i] that assms(6) by (auto simp: word_unat_eq_iff)
  moreover have "inj_on (region_page vaddr) (set [2..<n])"
    by (rule inj_onI) (metis u(1) add_left_cancel atLeastLessThan_iff mult_left_cancel set_upt zero_neq_numeral)
  moreover have "zero_page m vaddr" using assms(3,8) by (auto simp: region_page_def dest: spec [of _ 0])
  ultimately have "vaddr \<notin> set (map (region_page vaddr) [2..<n])" "distinct (map (region_page vaddr) [2..<n])"
    "0 \<notin> set (map (region_page vaddr) [2..<n])" "zero_page m vaddr"
    by (fastforce simp: distinct_map)+
  moreover have "\<forall>f \<in> set (map (region_page vaddr) [2..<n]). page_ok f \<and> zero_page m f" using u(2) assms(8) by auto
  ultimately show "pt_ok K m (enclave_root_pt em') (free_mem em')" "sv39 K m (enclave_root_pt em') w = None"
    unfolding eq using fresh_pt_ok [OF assms(5)] by blast+
  show "length (free_mem em') = n - 2" by (simp add: eq)
qed

lemma walk_exhausted:
  "walk_enclave_pt K [] root v True m =
     (case pt_node K m root [get_pt_index v 0, get_pt_index v 1] of
        None \<Rightarrow> (None, [], m) | Some t \<Rightarrow> (Some (entry_addr t (get_pt_index v 2)), [], m))"
proof -
  have "walk_level K True t i [] m = (pte_ptr K (load64 m (entry_addr t i)), [], m)" for t i
    by (simp add: walk_level_def create_ptd_page_def pte_ptr_def)
  then show ?thesis by (simp add: walk_enclave_pt_def split: option.split)
qed

lemma entry_flags:
  "small_flags fl \<Longrightarrow> take_bit 10 (ptd_create ppn OR fl OR PTE_V) = fl OR PTE_V"
  by (rule bit_word_eqI) (auto simp: bit_take_bit_iff bit_or_iff ptd_create_def pte_create_def bit_push_bit_iff
      PTE_V_def bit_1_iff dest: small_flags_bit)

subsection \<open>Properties\<close>

text \<open>
  Every access the page table code makes through an index stays in the table: the index is
  below 512 at every level and for every address, and the eight bytes of the entry lie in the
  page of the table.
\<close>

lemma pt_index_in_table:
  assumes "page_ok table"
  shows "get_pt_index vaddr level < 512 \<and>
    (\<forall>b < 8. page_of (entry_addr table (get_pt_index vaddr level) + of_nat b) = page_of table)"
proof (intro conjI allI impI)
  fix b :: nat assume "b < 8"
  moreover have "entry_addr table i + of_nat b = table + of_nat (8 * i + b)" for i by (simp add: entry_addr_def)
  ultimately show "page_of (entry_addr table (get_pt_index vaddr level) + of_nat b) = page_of table"
    using get_pt_index_less [of vaddr level] assms by (simp only:) (rule page_of_add; simp)
qed (rule get_pt_index_less)

lemma pt_index_in_table_example:
  "get_pt_index 0xffffffe000000000 0 < 512 \<and> page_of (entry_addr 0x80000000 (get_pt_index 0xffffffe000000000 0)) = page_of 0x80000000"
  using pt_index_in_table [of "0x80000000" "0xffffffe000000000" 0] by (auto simp: page_ok_def dest: spec [of _ 0])

text \<open>
  A page table entry made from a physical page and permission bits gives both back.
\<close>

lemma pte_roundtrip:
  assumes "page_ok pa" and "small_flags fl"
  shows "pte2pa (ptd_create (pa2ppn pa) OR fl OR PTE_V) = pa \<and>
    take_bit 10 (ptd_create (pa2ppn pa) OR fl OR PTE_V) = fl OR PTE_V"
proof
  show "pte2pa (ptd_create (pa2ppn pa) OR fl OR PTE_V) = pa"
    using entry_pa [OF assms(2,1)] by (simp add: pa2ppn_def)
  show "take_bit 10 (ptd_create (pa2ppn pa) OR fl OR PTE_V) = fl OR PTE_V"
    by (rule entry_flags [OF assms(2)])
qed

lemma pte_roundtrip_example:
  "pte2pa (ptd_create (pa2ppn 0x80201000) OR 0xdf OR PTE_V) = 0x80201000"
  using pte_roundtrip [of "0x80201000" "0xdf"] by (simp add: page_ok_def small_flags_def)

text \<open>
  C24: Setting up an enclave's memory out of a zeroed, page-aligned region of at least two
  pages establishes the invariant: the first page becomes the root table, the second is set
  aside, the others are free, and no address is mapped.
\<close>

theorem enclave_mem_int_establishes:
  assumes "free_mem em = []" and "sz = 4096 * int n" and "2 \<le> n" and "n < 2 ^ 19" and "page_ok vaddr"
    and "vaddr \<noteq> 0" and "unat vaddr + 4096 * n \<le> 2 ^ 64" and "\<forall>i < n. zero_page m (region_page vaddr i)"
  shows "case enclave_mem_int em vaddr sz paddr of em' \<Rightarrow>
    pt_ok K m (enclave_root_pt em') (free_mem em') \<and> (\<forall>w. sv39 K m (enclave_root_pt em') w = None) \<and>
    enclave_root_pt em' = vaddr \<and> free_mem em' = map (region_page vaddr) [2..<n]"
proof -
  have "n < 2 ^ 32" using assms(4) by simp
  then show ?thesis
    using enclave_mem_int_ok [OF assms(1-3) _ assms(5-8)] enclave_mem_int_eq [OF assms(1-3)] by simp
qed

definition example_em :: enclave_mem_t where
  "example_em = \<lparr>enclave_root_pt = 0, free_mem = [], em_size = 0, em_vaddr = 0, em_paddr = 0\<rparr>"

theorem enclave_mem_int_establishes_witness:
  "pt_ok 0 (\<lambda>_. 0) (enclave_root_pt (enclave_mem_int example_em 0x1000 (4096 * int 8) 0x1000))
     (free_mem (enclave_mem_int example_em 0x1000 (4096 * int 8) 0x1000))"
  using enclave_mem_int_establishes [where em = example_em and sz = "4096 * int 8" and n = 8 and vaddr = "0x1000"
      and m = "\<lambda>_. 0" and paddr = "0x1000" and K = 0]
  by (auto simp add: example_em_def page_ok_def zero_page_def)


lemma example_em_ok:
  "pt_ok 0 (\<lambda>_. 0) 0x1000 (map (region_page 0x1000) [2..<8])"
  using enclave_mem_int_ok(1) [where em = example_em and sz = "4096 * int 8" and n = 8 and vaddr = "0x1000"
      and m = "\<lambda>_. 0" and paddr = 0 and K = 0]
    enclave_mem_int_eq [of example_em "4096 * int 8" 8 "0x1000" 0]
  by (simp add: example_em_def page_ok_def zero_page_def)




text \<open>
  When the free list is exhausted, \<open>enclave_alloc_page\<close> does not report it. If the tables
  for the address exist, the address is mapped to the physical frame of kernel address 0 and the
  call returns the null address; if they do not, the code writes through a null pointer.
\<close>

lemma enclave_alloc_page_exhausted:
  assumes "pt_ok K m (enclave_root_pt em) []" and "free_mem em = []"
    and "small_flags fl" and "fl AND (PTE_R OR PTE_W OR PTE_X) \<noteq> 0"
  shows "if pt_node K m (enclave_root_pt em) [get_pt_index v 0, get_pt_index v 1] = None
    then enclave_alloc_page K em m v fl = Inl (NullDeref ''pte'')
    else \<exists>em' m' e. enclave_alloc_page K em m v fl = Inr (0, em', m') \<and>
      sv39 K m' (enclave_root_pt em) v = Some e \<and> pte2pa e = kpa K 0"
proof -
  let ?r = "enclave_root_pt em" and ?e = "ptd_create (va2ppn K 0) OR fl OR PTE_V"
  have w: "walk_enclave_pt K [] ?r v True m =
      (case pt_node K m ?r [get_pt_index v 0, get_pt_index v 1] of
         None \<Rightarrow> (None, [], m) | Some t \<Rightarrow> (Some (entry_addr t (get_pt_index v 2)), [], m))"
    by (rule walk_exhausted)
  show ?thesis
  proof (cases "pt_node K m ?r [get_pt_index v 0, get_pt_index v 1]")
    case None
    then show ?thesis using w assms(2) by (simp add: enclave_alloc_page_def del: pt.node.simps)
  next
    case (Some t)
    let ?m = "store64 m (entry_addr t (get_pt_index v 2)) ?e"
    have "enclave_alloc_page K em m v fl = Inr (0, em, ?m)"
      using w Some assms(2) by (simp add: enclave_alloc_page_def del: pt.node.simps)
    moreover have "sv39 K ?m ?r v = Some ?e"
      using sv39_store_leaf(2) [OF assms(1) grown_refl [OF assms(1)] Some leaf_entry [OF assms(3,4)], where w = v] by simp
    moreover have "pte2pa ?e = kpa K 0"
      using entry_pa [OF assms(3), of "kpa K 0"] page_ok_kpa [of K 0] by (simp add: va2ppn_def page_ok_def [of 0])
    ultimately show ?thesis using Some by auto
  qed
qed

lemma enclave_alloc_page_exhausted_example:
  "enclave_alloc_page 0 (example_em\<lparr>enclave_root_pt := 0x1000\<rparr>) (\<lambda>_. 0) 0x10000 ENCLAVE_USER_PAGE =
     Inl (NullDeref ''pte'')"
proof -
  have ok: "pt_ok 0 (\<lambda>_. 0) 0x1000 []" by (rule fresh_pt_ok(1)) (simp_all add: page_ok_def zero_page_def)
  have "pt_node 0 (\<lambda>_. 0) 0x1000 [get_pt_index 0x10000 0, get_pt_index 0x10000 1] = None"
    using fresh_tree [of "\<lambda>_. 0" "0x1000" "[get_pt_index 0x10000 0, get_pt_index 0x10000 1]" 0]
    by (fastforce simp: zero_page_def simp del: pt.node.simps)
  moreover have "small_flags ENCLAVE_USER_PAGE" "ENCLAVE_USER_PAGE AND (PTE_R OR PTE_W OR PTE_X) \<noteq> 0"
    by (simp_all add: small_flags_def page_flags pte_bits)
  ultimately show ?thesis
    using enclave_alloc_page_exhausted [of 0 "\<lambda>_. 0" "example_em\<lparr>enclave_root_pt := 0x1000\<rparr>" ENCLAVE_USER_PAGE "0x10000"] ok
    by (simp add: example_em_def del: pt.node.simps)
qed

end
