(* ===== verification/Elf_Loader.thy ===== *)
theory Elf_Loader
  imports Enclave_Page
begin

text \<open>
  The ELF loader of the driver, \<^verbatim>\<open>penglai-enclave-elfloader.c\<close>. User memory is reached
  through \<open>copy_from_user\<close>, a parameter: for an address and a length it gives the number of
  bytes that could not be copied and the contents of the destination buffer after the call. The
  loops over pages compare 64-bit addresses that wrap around, so that they need not end; they
  run with fuel, and after \<open>2 ^ 52\<close> rounds the address has come back to where it began and
  the loop is known to run forever. Sizes are C ints, as in the code.
\<close>

subsection \<open>ELF headers and user memory\<close>

type_synonym user_mem = "u64 \<Rightarrow> nat \<Rightarrow> nat \<times> bytes"

definition le_nat :: "bytes \<Rightarrow> nat" where
  "le_nat bs = foldr (\<lambda>b n. unat b + 256 * n) bs 0"

definition int32 :: "int \<Rightarrow> int" where
  "int32 x = sint (word_of_int x :: u32)"

record elfhdr =
  e_entry :: u64
  e_phoff :: u64
  e_shoff :: u64
  e_phnum :: nat
  e_shnum :: nat

record elf_shdr =
  sh_type :: nat
  sh_addr :: u64
  sh_size :: u64

record elf_phdr =
  p_offset :: u64
  p_vaddr :: u64
  p_filesz :: u64

definition elfhdr_of :: "bytes \<Rightarrow> elfhdr" where
  "elfhdr_of bs = \<lparr>e_entry = of_nat (le_nat (slice 24 8 bs)), e_phoff = of_nat (le_nat (slice 32 8 bs)),
     e_shoff = of_nat (le_nat (slice 40 8 bs)), e_phnum = le_nat (slice 56 2 bs), e_shnum = le_nat (slice 60 2 bs)\<rparr>"

definition elf_shdr_of :: "bytes \<Rightarrow> elf_shdr" where
  "elf_shdr_of bs = \<lparr>sh_type = le_nat (slice 4 4 bs), sh_addr = of_nat (le_nat (slice 16 8 bs)),
     sh_size = of_nat (le_nat (slice 32 8 bs))\<rparr>"

definition elf_phdr_of :: "bytes \<Rightarrow> elf_phdr" where
  "elf_phdr_of bs = \<lparr>p_offset = of_nat (le_nat (slice 8 8 bs)), p_vaddr = of_nat (le_nat (slice 16 8 bs)),
     p_filesz = of_nat (le_nat (slice 32 8 bs))\<rparr>"

definition SHT_NOBITS :: nat where "SHT_NOBITS = 8"

subsection \<open>Loops over pages\<close>

type_synonym loader = "enclave_mem_t \<times> kmem"

definition loop_fuel :: nat where "loop_fuel = 2 ^ 52"

text \<open>\<open>for (addr = start; addr < limit; addr += RISCV_PGSIZE)\<close>\<close>

fun for_pages :: "nat \<Rightarrow> u64 \<Rightarrow> u64 \<Rightarrow> (u64 \<Rightarrow> 's \<Rightarrow> fault + 's) \<Rightarrow> 's \<Rightarrow> fault + 's" where
  "for_pages fuel addr limit body s =
     (if addr < limit
      then if fuel = 0 then Inl (Diverges ''for'')
           else case body addr s of
                  Inl f \<Rightarrow> Inl f
                | Inr s \<Rightarrow> for_pages (fuel - 1) (addr + RISCV_PGSIZE) limit body s
      else Inr s)"

declare for_pages.simps [simp del]

text \<open>One round: a fresh page for the address, which then receives some bytes.\<close>

definition load_page :: "u64 \<Rightarrow> u64 \<Rightarrow> (u64 \<Rightarrow> bytes) \<Rightarrow> u64 \<Rightarrow> loader \<Rightarrow> fault + loader" where
  "load_page K flags contents addr = (\<lambda>(em, mem).
     case enclave_alloc_page K em mem addr flags of
       Inl f \<Rightarrow> Inl f
     | Inr (page, em, mem) \<Rightarrow> Inr (em, write_block mem page (contents addr)))"

definition page_chunk :: "u64 \<Rightarrow> int \<Rightarrow> u64 \<Rightarrow> int" where
  "page_chunk start sz addr =
     (if addr + RISCV_PGSIZE > start + word_of_int sz then crem sz 4096 else 4096)"

text \<open>An \<open>int\<close> as a \<open>size_t\<close>.\<close>

definition size_arg :: "int \<Rightarrow> nat" where
  "size_arg sz = unat (word_of_int sz :: u64)"

definition penglai_enclave_load_NOBITS_section :: "u64 \<Rightarrow> u64 \<Rightarrow> int \<Rightarrow> loader \<Rightarrow> fault + int \<times> loader" where
  "penglai_enclave_load_NOBITS_section K elf_sect_addr elf_sect_size s =
     (case for_pages loop_fuel elf_sect_addr (elf_sect_addr + word_of_int elf_sect_size)
             (load_page K ENCLAVE_USER_PAGE
               (\<lambda>addr. replicate (size_arg (page_chunk elf_sect_addr elf_sect_size addr)) 0)) s of
        Inl f \<Rightarrow> Inl f
      | Inr s \<Rightarrow> Inr (0, s))"

definition penglai_enclave_load_program ::
  "u64 \<Rightarrow> user_mem \<Rightarrow> u64 \<Rightarrow> u64 \<Rightarrow> int \<Rightarrow> loader \<Rightarrow> fault + int \<times> loader" where
  "penglai_enclave_load_program K cfu elf_prog_infile_addr elf_prog_addr elf_prog_size s =
     (case for_pages loop_fuel elf_prog_addr (elf_prog_addr + word_of_int elf_prog_size)
             (load_page K ENCLAVE_USER_PAGE
               (\<lambda>addr. snd (cfu (elf_prog_infile_addr + addr - elf_prog_addr)
                              (size_arg (page_chunk elf_prog_addr elf_prog_size addr))))) s of
        Inl f \<Rightarrow> Inl f
      | Inr s \<Rightarrow> Inr (0, s))"

subsection \<open>Sections and segments\<close>

fun load_sections :: "u64 \<Rightarrow> user_mem \<Rightarrow> nat \<Rightarrow> u64 \<Rightarrow> loader \<Rightarrow> fault + int \<times> loader" where
  "load_sections K cfu 0 elf_sect_ptr s = Inr (0, s)"
| "load_sections K cfu (Suc n) elf_sect_ptr s =
     (let (r, bs) = cfu elf_sect_ptr 64; hdr = elf_shdr_of bs
      in if r \<noteq> 0 then load_sections K cfu n (elf_sect_ptr + 64) s
         else if sh_addr hdr = 0 then load_sections K cfu n (elf_sect_ptr + 64) s
         else if sh_type hdr = SHT_NOBITS
         then case penglai_enclave_load_NOBITS_section K (sh_addr hdr) (int32 (uint (sh_size hdr))) s of
                Inl f \<Rightarrow> Inl f
              | Inr (ret, s) \<Rightarrow>
                  if ret < 0 then Inr (-1, s) else load_sections K cfu n (elf_sect_ptr + 64) s
         else load_sections K cfu n (elf_sect_ptr + 64) s)"

fun load_segments :: "u64 \<Rightarrow> user_mem \<Rightarrow> u64 \<Rightarrow> nat \<Rightarrow> u64 \<Rightarrow> loader \<Rightarrow> fault + int \<times> loader" where
  "load_segments K cfu elf_ptr 0 elf_prog_ptr s = Inr (0, s)"
| "load_segments K cfu elf_ptr (Suc n) elf_prog_ptr s =
     (let (r, bs) = cfu elf_prog_ptr 56; hdr = elf_phdr_of bs
      in if r \<noteq> 0 then load_segments K cfu elf_ptr n (elf_prog_ptr + 56) s
         else case penglai_enclave_load_program K cfu (elf_ptr + p_offset hdr) (p_vaddr hdr)
                     (int32 (uint (p_filesz hdr))) s of
                Inl f \<Rightarrow> Inl f
              | Inr (ret, s) \<Rightarrow>
                  if ret < 0 then Inr (-1, s) else load_segments K cfu elf_ptr n (elf_prog_ptr + 56) s)"

text \<open>The entry point is a result next to the return value; \<open>entry\<close> is its old contents.\<close>

definition penglai_enclave_loadelf ::
  "u64 \<Rightarrow> user_mem \<Rightarrow> u64 \<Rightarrow> u64 \<Rightarrow> loader \<Rightarrow> fault + int \<times> u64 \<times> loader" where
  "penglai_enclave_loadelf K cfu elf_ptr entry s =
     (let (r, bs) = cfu elf_ptr 64; hdr = elfhdr_of bs
      in if r \<noteq> 0 then Inr (-1, entry, s)
         else case load_sections K cfu (e_shnum hdr) (elf_ptr + e_shoff hdr) s of
                Inl f \<Rightarrow> Inl f
              | Inr (ret, s) \<Rightarrow>
                  if ret < 0 then Inr (-1, e_entry hdr, s)
                  else case load_segments K cfu elf_ptr (e_phnum hdr) (elf_ptr + e_phoff hdr) s of
                         Inl f \<Rightarrow> Inl f
                       | Inr (ret, s) \<Rightarrow> Inr (if ret < 0 then -1 else 0, e_entry hdr, s))"

fun sections_memsize :: "user_mem \<Rightarrow> nat \<Rightarrow> u64 \<Rightarrow> int \<Rightarrow> int \<times> int" where
  "sections_memsize cfu 0 elf_sect_ptr sz = (0, sz)"
| "sections_memsize cfu (Suc n) elf_sect_ptr sz =
     (let (r, bs) = cfu elf_sect_ptr 64; hdr = elf_shdr_of bs
      in if r \<noteq> 0 then (-1, sz)
         else if sh_addr hdr = 0 then sections_memsize cfu n (elf_sect_ptr + 64) sz
         else if sh_type hdr = SHT_NOBITS
         then sections_memsize cfu n (elf_sect_ptr + 64) (int32 (sz + int32 (uint (sh_size hdr))))
         else sections_memsize cfu n (elf_sect_ptr + 64) sz)"

fun segments_memsize :: "user_mem \<Rightarrow> nat \<Rightarrow> u64 \<Rightarrow> int \<Rightarrow> int \<times> int" where
  "segments_memsize cfu 0 elf_prog_ptr sz = (0, sz)"
| "segments_memsize cfu (Suc n) elf_prog_ptr sz =
     (let (r, bs) = cfu elf_prog_ptr 56; hdr = elf_phdr_of bs
      in if r \<noteq> 0 then (-1, sz)
         else segments_memsize cfu n (elf_prog_ptr + 56) (int32 (sz + int32 (uint (p_filesz hdr)))))"

definition penglai_enclave_elfmemsize :: "user_mem \<Rightarrow> u64 \<Rightarrow> int \<Rightarrow> int \<times> int" where
  "penglai_enclave_elfmemsize cfu elf_ptr sz =
     (let (r, bs) = cfu elf_ptr 64; hdr = elfhdr_of bs
      in if r \<noteq> 0 then (-1, sz)
         else let (ret, sz) = sections_memsize cfu (e_shnum hdr) (elf_ptr + e_shoff hdr) sz
              in if ret < 0 then (-1, sz)
                 else segments_memsize cfu (e_phnum hdr) (elf_ptr + e_phoff hdr) sz)"

definition penglai_enclave_eapp_preprare ::
  "u64 \<Rightarrow> user_mem \<Rightarrow> u64 \<Rightarrow> u64 \<Rightarrow> u64 \<Rightarrow> int \<Rightarrow> loader \<Rightarrow> fault + int \<times> u64 \<times> loader" where
  "penglai_enclave_eapp_preprare K cfu elf_ptr entry stack_ptr stack_size s =
     (case for_pages loop_fuel (stack_ptr - word_of_int stack_size) stack_ptr
             (load_page K ENCLAVE_STACK_PAGE (\<lambda>addr. [])) s of
        Inl f \<Rightarrow> Inl f
      | Inr s \<Rightarrow>
          (case penglai_enclave_loadelf K cfu elf_ptr entry s of
             Inl f \<Rightarrow> Inl f
           | Inr (ret, entry, s) \<Rightarrow> Inr (0, entry, s)))"

subsection \<open>Mapping shared memory\<close>

definition map_page :: "u64 \<Rightarrow> u64 \<Rightarrow> u64 \<Rightarrow> u64 \<times> loader \<Rightarrow> fault + u64 \<times> loader" where
  "map_page K flags addr = (\<lambda>(paddr, em, mem).
     case map_va2pa K em mem addr paddr flags of
       Inl f \<Rightarrow> Inl f
     | Inr (_, em, mem) \<Rightarrow> Inr (paddr + RISCV_PGSIZE, em, mem))"

definition map_untrusted_mem :: "u64 \<Rightarrow> u64 \<Rightarrow> u64 \<Rightarrow> u64 \<Rightarrow> loader \<Rightarrow> fault + int \<times> loader" where
  "map_untrusted_mem K vaddr paddr sz s =
     (case for_pages loop_fuel vaddr (vaddr + sz) (map_page K ENCLAVE_UNTRUSTED_PAGE) (paddr, s) of
        Inl f \<Rightarrow> Inl f
      | Inr (_, s) \<Rightarrow> Inr (0, s))"

definition map_kbuffer :: "u64 \<Rightarrow> u64 \<Rightarrow> u64 \<Rightarrow> u64 \<Rightarrow> loader \<Rightarrow> fault + int \<times> loader" where
  "map_kbuffer K vaddr paddr sz s =
     (case for_pages loop_fuel vaddr (vaddr + sz) (map_page K ENCLAVE_KBUFFER_PAGE) (paddr, s) of
        Inl f \<Rightarrow> Inl f
      | Inr (_, s) \<Rightarrow> Inr (0, s))"

subsection \<open>Pages of virtual addresses\<close>

lemma get_pt_index_nat: "level \<le> 2 \<Longrightarrow> get_pt_index v level = unat v div 2 ^ (39 - (level + 1) * 9) mod 512"
proof -
  assume "level \<le> 2"
  let ?n = "39 - (level + 1) * 9"
  have "(511 :: u32) = mask 9" by (simp add: mask_eq_exp_minus_1)
  then have "get_pt_index v level = unat (take_bit 9 (ucast (drop_bit ?n v) :: u32))"
    unfolding get_pt_index_def by (simp only: take_bit_eq_mask)
  also have "\<dots> = take_bit 9 (take_bit 32 (drop_bit ?n (unat v)))"
    using unsigned_less [of v, where 'a = nat]
    by (simp add: unsigned_take_bit_eq unsigned_ucast_eq unsigned_drop_bit_eq take_bit_nat_eq_self)
  also have "\<dots> = drop_bit ?n (unat v) mod 2 ^ 9" by simp (simp add: take_bit_eq_mod)
  finally show ?thesis by (simp add: drop_bit_eq_div)
qed

lemma vpn_eq: "vpn v = vpn w \<longleftrightarrow> unat v div 4096 mod 2 ^ 27 = unat w div 4096 mod 2 ^ 27"
proof -
  have m: "x mod 2 ^ 27 = 262144 * (x div 262144 mod 512) + 512 * (x div 512 mod 512) + x mod 512" for x :: nat
  proof -
    have "x mod (512 * 262144) = 512 * (x div 512 mod 262144) + x mod 512" by (rule mod_mult2_eq)
    moreover have "x div 512 mod (512 * 512) = 512 * (x div 512 div 512 mod 512) + x div 512 mod 512" by (rule mod_mult2_eq)
    ultimately show ?thesis by (simp add: div_mult2_eq [symmetric])
  qed
  have i: "vpn u = (unat u div 4096 div 262144 mod 512, unat u div 4096 div 512 mod 512, unat u div 4096 mod 512)" for u
    by (simp add: vpn_def get_pt_index_nat div_mult2_eq [symmetric])
  have lt: "x mod 512 < 512" for x :: nat by simp
  define f where "f = (\<lambda>a b c :: nat. 512 * (512 * a + b) + c)"
  have inj: "f a b c = f a' b' c' \<longleftrightarrow> a = a' \<and> b = b' \<and> c = c'" if "b < 512" "c < 512" "b' < 512" "c' < 512" for a b c a' b' c'
  proof -
    have "(512 * q + r) mod 512 = r" "(512 * q + r) div 512 = q" if "r < 512" for q r :: nat using that by simp_all
    then have "f a b c mod 512 = c" "f a b c div 512 mod 512 = b" "f a b c div 512 div 512 = a"
        "f a' b' c' mod 512 = c'" "f a' b' c' div 512 mod 512 = b'" "f a' b' c' div 512 div 512 = a'"
      using that unfolding f_def by (simp_all only:)
    then show ?thesis by metis
  qed
  have "x mod 2 ^ 27 = f (x div 262144 mod 512) (x div 512 mod 512) (x mod 512)" for x :: nat
    unfolding m f_def by simp
  then show ?thesis unfolding i using inj lt by simp
qed

text \<open>The pages of a region that does not wrap around, and is below the size of the address space, are different.\<close>

lemma vpn_region:
  assumes "unat base + 4096 * n \<le> 2 ^ 64" and "n \<le> 2 ^ 27" and "i < n" and "j < n"
  shows "vpn (region_page base i) = vpn (region_page base j) \<longleftrightarrow> i = j"
proof
  have u: "unat (region_page base i) = unat base + 4096 * i" if "i < n" for i
  proof -
    have "4096 * i < 2 ^ 64" "unat base + 4096 * i < 2 ^ 64" using assms(1) that by simp_all
    then show ?thesis unfolding region_page_def by (simp only: unat_word_ariths(1) unat_of_nat) simp
  qed
  assume "vpn (region_page base i) = vpn (region_page base j)"
  then have "(unat base div 4096 + i) mod 2 ^ 27 = (unat base div 4096 + j) mod 2 ^ 27"
    unfolding vpn_eq u [OF assms(3)] u [OF assms(4)] by (simp add: add.commute)
  then have "int (unat base div 4096 + i) mod 2 ^ 27 = int (unat base div 4096 + j) mod 2 ^ 27"
    by (metis of_nat_numeral of_nat_power zmod_int)
  then have "(int (unat base div 4096 + i) - int (unat base div 4096)) mod 2 ^ 27 =
      (int (unat base div 4096 + j) - int (unat base div 4096)) mod 2 ^ 27"
    by (rule mod_diff_cong) simp
  then show "i = j" using assms(2-4) by simp
qed simp

subsection \<open>What the loops do\<close>

fun run_pages :: "(u64 \<Rightarrow> 's \<Rightarrow> fault + 's) \<Rightarrow> u64 list \<Rightarrow> 's \<Rightarrow> fault + 's" where
  "run_pages body [] s = Inr s"
| "run_pages body (a # as) s = (case body a s of Inl f \<Rightarrow> Inl f | Inr s \<Rightarrow> run_pages body as s)"

definition pages_of :: "u64 \<Rightarrow> nat \<Rightarrow> u64 list" where
  "pages_of start len = map (region_page start) [0..<(len + 4095) div 4096]"

lemma unat_of_nat64: "n < 2 ^ 64 \<Longrightarrow> unat (of_nat n :: u64) = n"
  by (simp only: unat_of_nat) simp

text \<open>A region that stays below the top of the address space is run through in order, page by page.\<close>

lemma for_pages_run:
  assumes "unat start + len + 4096 \<le> 2 ^ 64" and "(len + 4095) div 4096 \<le> fuel"
  shows "for_pages fuel start (start + of_nat len) body s = run_pages body (pages_of start len) s"
  using assms
proof (induction "(len + 4095) div 4096" arbitrary: start len fuel s)
  case 0
  then have "len = 0" by simp
  then show ?case by (simp add: for_pages.simps pages_of_def)
next
  case (Suc n)
  have len: "0 < len" "len < 2 ^ 64" using Suc.hyps(2) Suc.prems(1) by (cases len, simp_all)
  have lim: "unat (start + of_nat len) = unat start + len"
    using Suc.prems(1) len by (simp add: unat_word_ariths(1) unat_of_nat64)
  then have lt: "start < start + of_nat len" using len by (simp add: word_less_nat_alt)
  have next_page: "start + RISCV_PGSIZE = region_page start 1" by (simp add: region_page_def RISCV_PGSIZE_def)
  have tail: "map (region_page start) (map Suc [0..<n]) = map (region_page (start + RISCV_PGSIZE)) [0..<n]"
    by (simp add: region_page_def RISCV_PGSIZE_def algebra_simps)
  have "pages_of start len = region_page start 0 # map (region_page start) (map Suc [0..<n])"
    unfolding pages_of_def Suc.hyps(2) [symmetric] by (simp add: map_Suc_upt upt_conv_Cons del: upt_Suc)
  then have split: "pages_of start len = start # map (region_page (start + RISCV_PGSIZE)) [0..<n]"
    unfolding tail by (simp add: region_page_def)
  have "for_pages (fuel - 1) (start + RISCV_PGSIZE) (start + of_nat len) body s' =
      run_pages body (map (region_page (start + RISCV_PGSIZE)) [0..<n]) s'" for s'
  proof (cases "len \<le> 4096")
    case True
    then have n: "n = 0" using Suc.hyps(2) by (simp add: div_if split: if_splits)
    have "unat (start + RISCV_PGSIZE) = unat start + 4096"
      using Suc.prems(1) len by (simp add: unat_word_ariths(1) RISCV_PGSIZE_def)
    then have "\<not> start + RISCV_PGSIZE < start + of_nat len" using lim True by (simp add: word_less_nat_alt)
    then show ?thesis by (simp add: for_pages.simps n)
  next
    case False
    then obtain l where l: "len = l + 4096" by (metis le_add_diff_inverse2 nat_le_linear)
    have "unat (start + RISCV_PGSIZE) = unat start + 4096"
      using Suc.prems(1) l by (simp add: unat_word_ariths(1) RISCV_PGSIZE_def)
    moreover have "start + of_nat len = (start + RISCV_PGSIZE) + of_nat l" by (simp add: l RISCV_PGSIZE_def)
    moreover have n: "n = (l + 4095) div 4096" using Suc.hyps(2) l by simp
    moreover have "run_pages body (map (region_page (start + RISCV_PGSIZE)) [0..<n]) s' =
        run_pages body (pages_of (start + RISCV_PGSIZE) l) s'" by (simp add: pages_of_def n)
    ultimately show ?thesis
      using Suc.hyps(1) [of l "start + RISCV_PGSIZE" "fuel - 1" s'] Suc.prems Suc.hyps(2) l
      by (simp add: add.assoc) (simp add: add.commute)
  qed
  moreover have "fuel \<noteq> 0" using Suc.prems(2) Suc.hyps(2) by simp
  ultimately show ?case
    by (subst for_pages.simps) (simp add: lt split split: sum.split)
qed

text \<open>
  \<open>loaded\<close> says what loading an image, a list of addresses with permissions and contents,
  achieves: every address is mapped, with its permissions, to a page that holds its contents
  and zeros behind them; all other translations are as before, as are the pages outside.
\<close>

definition page_holds :: "kmem \<Rightarrow> u64 \<Rightarrow> bytes \<Rightarrow> bool" where
  "page_holds m page bs \<longleftrightarrow> (\<forall>k < 4096. m (page + of_nat k) = (if k < length bs then bs ! k else 0))"

definition mapped_to :: "u64 \<Rightarrow> kmem \<Rightarrow> u64 \<Rightarrow> u64 \<Rightarrow> u64 \<Rightarrow> u64 \<Rightarrow> bool" where
  "mapped_to K m root v fl pa \<longleftrightarrow> (\<exists>e. sv39 K m root v = Some e \<and> pte2pa e = pa \<and> take_bit 10 e = fl OR PTE_V)"

definition leaf_flags :: "u64 \<Rightarrow> bool" where
  "leaf_flags fl \<longleftrightarrow> small_flags fl \<and> fl AND (PTE_R OR PTE_W OR PTE_X) \<noteq> 0"

type_synonym page_image = "(u64 \<times> u64 \<times> bytes) list"

definition image_vpns :: "page_image \<Rightarrow> (nat \<times> nat \<times> nat) set" where
  "image_vpns xs = (\<lambda>(a, _). vpn a) ` set xs"

definition loaded :: "u64 \<Rightarrow> page_image \<Rightarrow> loader \<Rightarrow> loader \<Rightarrow> bool" where
  "loaded K xs = (\<lambda>(em, m) (em', m').
     enclave_root_pt em' = enclave_root_pt em \<and> em_size em' = em_size em \<and> em_vaddr em' = em_vaddr em \<and>
     em_paddr em' = em_paddr em \<and>
     pt_ok K m' (enclave_root_pt em) (free_mem em') \<and>
     length (free_mem em) \<le> length (free_mem em') + 3 * length xs \<and> set (free_mem em') \<subseteq> set (free_mem em) \<and>
     (\<forall>(a, fl, bs) \<in> set xs. \<exists>page \<in> set (free_mem em). mapped_to K m' (enclave_root_pt em) a fl (kpa K page) \<and>
        outside K m' (enclave_root_pt em) (free_mem em') page \<and> page_holds m' page bs) \<and>
     (\<forall>w. vpn w \<notin> image_vpns xs \<longrightarrow> sv39 K m' (enclave_root_pt em) w = sv39 K m (enclave_root_pt em) w) \<and>
     (\<forall>P. outside K m (enclave_root_pt em) (free_mem em) P \<longrightarrow>
        outside K m' (enclave_root_pt em) (free_mem em') P \<and> same_page m m' P))"

lemma leaf_flags_pages [simp]:
  "leaf_flags ENCLAVE_USER_PAGE" "leaf_flags ENCLAVE_STACK_PAGE" "leaf_flags ENCLAVE_UNTRUSTED_PAGE"
  "leaf_flags ENCLAVE_KBUFFER_PAGE"
  by (simp_all add: leaf_flags_def small_flags_def page_flags pte_bits)

lemma page_holds_same: "same_page m m' P \<Longrightarrow> page_holds m P bs \<Longrightarrow> page_holds m' P bs"
  by (simp add: same_page_def page_holds_def)

lemma load_page_ok:
  assumes ok: "pt_ok K m (enclave_root_pt em) (free_mem em)" and n: "3 \<le> length (free_mem em)"
    and fl: "leaf_flags fl" and bs: "length (contents a) \<le> 4096"
  shows "\<exists>em' m'. load_page K fl contents a (em, m) = Inr (em', m') \<and>
    loaded K [(a, fl, contents a)] (em, m) (em', m')"
proof -
  obtain page free where f: "free_mem em = page # free" using n by (cases "free_mem em") auto
  note ok' = ok [unfolded f]
  have fl': "small_flags fl" "fl AND (PTE_R OR PTE_W OR PTE_X) \<noteq> 0" using fl by (auto simp: leaf_flags_def)
  obtain page' em1 m1 where al: "enclave_alloc_page K em m a fl = Inr (page', em1, m1)"
    using alloc_page_succeeds [OF ok n] by blast
  note am = alloc_page_maps [OF ok' f fl' al]
  let ?r = "enclave_root_pt em" and ?m = "write_block m1 page (contents a)"
  let ?e = "ptd_create (va2ppn K page) OR fl OR PTE_V"
  have out: "outside K m1 ?r (free_mem em1) page" "same_page m m1 page"
    using am(6) [OF pt_ok_pop(2) [OF ok']] by auto
  have pg: "page_ok page" "zero_page m1 page"
    using pt_ok_pop(4,5) [OF ok'] zero_page_same [OF out(2)] by auto
  note wr = write_outside [OF am(4) out(1) bs]
  obtain used where used: "free = used @ free_mem em1" "length used \<le> 2" using am(3) by blast
  have "page_holds ?m page (contents a)"
    using pg bs unfolding page_holds_def zero_page_def by (simp add: write_block_page)
  moreover have "mapped_to K ?m ?r a fl (kpa K page)"
    unfolding mapped_to_def wr(2) am(5)
    using entry_pa [OF fl'(1), of "kpa K page"] pg entry_flags [OF fl'(1)] by (simp add: va2ppn_def)
  moreover have "sv39 K ?m ?r w = sv39 K m ?r w" if "vpn w \<notin> image_vpns [(a, fl, contents a)]" for w
    using that [unfolded image_vpns_def] am(5) [of w] wr(2) [of w] by simp
  moreover have "outside K ?m ?r (free_mem em1) P \<and> same_page m ?m P"
    if "outside K m ?r (free_mem em) P" for P
  proof -
    have P: "P \<noteq> page" "outside K m ?r free P" "page_ok P" using that by (auto simp: f outside_def)
    then show ?thesis using am(6) [OF P(2)] wr(3,4) [of P] same_page_trans by blast
  qed
  moreover have "length (free_mem em) \<le> length (free_mem em1) + 3 * length [(a, fl, contents a)]"
      "set (free_mem em1) \<subseteq> set (free_mem em)" "page \<in> set (free_mem em)"
    using used by (auto simp: f)
  ultimately have "loaded K [(a, fl, contents a)] (em, m) (em1, ?m)"
    using am(2,7-9) wr(1) wr(3) [OF out(1)] unfolding loaded_def by auto
  then show ?thesis using al am(1) by (simp add: load_page_def)
qed

lemma loaded_append:
  assumes 1: "loaded K xs (em, m) (em1, m1)" and 2: "loaded K ys (em1, m1) (em2, m2)"
    and new: "image_vpns xs \<inter> image_vpns ys = {}"
  shows "loaded K (xs @ ys) (em, m) (em2, m2)"
proof -
  let ?r = "enclave_root_pt em"
  have r: "enclave_root_pt em1 = ?r" using 1 by (simp add: loaded_def)
  have fs: "set (free_mem em1) \<subseteq> set (free_mem em)" using 1 by (simp add: loaded_def)
  have old: "\<exists>page \<in> set (free_mem em). mapped_to K m2 ?r a fl (kpa K page) \<and>
      outside K m2 ?r (free_mem em2) page \<and> page_holds m2 page bs" if x: "(a, fl, bs) \<in> set xs" for a fl bs
  proof -
    obtain page where page: "page \<in> set (free_mem em)" "mapped_to K m1 ?r a fl (kpa K page)"
        "outside K m1 ?r (free_mem em1) page" "page_holds m1 page bs"
      using 1 x unfolding loaded_def by fastforce
    have "vpn a \<notin> image_vpns ys" using x new unfolding image_vpns_def by force
    then have "sv39 K m2 ?r a = sv39 K m1 ?r a" using 2 r unfolding loaded_def by auto
    then have "mapped_to K m2 ?r a fl (kpa K page)" using page(2) by (simp add: mapped_to_def)
    moreover have "outside K m2 ?r (free_mem em2) page" "same_page m1 m2 page"
      using 2 page(3) r unfolding loaded_def by auto
    ultimately show ?thesis using page(1,4) page_holds_same by blast
  qed
  have fresh: "\<exists>page \<in> set (free_mem em). mapped_to K m2 ?r a fl (kpa K page) \<and>
      outside K m2 ?r (free_mem em2) page \<and> page_holds m2 page bs" if "(a, fl, bs) \<in> set ys" for a fl bs
    using 2 that r fs unfolding loaded_def by fastforce
  have "sv39 K m2 ?r w = sv39 K m ?r w" if "vpn w \<notin> image_vpns (xs @ ys)" for w
    using 1 2 that r unfolding loaded_def by (simp add: image_vpns_def image_Un)
  moreover have "outside K m2 ?r (free_mem em2) P \<and> same_page m m2 P" if "outside K m ?r (free_mem em) P" for P
    using 1 2 that r same_page_trans [of m m1 P m2] unfolding loaded_def by simp
  moreover have "\<forall>(a, fl, bs) \<in> set (xs @ ys). \<exists>page \<in> set (free_mem em). mapped_to K m2 ?r a fl (kpa K page) \<and>
      outside K m2 ?r (free_mem em2) page \<and> page_holds m2 page bs"
    using old fresh by (auto simp del: bex_simps)
  ultimately show ?thesis using 1 2 r fs unfolding loaded_def by (auto 0 3 simp del: bex_simps)
qed

lemma loaded_nil: "pt_ok K m (enclave_root_pt em) (free_mem em) \<Longrightarrow> loaded K [] (em, m) (em, m)"
  by (simp add: loaded_def same_page_def)

lemma loaded_pt_ok:
  "loaded K xs (em, m) (em', m') \<Longrightarrow> pt_ok K m' (enclave_root_pt em') (free_mem em')"
  "loaded K xs (em, m) (em', m') \<Longrightarrow> 3 * (length xs + n) \<le> length (free_mem em) \<Longrightarrow> 3 * n \<le> length (free_mem em')"
  by (auto simp: loaded_def)

definition image_of :: "u64 \<Rightarrow> (u64 \<Rightarrow> bytes) \<Rightarrow> u64 list \<Rightarrow> page_image" where
  "image_of fl contents as = map (\<lambda>a. (a, fl, contents a)) as"

lemma load_pages:
  assumes "pt_ok K m (enclave_root_pt em) (free_mem em)" and "3 * length as \<le> length (free_mem em)"
    and "leaf_flags fl" and "distinct (map vpn as)" and "\<forall>a \<in> set as. length (contents a) \<le> 4096"
  shows "\<exists>em' m'. run_pages (load_page K fl contents) as (em, m) = Inr (em', m') \<and>
    loaded K (image_of fl contents as) (em, m) (em', m')"
  using assms
proof (induction as arbitrary: em m)
  case Nil
  then show ?case by (simp add: loaded_nil image_of_def)
next
  case (Cons a as)
  obtain em1 m1 where 1: "load_page K fl contents a (em, m) = Inr (em1, m1)"
      "loaded K [(a, fl, contents a)] (em, m) (em1, m1)"
    using load_page_ok [of K m em fl contents a] Cons.prems by auto
  then have "pt_ok K m1 (enclave_root_pt em1) (free_mem em1)" "3 * length as \<le> length (free_mem em1)"
    using Cons.prems(2) loaded_pt_ok [OF 1(2)] by auto
  then obtain em2 m2 where 2: "run_pages (load_page K fl contents) as (em1, m1) = Inr (em2, m2)"
      "loaded K (image_of fl contents as) (em1, m1) (em2, m2)"
    using Cons.IH [of m1 em1] Cons.prems by auto
  have "image_vpns [(a, fl, contents a)] \<inter> image_vpns (image_of fl contents as) = {}"
    using Cons.prems(4) by (auto simp: image_vpns_def image_of_def)
  then show ?case using 1(1) 2(1) loaded_append [OF 1(2) 2(2)] by (simp add: image_of_def)
qed

text \<open>Reading through the translation, one byte.\<close>

definition read_virtual :: "u64 \<Rightarrow> kmem \<Rightarrow> u64 \<Rightarrow> u64 \<Rightarrow> u8 option" where
  "read_virtual K m root v =
     (case sv39 K m root v of None \<Rightarrow> None | Some e \<Rightarrow> Some (m (kva K (pte2pa e) + (v AND 4095))))"

lemma and_4095: "unat (v AND 4095 :: u64) = unat v mod 4096"
proof -
  have "(4095 :: u64) = mask 12" by (simp add: mask_eq_exp_minus_1)
  then have "v AND 4095 = take_bit 12 v" by (simp only: take_bit_eq_mask)
  then show ?thesis by (simp only: unsigned_take_bit_eq) (simp add: take_bit_eq_mod)
qed

lemma sv39_vpn: "vpn v = vpn w \<Longrightarrow> sv39 K m root v = sv39 K m root w"
  by (simp add: sv39_def vpn_def)

lemma loaded_read:
  assumes ld: "loaded K xs (em, m) (em', m')" and x: "(region_page start j, fl, bs) \<in> set xs" and al: "page_ok start"
    and lim: "unat start + 4096 * j + 4096 \<le> 2 ^ 64" and k: "k < 4096"
  shows "read_virtual K m' (enclave_root_pt em) (start + of_nat (4096 * j + k)) =
    Some (if k < length bs then bs ! k else 0)"
proof -
  let ?r = "enclave_root_pt em" and ?a = "region_page start j" and ?v = "start + of_nat (4096 * j + k)"
  obtain page where page: "mapped_to K m' ?r ?a fl (kpa K page)" "page_holds m' page bs"
    using ld x unfolding loaded_def by fastforce
  have b: "unat start + (4096 * j + k) < 2 ^ 64" "4096 * j + k < 2 ^ 64" "unat start + 4096 * j < 2 ^ 64" "4096 * j < 2 ^ 64"
    using lim k by linarith+
  have u: "unat ?v = unat start + (4096 * j + k)" "unat ?a = unat start + 4096 * j"
    using b unfolding region_page_def by (simp_all add: unat_word_ariths(1) unat_of_nat64 del: of_nat_mult of_nat_add)
  obtain q where q: "unat start = 4096 * q" using al by (auto simp: page_ok_def)
  then have "vpn ?v = vpn ?a" unfolding vpn_eq u using k by (simp add: add.commute)
  then obtain e where e: "sv39 K m' ?r ?v = Some e" "pte2pa e = kpa K page"
    using page(1) sv39_vpn unfolding mapped_to_def by metis
  have "unat (?v AND 4095) = k" unfolding and_4095 u q using k by simp
  then have "?v AND 4095 = of_nat k" using k by (simp add: word_unat_eq_iff unat_of_nat64)
  then show ?thesis using e page(2) k unfolding page_holds_def by (simp add: read_virtual_def)
qed

lemma loaded_read_at:
  assumes ld: "loaded K xs (em, m) (em', m')" and al: "page_ok start" and lim: "unat start + len + 4096 \<le> 2 ^ 64"
    and x: "(region_page start (k div 4096), fl, bs) \<in> set xs" and k: "k < len"
  shows "read_virtual K m' (enclave_root_pt em) (start + of_nat k) =
    Some (if k mod 4096 < length bs then bs ! (k mod 4096) else 0)"
proof -
  have "4096 * (k div 4096) \<le> k" by simp
  then have "unat start + 4096 * (k div 4096) + 4096 \<le> 2 ^ 64" using lim k by linarith
  then show ?thesis using loaded_read [OF ld x al _, of "k mod 4096"] by simp
qed

lemma page_chunk_eq:
  assumes "unat start + len + 4096 \<le> 2 ^ 64" and "j < (len + 4095) div 4096"
  shows "page_chunk start (int len) (region_page start j) = int (min 4096 (len - 4096 * j))"
proof -
  have j: "4096 * j < len" using assms(2) by linarith
  then have b: "4096 * j < 2 ^ 64" "unat start + 4096 * j < 2 ^ 64" "len < 2 ^ 64" "unat start + len < 2 ^ 64"
      "unat start + (4096 * j + 4096) < 2 ^ 64 "
    using assms(1) by linarith+
  have "unat (start + word_of_int (int len)) = unat start + len"
    using b by (simp add: unat_word_ariths(1) unat_of_nat64)
  moreover have "region_page start j + RISCV_PGSIZE = start + of_nat (4096 * j + 4096)"
    by (simp add: region_page_def RISCV_PGSIZE_def)
  then have "unat (region_page start j + RISCV_PGSIZE) = unat start + (4096 * j + 4096)"
    using b by (simp add: unat_word_ariths(1) unat_of_nat64 del: of_nat_add of_nat_mult)
  moreover have "crem (int len) 4096 = int (len - 4096 * j)" if "len < 4096 * j + 4096"
  proof -
    have "len = 4096 * j + (len - 4096 * j)" "len - 4096 * j < 4096" using j that by linarith+
    then have "len mod 4096 = len - 4096 * j" by (metis mod_less mod_mult_self4 mult.commute)
    then have "int (len mod 4096) = int (len - 4096 * j)" by (simp only:)
    then show ?thesis by (simp only: crem_pos of_nat_0_le_iff zmod_int of_nat_numeral)
  qed
  ultimately show ?thesis using j unfolding page_chunk_def by (auto simp: word_less_nat_alt)
qed

lemma size_arg_int: "n < 2 ^ 64 \<Longrightarrow> size_arg (int n) = n"
  by (simp add: size_arg_def unat_of_nat64)

lemma pages_of_facts:
  assumes "unat start + len + 4096 \<le> 2 ^ 64" and "len < 2 ^ 31"
  shows "distinct (map vpn (pages_of start len))" and "length (pages_of start len) = (len + 4095) div 4096"
    and "(len + 4095) div 4096 \<le> loop_fuel"
proof -
  let ?n = "(len + 4095) div 4096"
  have "4096 * ?n \<le> len + 4095" by simp
  then have n: "unat start + 4096 * ?n \<le> 2 ^ 64" "?n \<le> 2 ^ 27" "?n \<le> 2 ^ 52" using assms by simp_all
  then have "inj_on (vpn \<circ> region_page start) (set [0..<?n])"
    using vpn_region [OF n(1,2)] by (auto intro!: inj_onI)
  then show "distinct (map vpn (pages_of start len))" by (simp add: pages_of_def distinct_map)
  show "length (pages_of start len) = ?n" by (simp add: pages_of_def)
  show "?n \<le> loop_fuel" using n(3) by (simp add: loop_fuel_def)
qed

lemma load_region:
  assumes "pt_ok K m (enclave_root_pt em) (free_mem em)" and "3 * ((len + 4095) div 4096) \<le> length (free_mem em)"
    and "leaf_flags fl" and "unat start + len + 4096 \<le> 2 ^ 64" and "len < 2 ^ 31"
    and "\<forall>a \<in> set (pages_of start len). length (contents a) \<le> 4096"
  shows "\<exists>em' m'. for_pages loop_fuel start (start + of_nat len) (load_page K fl contents) (em, m) = Inr (em', m') \<and>
    loaded K (image_of fl contents (pages_of start len)) (em, m) (em', m')"
proof -
  note facts = pages_of_facts [OF assms(4,5)]
  show ?thesis
    unfolding for_pages_run [OF assms(4) facts(3)]
    using load_pages [OF assms(1) _ assms(3) facts(1) assms(6)] assms(2) facts(2) by simp
qed

text \<open>What \<open>copy_from_user\<close> is documented to do with a readable region of user memory.\<close>

definition user_readable :: "user_mem \<Rightarrow> (u64 \<Rightarrow> u8) \<Rightarrow> u64 \<Rightarrow> nat \<Rightarrow> bool" where
  "user_readable cfu user a len \<longleftrightarrow>
     (\<forall>i n. i + n \<le> len \<longrightarrow> cfu (a + of_nat i) n = (0, map (\<lambda>j. user (a + of_nat (i + j))) [0..<n]))"

text \<open>The pages of a segment of a file in user memory, and those of a section of zeros.\<close>

definition segment_image :: "(u64 \<Rightarrow> u8) \<Rightarrow> u64 \<Rightarrow> u64 \<Rightarrow> nat \<Rightarrow> page_image" where
  "segment_image user infile start len =
     map (\<lambda>j. (region_page start j, ENCLAVE_USER_PAGE,
                map (\<lambda>i. user (infile + of_nat (4096 * j + i))) [0..<min 4096 (len - 4096 * j)]))
       [0..<(len + 4095) div 4096]"

definition zero_image :: "u64 \<Rightarrow> u64 \<Rightarrow> nat \<Rightarrow> page_image" where
  "zero_image fl start len =
     map (\<lambda>j. (region_page start j, fl, replicate (min 4096 (len - 4096 * j)) 0)) [0..<(len + 4095) div 4096]"

lemma length_images [len_simps, simp]:
  "length (segment_image user infile start len) = (len + 4095) div 4096"
  "length (zero_image fl start len) = (len + 4095) div 4096"
  by (simp_all add: segment_image_def zero_image_def)

lemma load_program_loaded:
  assumes ok: "pt_ok K m (enclave_root_pt em) (free_mem em)" and n: "3 * ((len + 4095) div 4096) \<le> length (free_mem em)"
    and lim: "unat start + len + 4096 \<le> 2 ^ 64" and len: "len < 2 ^ 31"
    and user: "user_readable cfu user infile len"
  shows "\<exists>em' m'. penglai_enclave_load_program K cfu infile start (int len) (em, m) = Inr (0, em', m') \<and>
    loaded K (segment_image user infile start len) (em, m) (em', m')"
proof -
  define contents where "contents = (\<lambda>addr. snd (cfu (infile + addr - start)
      (size_arg (page_chunk start (int len) addr))))"
  have c: "contents (region_page start j) =
      map (\<lambda>i. user (infile + of_nat (4096 * j + i))) [0..<min 4096 (len - 4096 * j)]" if "j < (len + 4095) div 4096" for j
  proof -
    let ?n = "min 4096 (len - 4096 * j)"
    have "4096 * j + ?n \<le> len" using that by linarith
    then have "cfu (infile + of_nat (4096 * j)) ?n = (0, map (\<lambda>i. user (infile + of_nat (4096 * j + i))) [0..<?n])"
      using user unfolding user_readable_def by blast
    moreover have "size_arg (page_chunk start (int len) (region_page start j)) = ?n"
      unfolding page_chunk_eq [OF lim that] by (rule size_arg_int) simp
    moreover have "infile + region_page start j - start = infile + of_nat (4096 * j)" by (simp add: region_page_def)
    ultimately show ?thesis unfolding contents_def by (simp only: snd_conv)
  qed
  then have "\<forall>a \<in> set (pages_of start len). length (contents a) \<le> 4096" by (auto simp: pages_of_def)
  then obtain em' m' where
      "for_pages loop_fuel start (start + of_nat len) (load_page K ENCLAVE_USER_PAGE contents) (em, m) = Inr (em', m')"
      "loaded K (image_of ENCLAVE_USER_PAGE contents (pages_of start len)) (em, m) (em', m')"
    using load_region [OF ok n leaf_flags_pages(1) lim len] by blast
  moreover have "image_of ENCLAVE_USER_PAGE contents (pages_of start len) = segment_image user infile start len"
    using c by (simp add: image_of_def pages_of_def segment_image_def)
  ultimately show ?thesis unfolding penglai_enclave_load_program_def contents_def [symmetric] by auto
qed

lemma load_NOBITS_loaded:
  assumes ok: "pt_ok K m (enclave_root_pt em) (free_mem em)" and n: "3 * ((len + 4095) div 4096) \<le> length (free_mem em)"
    and lim: "unat start + len + 4096 \<le> 2 ^ 64" and len: "len < 2 ^ 31"
  shows "\<exists>em' m'. penglai_enclave_load_NOBITS_section K start (int len) (em, m) = Inr (0, em', m') \<and>
    loaded K (zero_image ENCLAVE_USER_PAGE start len) (em, m) (em', m')"
proof -
  define contents where "contents = (\<lambda>addr. replicate (size_arg (page_chunk start (int len) addr)) (0 :: u8))"
  have c: "contents (region_page start j) = replicate (min 4096 (len - 4096 * j)) 0" if "j < (len + 4095) div 4096" for j
    unfolding contents_def page_chunk_eq [OF lim that] by (subst size_arg_int) simp_all
  then have "\<forall>a \<in> set (pages_of start len). length (contents a) \<le> 4096" by (auto simp: pages_of_def)
  then obtain em' m' where
      "for_pages loop_fuel start (start + of_nat len) (load_page K ENCLAVE_USER_PAGE contents) (em, m) = Inr (em', m')"
      "loaded K (image_of ENCLAVE_USER_PAGE contents (pages_of start len)) (em, m) (em', m')"
    using load_region [OF ok n leaf_flags_pages(1) lim len] by blast
  moreover have "image_of ENCLAVE_USER_PAGE contents (pages_of start len) = zero_image ENCLAVE_USER_PAGE start len"
    using c by (simp add: image_of_def pages_of_def zero_image_def)
  ultimately show ?thesis unfolding penglai_enclave_load_NOBITS_section_def contents_def [symmetric] by auto
qed

lemma chunk_mod:
  assumes "k < (len :: nat)"
  shows "k div 4096 < (len + 4095) div 4096" and "k mod 4096 < min 4096 (len - 4096 * (k div 4096))"
proof -
  have "4096 * (k div 4096) + k mod 4096 = k" by simp
  then show "k mod 4096 < min 4096 (len - 4096 * (k div 4096))" using assms by (simp only: min_less_iff_conj) linarith
  show "k div 4096 < (len + 4095) div 4096" using assms by linarith
qed

lemma segment_read:
  assumes "loaded K xs (em, m) (em', m')" and "page_ok start" and "unat start + len + 4096 \<le> 2 ^ 64"
    and sub: "set (segment_image user infile start len) \<subseteq> set xs" and "k < len"
  shows "read_virtual K m' (enclave_root_pt em) (start + of_nat k) = Some (user (infile + of_nat k))"
proof -
  let ?j = "k div 4096"
  let ?bs = "map (\<lambda>i. user (infile + of_nat (4096 * ?j + i))) [0..<min 4096 (len - 4096 * ?j)]"
  note c = chunk_mod [OF assms(5)]
  have "(region_page start ?j, ENCLAVE_USER_PAGE, ?bs) \<in> set xs"
    using sub c(1) unfolding segment_image_def by auto
  note rd = loaded_read_at [OF assms(1-3) this assms(5)]
  have "?bs ! (k mod 4096) = user (infile + of_nat (4096 * ?j + k mod 4096))"
    using c(2) by (simp del: of_nat_add of_nat_mult)
  then have "?bs ! (k mod 4096) = user (infile + of_nat k)" by (simp only: mult_div_mod_eq)
  moreover have "k mod 4096 < length ?bs" using c(2) by simp
  ultimately show ?thesis using rd by (simp only: if_True)
qed

lemma zero_read:
  assumes "loaded K xs (em, m) (em', m')" and "page_ok start" and "unat start + len + 4096 \<le> 2 ^ 64"
    and sub: "set (zero_image fl start len) \<subseteq> set xs" and "k < len"
  shows "read_virtual K m' (enclave_root_pt em) (start + of_nat k) = Some 0"
proof -
  let ?j = "k div 4096"
  have "(region_page start ?j, fl, replicate (min 4096 (len - 4096 * ?j)) 0) \<in> set xs"
    using sub chunk_mod(1) [OF assms(5)] unfolding zero_image_def by auto
  then show ?thesis using loaded_read_at [OF assms(1-3) _ assms(5)] by simp
qed

subsection \<open>Loading a whole file\<close>

definition image_ok :: "page_image \<Rightarrow> bool" where
  "image_ok xs \<longleftrightarrow> distinct (map (\<lambda>(a, _). vpn a) xs)"

lemma image_ok_append:
  "image_ok (xs @ ys) \<longleftrightarrow> image_ok xs \<and> image_ok ys \<and> image_vpns xs \<inter> image_vpns ys = {}"
  by (simp add: image_ok_def image_vpns_def)

fun shdrs_at :: "user_mem \<Rightarrow> u64 \<Rightarrow> elf_shdr list \<Rightarrow> bool" where
  "shdrs_at cfu ptr [] \<longleftrightarrow> True"
| "shdrs_at cfu ptr (h # hs) \<longleftrightarrow> fst (cfu ptr 64) = 0 \<and> elf_shdr_of (snd (cfu ptr 64)) = h \<and> shdrs_at cfu (ptr + 64) hs"

fun phdrs_at :: "user_mem \<Rightarrow> u64 \<Rightarrow> elf_phdr list \<Rightarrow> bool" where
  "phdrs_at cfu ptr [] \<longleftrightarrow> True"
| "phdrs_at cfu ptr (h # hs) \<longleftrightarrow> fst (cfu ptr 56) = 0 \<and> elf_phdr_of (snd (cfu ptr 56)) = h \<and> phdrs_at cfu (ptr + 56) hs"

definition nobits :: "elf_shdr \<Rightarrow> bool" where
  "nobits h \<longleftrightarrow> sh_addr h \<noteq> 0 \<and> sh_type h = SHT_NOBITS"

definition shdr_ok :: "elf_shdr \<Rightarrow> bool" where
  "shdr_ok h \<longleftrightarrow> (nobits h \<longrightarrow> unat (sh_size h) < 2 ^ 31 \<and> unat (sh_addr h) + unat (sh_size h) + 4096 \<le> 2 ^ 64)"

definition phdr_ok :: "user_mem \<Rightarrow> (u64 \<Rightarrow> u8) \<Rightarrow> u64 \<Rightarrow> elf_phdr \<Rightarrow> bool" where
  "phdr_ok cfu user elf_ptr h \<longleftrightarrow> unat (p_filesz h) < 2 ^ 31 \<and> unat (p_vaddr h) + unat (p_filesz h) + 4096 \<le> 2 ^ 64 \<and>
     user_readable cfu user (elf_ptr + p_offset h) (unat (p_filesz h))"

definition section_pages :: "elf_shdr \<Rightarrow> page_image" where
  "section_pages h = (if nobits h then zero_image ENCLAVE_USER_PAGE (sh_addr h) (unat (sh_size h)) else [])"

definition segment_pages :: "(u64 \<Rightarrow> u8) \<Rightarrow> u64 \<Rightarrow> elf_phdr \<Rightarrow> page_image" where
  "segment_pages user elf_ptr h = segment_image user (elf_ptr + p_offset h) (p_vaddr h) (unat (p_filesz h))"

definition stack_pages :: "u64 \<Rightarrow> nat \<Rightarrow> page_image" where
  "stack_pages start len = image_of ENCLAVE_STACK_PAGE (\<lambda>_. []) (pages_of start len)"

lemma int32_small: "unat (x :: u64) < 2 ^ 31 \<Longrightarrow> int32 (uint x) = int (unat x)"
proof -
  assume x: "unat x < 2 ^ 31"
  have "unat (word_of_int (uint x) :: u32) = unat x"
    using x by (simp add: unsigned_ucast_eq take_bit_nat_eq_self)
  then have u: "uint (word_of_int (uint x) :: u32) = int (unat x)" by (metis of_nat_unat)
  define n where "n = unat x"
  have "signed_take_bit 31 (int n) = int n" using x by (intro signed_take_bit_int_eq_self) (simp_all add: n_def [symmetric])
  then show ?thesis unfolding int32_def sint_uint u by (simp add: n_def)
qed

lemma load_sections_loaded:
  assumes "pt_ok K m (enclave_root_pt em) (free_mem em)" and "shdrs_at cfu ptr hs" and "list_all shdr_ok hs"
    and "image_ok (concat (map section_pages hs))"
    and "3 * length (concat (map section_pages hs)) \<le> length (free_mem em)"
  shows "\<exists>em' m'. load_sections K cfu (length hs) ptr (em, m) = Inr (0, em', m') \<and>
    loaded K (concat (map section_pages hs)) (em, m) (em', m')"
  using assms
proof (induction hs arbitrary: ptr em m)
  case Nil
  then show ?case by (simp add: loaded_nil)
next
  case (Cons h hs)
  let ?rest = "concat (map section_pages hs)"
  obtain bs where c: "cfu ptr 64 = (0, bs)" "elf_shdr_of bs = h" using Cons.prems(2) by (cases "cfu ptr 64") auto
  show ?case
  proof (cases "nobits h")
    case False
    then have "load_sections K cfu (length (h # hs)) ptr (em, m) = load_sections K cfu (length hs) (ptr + 64) (em, m)"
      using c by (auto simp: nobits_def)
    then show ?thesis using Cons.IH [of m em "ptr + 64"] Cons.prems False by (simp add: section_pages_def)
  next
    case True
    let ?n = "unat (sh_size h)"
    have h: "?n < 2 ^ 31" "unat (sh_addr h) + ?n + 4096 \<le> 2 ^ 64" using Cons.prems(3) True by (simp_all add: shdr_ok_def)
    have pg: "section_pages h = zero_image ENCLAVE_USER_PAGE (sh_addr h) ?n" using True by (simp add: section_pages_def)
    obtain em1 m1 where 1: "penglai_enclave_load_NOBITS_section K (sh_addr h) (int ?n) (em, m) = Inr (0, em1, m1)"
        "loaded K (section_pages h) (em, m) (em1, m1)"
      using load_NOBITS_loaded [OF Cons.prems(1) _ h(2,1)] Cons.prems(5) pg by auto
    have "3 * length ?rest \<le> length (free_mem em1)"
      using loaded_pt_ok(2) [OF 1(2), of "length ?rest"] Cons.prems(5) by simp
    then obtain em2 m2 where 2: "load_sections K cfu (length hs) (ptr + 64) (em1, m1) = Inr (0, em2, m2)"
        "loaded K ?rest (em1, m1) (em2, m2)"
      using Cons.IH [of m1 em1 "ptr + 64"] Cons.prems loaded_pt_ok(1) [OF 1(2)] by (auto simp: image_ok_append)
    have "loaded K (section_pages h @ ?rest) (em, m) (em2, m2)"
      using loaded_append [OF 1(2) 2(2)] Cons.prems(4) by (simp add: image_ok_append)
    then show ?thesis using c 1(1) 2(1) True int32_small [OF h(1)] by (auto simp: nobits_def)
  qed
qed

lemma load_segments_loaded:
  assumes "pt_ok K m (enclave_root_pt em) (free_mem em)" and "phdrs_at cfu ptr hs"
    and "list_all (phdr_ok cfu user elf_ptr) hs" and "image_ok (concat (map (segment_pages user elf_ptr) hs))"
    and "3 * length (concat (map (segment_pages user elf_ptr) hs)) \<le> length (free_mem em)"
  shows "\<exists>em' m'. load_segments K cfu elf_ptr (length hs) ptr (em, m) = Inr (0, em', m') \<and>
    loaded K (concat (map (segment_pages user elf_ptr) hs)) (em, m) (em', m')"
  using assms
proof (induction hs arbitrary: ptr em m)
  case Nil
  then show ?case by (simp add: loaded_nil)
next
  case (Cons h hs)
  let ?rest = "concat (map (segment_pages user elf_ptr) hs)" and ?n = "unat (p_filesz h)"
  obtain bs where c: "cfu ptr 56 = (0, bs)" "elf_phdr_of bs = h" using Cons.prems(2) by (cases "cfu ptr 56") auto
  have h: "?n < 2 ^ 31" "unat (p_vaddr h) + ?n + 4096 \<le> 2 ^ 64" "user_readable cfu user (elf_ptr + p_offset h) ?n"
    using Cons.prems(3) by (simp_all add: phdr_ok_def)
  obtain em1 m1 where 1: "penglai_enclave_load_program K cfu (elf_ptr + p_offset h) (p_vaddr h) (int ?n) (em, m) = Inr (0, em1, m1)"
      "loaded K (segment_pages user elf_ptr h) (em, m) (em1, m1)"
    using load_program_loaded [OF Cons.prems(1) _ h(2,1,3)] Cons.prems(5) by (auto simp: segment_pages_def)
  have "3 * length ?rest \<le> length (free_mem em1)"
    using loaded_pt_ok(2) [OF 1(2), of "length ?rest"] Cons.prems(5) by simp
  then obtain em2 m2 where 2: "load_segments K cfu elf_ptr (length hs) (ptr + 56) (em1, m1) = Inr (0, em2, m2)"
      "loaded K ?rest (em1, m1) (em2, m2)"
    using Cons.IH [of m1 em1 "ptr + 56"] Cons.prems loaded_pt_ok(1) [OF 1(2)] by (auto simp: image_ok_append)
  have "loaded K (segment_pages user elf_ptr h @ ?rest) (em, m) (em2, m2)"
    using loaded_append [OF 1(2) 2(2)] Cons.prems(4) by (simp add: image_ok_append)
  then show ?case using c 1(1) 2(1) int32_small [OF h(1)] by auto
qed

lemma stack_read:
  assumes "loaded K xs (em, m) (em', m')" and "page_ok start" and "unat start + len + 4096 \<le> 2 ^ 64"
    and sub: "set (stack_pages start len) \<subseteq> set xs" and "k < len"
  shows "read_virtual K m' (enclave_root_pt em) (start + of_nat k) = Some 0"
proof -
  have "(region_page start (k div 4096), ENCLAVE_STACK_PAGE, []) \<in> set xs"
    using sub chunk_mod(1) [OF assms(5)] unfolding stack_pages_def image_of_def pages_of_def by auto
  then show ?thesis using loaded_read_at [OF assms(1-3) _ assms(5)] by simp
qed

lemma stack_loaded:
  assumes "pt_ok K m (enclave_root_pt em) (free_mem em)" and "3 * ((len + 4095) div 4096) \<le> length (free_mem em)"
    and "len \<le> unat stack_ptr" and "unat stack_ptr + 4096 \<le> 2 ^ 64" and "len < 2 ^ 31"
  shows "\<exists>em' m'. for_pages loop_fuel (stack_ptr - word_of_int (int len)) stack_ptr
      (load_page K ENCLAVE_STACK_PAGE (\<lambda>addr. [])) (em, m) = Inr (em', m') \<and>
    loaded K (stack_pages (stack_ptr - of_nat len) len) (em, m) (em', m')"
proof -
  let ?start = "stack_ptr - of_nat len"
  have "unat (of_nat len :: u64) = len" using assms(5) by (simp add: unat_of_nat64)
  then have "unat ?start = unat stack_ptr - len" using assms(3) by (simp add: unat_sub word_le_nat_alt)
  then have lim: "unat ?start + len + 4096 \<le> 2 ^ 64" using assms(3,4) by simp
  show ?thesis
    using load_region [OF assms(1,2) leaf_flags_pages(2) lim assms(5), of "\<lambda>addr. []"] by (simp add: stack_pages_def)
qed

definition elf_image :: "(u64 \<Rightarrow> u8) \<Rightarrow> u64 \<Rightarrow> u64 \<Rightarrow> nat \<Rightarrow> elf_shdr list \<Rightarrow> elf_phdr list \<Rightarrow> page_image" where
  "elf_image user elf_ptr stack_ptr stack_len shs phs =
     stack_pages (stack_ptr - of_nat stack_len) stack_len @
     concat (map section_pages shs) @ concat (map (segment_pages user elf_ptr) phs)"

definition elf_file_ok :: "user_mem \<Rightarrow> (u64 \<Rightarrow> u8) \<Rightarrow> u64 \<Rightarrow> elfhdr \<Rightarrow> elf_shdr list \<Rightarrow> elf_phdr list \<Rightarrow> bool" where
  "elf_file_ok cfu user elf_ptr hdr shs phs \<longleftrightarrow>
     fst (cfu elf_ptr 64) = 0 \<and> elfhdr_of (snd (cfu elf_ptr 64)) = hdr \<and>
     e_shnum hdr = length shs \<and> shdrs_at cfu (elf_ptr + e_shoff hdr) shs \<and> list_all shdr_ok shs \<and>
     e_phnum hdr = length phs \<and> phdrs_at cfu (elf_ptr + e_phoff hdr) phs \<and> list_all (phdr_ok cfu user elf_ptr) phs"

lemma eapp_preprare_loaded:
  assumes ok: "pt_ok K m (enclave_root_pt em) (free_mem em)" and elf: "elf_file_ok cfu user elf_ptr hdr shs phs"
    and stack: "len \<le> unat stack_ptr" "unat stack_ptr + 4096 \<le> 2 ^ 64" "len < 2 ^ 31"
    and img: "image_ok (elf_image user elf_ptr stack_ptr len shs phs)"
    and free: "3 * length (elf_image user elf_ptr stack_ptr len shs phs) \<le> length (free_mem em)"
  shows "\<exists>em' m'. penglai_enclave_eapp_preprare K cfu elf_ptr entry stack_ptr (int len) (em, m) = Inr (0, e_entry hdr, em', m') \<and>
    loaded K (elf_image user elf_ptr stack_ptr len shs phs) (em, m) (em', m')"
proof -
  let ?st = "stack_pages (stack_ptr - of_nat len) len" and ?sec = "concat (map section_pages shs)"
    and ?seg = "concat (map (segment_pages user elf_ptr) phs)"
  have disj: "image_ok ?sec" "image_ok ?seg" "image_vpns ?sec \<inter> image_vpns ?seg = {}" "image_vpns ?st \<inter> image_vpns (?sec @ ?seg) = {}"
    using img by (auto simp: elf_image_def image_ok_append)
  have n: "3 * (length ?st + (length ?sec + length ?seg)) \<le> length (free_mem em)"
    using free unfolding elf_image_def length_append .
  have "length ?st = (len + 4095) div 4096" by (simp add: stack_pages_def image_of_def pages_of_def)
  then obtain em1 m1 where 1: "for_pages loop_fuel (stack_ptr - word_of_int (int len)) stack_ptr
      (load_page K ENCLAVE_STACK_PAGE (\<lambda>addr. [])) (em, m) = Inr (em1, m1)" "loaded K ?st (em, m) (em1, m1)"
    using stack_loaded [OF ok _ stack] n by auto
  have n1: "3 * (length ?sec + length ?seg) \<le> length (free_mem em1)" using loaded_pt_ok(2) [OF 1(2)] n by blast
  then obtain em2 m2 where 2: "load_sections K cfu (length shs) (elf_ptr + e_shoff hdr) (em1, m1) = Inr (0, em2, m2)"
      "loaded K ?sec (em1, m1) (em2, m2)"
    using load_sections_loaded [OF loaded_pt_ok(1) [OF 1(2)]] elf disj(1) unfolding elf_file_ok_def by fastforce
  have "3 * length ?seg \<le> length (free_mem em2)" using loaded_pt_ok(2) [OF 2(2)] n1 by blast
  then obtain em3 m3 where 3: "load_segments K cfu elf_ptr (length phs) (elf_ptr + e_phoff hdr) (em2, m2) = Inr (0, em3, m3)"
      "loaded K ?seg (em2, m2) (em3, m3)"
    using load_segments_loaded [OF loaded_pt_ok(1) [OF 2(2)]] elf disj(2) unfolding elf_file_ok_def by fastforce
  have "loaded K (elf_image user elf_ptr stack_ptr len shs phs) (em, m) (em3, m3)"
    unfolding elf_image_def using loaded_append [OF 1(2) loaded_append [OF 2(2) 3(2) disj(3)] disj(4)] .
  moreover have "penglai_enclave_loadelf K cfu elf_ptr entry (em1, m1) = Inr (0, e_entry hdr, em3, m3)"
    using elf 2(1) 3(1) by (cases "cfu elf_ptr 64") (auto simp: elf_file_ok_def penglai_enclave_loadelf_def)
  ultimately show ?thesis using 1(1) by (simp add: penglai_enclave_eapp_preprare_def)
qed

subsection \<open>Shared memory\<close>

text \<open>\<open>shared\<close>: the addresses of a list are mapped to consecutive physical pages.\<close>

definition shared :: "u64 \<Rightarrow> u64 \<Rightarrow> u64 \<Rightarrow> u64 list \<Rightarrow> loader \<Rightarrow> loader \<Rightarrow> bool" where
  "shared K fl paddr as = (\<lambda>(em, m) (em', m').
     enclave_root_pt em' = enclave_root_pt em \<and> em_size em' = em_size em \<and> em_vaddr em' = em_vaddr em \<and>
     em_paddr em' = em_paddr em \<and>
     pt_ok K m' (enclave_root_pt em) (free_mem em') \<and>
     length (free_mem em) \<le> length (free_mem em') + 2 * length as \<and>
     (\<forall>i < length as. mapped_to K m' (enclave_root_pt em) (as ! i) fl (region_page paddr i)) \<and>
     (\<forall>w. vpn w \<notin> vpn ` set as \<longrightarrow> sv39 K m' (enclave_root_pt em) w = sv39 K m (enclave_root_pt em) w) \<and>
     (\<forall>P. outside K m (enclave_root_pt em) (free_mem em) P \<longrightarrow>
        outside K m' (enclave_root_pt em) (free_mem em') P \<and> same_page m m' P))"

lemma map_page_shared:
  assumes ok: "pt_ok K m (enclave_root_pt em) (free_mem em)" and n: "2 \<le> length (free_mem em)"
    and fl: "leaf_flags fl" and pa: "page_ok paddr"
  shows "\<exists>em' m'. map_page K fl a (paddr, em, m) = Inr (paddr + RISCV_PGSIZE, em', m') \<and>
    shared K fl paddr [a] (em, m) (em', m')"
proof -
  have fl': "small_flags fl" "fl AND (PTE_R OR PTE_W OR PTE_X) \<noteq> 0" using fl by (auto simp: leaf_flags_def)
  obtain v em' m' where mp: "map_va2pa K em m a paddr fl = Inr (v, em', m')"
    using map_va2pa_succeeds [OF ok n] by blast
  note mm = map_va2pa_maps [OF ok fl' mp]
  have "mapped_to K m' (enclave_root_pt em) a fl paddr"
    unfolding mapped_to_def mm(5) using entry_pa [OF fl'(1) pa] entry_flags [OF fl'(1)] by (simp add: pa2ppn_def)
  then have "shared K fl paddr [a] (em, m) (em', m')"
    using mm unfolding shared_def by (auto simp: region_page_def)
  then show ?thesis using mp by (auto simp: map_page_def)
qed

lemma shared_step:
  assumes 1: "shared K fl paddr [a] (em, m) (em1, m1)" and 2: "shared K fl (paddr + RISCV_PGSIZE) as (em1, m1) (em2, m2)"
    and new: "vpn a \<notin> vpn ` set as"
  shows "shared K fl paddr (a # as) (em, m) (em2, m2)"
proof -
  let ?r = "enclave_root_pt em"
  have r: "enclave_root_pt em1 = ?r" using 1 by (simp add: shared_def)
  have "sv39 K m2 ?r a = sv39 K m1 ?r a" using 2 new r unfolding shared_def by auto
  then have "mapped_to K m2 ?r a fl (region_page paddr 0)" using 1 by (simp add: shared_def mapped_to_def)
  moreover have "region_page (paddr + RISCV_PGSIZE) i = region_page paddr (Suc i)" for i
    by (simp add: region_page_def RISCV_PGSIZE_def)
  ultimately have "mapped_to K m2 ?r ((a # as) ! i) fl (region_page paddr i)" if "i < length (a # as)" for i
    using that 2 r unfolding shared_def by (cases i) auto
  moreover have "sv39 K m2 ?r w = sv39 K m ?r w" if "vpn w \<notin> vpn ` set (a # as)" for w
    using 1 2 that r unfolding shared_def by simp
  moreover have "outside K m2 ?r (free_mem em2) P \<and> same_page m m2 P" if "outside K m ?r (free_mem em) P" for P
    using 1 2 that r same_page_trans [of m m1 P m2] unfolding shared_def by simp
  ultimately show ?thesis using 1 2 r unfolding shared_def by auto
qed

lemma page_ok_next: "page_ok p \<Longrightarrow> page_ok (p + RISCV_PGSIZE)"
  by (rule page_ok_plus) (simp_all add: page_ok_def RISCV_PGSIZE_def)

lemma map_pages:
  assumes "pt_ok K m (enclave_root_pt em) (free_mem em)" and "2 * length as \<le> length (free_mem em)"
    and "leaf_flags fl" and "distinct (map vpn as)" and "page_ok paddr"
  shows "\<exists>p em' m'. run_pages (map_page K fl) as (paddr, em, m) = Inr (p, em', m') \<and>
    shared K fl paddr as (em, m) (em', m')"
  using assms
proof (induction as arbitrary: em m paddr)
  case Nil
  then show ?case by (simp add: shared_def same_page_def)
next
  case (Cons a as)
  obtain em1 m1 where 1: "map_page K fl a (paddr, em, m) = Inr (paddr + RISCV_PGSIZE, em1, m1)"
      "shared K fl paddr [a] (em, m) (em1, m1)"
    using map_page_shared [of K m em fl paddr a] Cons.prems by auto
  then have "pt_ok K m1 (enclave_root_pt em1) (free_mem em1)" "2 * length as \<le> length (free_mem em1)"
    using Cons.prems(2) by (auto simp: shared_def)
  then obtain p em2 m2 where 2: "run_pages (map_page K fl) as (paddr + RISCV_PGSIZE, em1, m1) = Inr (p, em2, m2)"
      "shared K fl (paddr + RISCV_PGSIZE) as (em1, m1) (em2, m2)"
    using Cons.IH [of m1 em1 "paddr + RISCV_PGSIZE"] Cons.prems page_ok_next by auto
  have "vpn a \<notin> vpn ` set as" using Cons.prems(4) by simp
  then show ?case using 1(1) 2(1) shared_step [OF 1(2) 2(2)] by simp
qed

lemma map_region:
  assumes "pt_ok K m (enclave_root_pt em) (free_mem em)" and "2 * ((len + 4095) div 4096) \<le> length (free_mem em)"
    and "leaf_flags fl" and "unat vaddr + len + 4096 \<le> 2 ^ 64" and "len < 2 ^ 31" and "page_ok paddr"
  shows "\<exists>p em' m'. for_pages loop_fuel vaddr (vaddr + of_nat len) (map_page K fl) (paddr, em, m) = Inr (p, em', m') \<and>
    shared K fl paddr (pages_of vaddr len) (em, m) (em', m')"
proof -
  note facts = pages_of_facts [OF assms(4,5)]
  show ?thesis
    unfolding for_pages_run [OF assms(4) facts(3)]
    using map_pages [OF assms(1) _ assms(3) facts(1) assms(6)] assms(2) facts(2) by simp
qed

subsection \<open>Properties\<close>

text \<open>
  C2: Preparing an enclave application. For a well-formed file in readable user memory, whose
  pages are all different and for which the free list has three pages per page to be loaded,
  \<open>penglai_enclave_eapp_preprare\<close> returns 0 with the entry point, and afterwards the enclave
  reads, through its page table, every byte of every page-aligned segment as it is in the file,
  zeros in every page-aligned section without bits, and zeros on the stack; no other page was
  mapped, and memory outside the free list is unchanged.
\<close>

theorem eapp_preprare_correct:
  assumes ok: "pt_ok K m (enclave_root_pt em) (free_mem em)" and elf: "elf_file_ok cfu user elf_ptr hdr shs phs"
    and stack: "len \<le> unat stack_ptr" "unat stack_ptr + 4096 \<le> 2 ^ 64" "len < 2 ^ 31" "page_ok (stack_ptr - of_nat len)"
    and img: "image_ok (elf_image user elf_ptr stack_ptr len shs phs)"
    and free: "3 * length (elf_image user elf_ptr stack_ptr len shs phs) \<le> length (free_mem em)"
  shows "\<exists>em' m'. penglai_enclave_eapp_preprare K cfu elf_ptr entry stack_ptr (int len) (em, m) = Inr (0, e_entry hdr, em', m') \<and>
    pt_ok K m' (enclave_root_pt em') (free_mem em') \<and>
    (\<forall>h \<in> set phs. page_ok (p_vaddr h) \<longrightarrow> (\<forall>k < unat (p_filesz h).
       read_virtual K m' (enclave_root_pt em) (p_vaddr h + of_nat k) = Some (user (elf_ptr + p_offset h + of_nat k)))) \<and>
    (\<forall>h \<in> set shs. nobits h \<longrightarrow> page_ok (sh_addr h) \<longrightarrow> (\<forall>k < unat (sh_size h).
       read_virtual K m' (enclave_root_pt em) (sh_addr h + of_nat k) = Some 0)) \<and>
    (\<forall>k < len. read_virtual K m' (enclave_root_pt em) (stack_ptr - of_nat len + of_nat k) = Some 0) \<and>
    (\<forall>w. vpn w \<notin> image_vpns (elf_image user elf_ptr stack_ptr len shs phs) \<longrightarrow>
       sv39 K m' (enclave_root_pt em) w = sv39 K m (enclave_root_pt em) w) \<and>
    (\<forall>P. outside K m (enclave_root_pt em) (free_mem em) P \<longrightarrow> same_page m m' P)"
proof -
  let ?img = "elf_image user elf_ptr stack_ptr len shs phs" and ?r = "enclave_root_pt em"
  obtain em' m' where run: "penglai_enclave_eapp_preprare K cfu elf_ptr entry stack_ptr (int len) (em, m) = Inr (0, e_entry hdr, em', m')"
      and ld: "loaded K ?img (em, m) (em', m')"
    using eapp_preprare_loaded [OF ok elf stack(1-3) img free] by blast
  have seg: "read_virtual K m' ?r (p_vaddr h + of_nat k) = Some (user (elf_ptr + p_offset h + of_nat k))"
    if h: "h \<in> set phs" "page_ok (p_vaddr h)" "k < unat (p_filesz h)" for h k
  proof -
    have "unat (p_vaddr h) + unat (p_filesz h) + 4096 \<le> 2 ^ 64"
      using elf h(1) by (auto simp: elf_file_ok_def list_all_iff phdr_ok_def)
    moreover have "set (segment_image user (elf_ptr + p_offset h) (p_vaddr h) (unat (p_filesz h))) \<subseteq> set ?img"
      using h(1) by (auto simp: elf_image_def segment_pages_def)
    ultimately show ?thesis using segment_read [OF ld] h(2,3) by simp
  qed
  have sec: "read_virtual K m' ?r (sh_addr h + of_nat k) = Some 0"
    if h: "h \<in> set shs" "nobits h" "page_ok (sh_addr h)" "k < unat (sh_size h)" for h k
  proof -
    have "unat (sh_addr h) + unat (sh_size h) + 4096 \<le> 2 ^ 64"
      using elf h(1,2) by (auto simp: elf_file_ok_def list_all_iff shdr_ok_def)
    moreover have "set (zero_image ENCLAVE_USER_PAGE (sh_addr h) (unat (sh_size h))) \<subseteq> set ?img"
      using h(1,2) by (auto simp: elf_image_def section_pages_def)
    ultimately show ?thesis using zero_read [OF ld] h(3,4) by simp
  qed
  have "read_virtual K m' ?r (stack_ptr - of_nat len + of_nat k) = Some 0" if "k < len" for k
  proof -
    have "unat (of_nat len :: u64) = len" using stack(3) by (simp add: unat_of_nat64)
    then have "unat (stack_ptr - of_nat len) = unat stack_ptr - len" using stack(1) by (simp add: unat_sub word_le_nat_alt)
    then have "unat (stack_ptr - of_nat len) + len + 4096 \<le> 2 ^ 64" using stack(1,2) by simp
    moreover have "set (stack_pages (stack_ptr - of_nat len) len) \<subseteq> set ?img" by (auto simp: elf_image_def)
    ultimately show ?thesis using stack_read [OF ld] that stack(4) by simp
  qed
  then show ?thesis using run seg sec ld unfolding loaded_def by auto
qed

text \<open>A file with one segment of three bytes at 0x10000, in user memory at 0x400000.\<close>

definition example_file :: bytes where
  "example_file =
     replicate 24 0 @ [0, 0, 1, 0, 0, 0, 0, 0] @ [64, 0, 0, 0, 0, 0, 0, 0] @ replicate 16 0 @ [1, 0, 0, 0, 0, 0, 0, 0] @
     replicate 8 0 @ [120, 0, 0, 0, 0, 0, 0, 0] @ [0, 0, 1, 0, 0, 0, 0, 0] @ replicate 8 0 @ [3, 0, 0, 0, 0, 0, 0, 0] @
     replicate 16 0 @ [1, 2, 3]"

definition example_user :: "u64 \<Rightarrow> u8" where
  "example_user a = (if unat (a - 0x400000) < 123 then example_file ! unat (a - 0x400000) else 0)"

definition example_cfu :: user_mem where
  "example_cfu a n = (0, map (\<lambda>i. example_user (a + of_nat i)) [0..<n])"

definition example_hdr :: elfhdr where
  "example_hdr = \<lparr>e_entry = 0x10000, e_phoff = 64, e_shoff = 0, e_phnum = 1, e_shnum = 0\<rparr>"

definition example_phdr :: elf_phdr where
  "example_phdr = \<lparr>p_offset = 120, p_vaddr = 0x10000, p_filesz = 3\<rparr>"

lemma example_readable: "user_readable example_cfu example_user a len"
  by (simp add: user_readable_def example_cfu_def add.assoc)

lemma example_bytes:
  assumes "off + n \<le> 123"
  shows "snd (example_cfu (0x400000 + of_nat off) n) = slice off n example_file"
proof (rule nth_equalityI)
  have l: "length example_file = 123" by (simp add: example_file_def)
  then show "length (snd (example_cfu (0x400000 + of_nat off) n)) = length (slice off n example_file)"
    using assms by (simp add: example_cfu_def slice_def)
  fix i assume i: "i < length (snd (example_cfu (0x400000 + of_nat off) n))"
  then have "0x400000 + of_nat off + of_nat i - 0x400000 = (of_nat (off + i) :: u64)" "off + i < 123"
    using assms by (simp_all add: example_cfu_def)
  moreover from this(2) have "unat (of_nat (off + i) :: u64) = off + i" by (intro unat_of_nat64) simp
  ultimately show "snd (example_cfu (0x400000 + of_nat off) n) ! i = slice off n example_file ! i"
    using i l assms by (simp add: example_cfu_def example_user_def slice_def)
qed

lemma zeros:
  "replicate 8 (0 :: u8) = [0, 0, 0, 0, 0, 0, 0, 0]" "replicate 16 (0 :: u8) = replicate 8 0 @ replicate 8 0"
  "replicate 24 (0 :: u8) = replicate 8 0 @ replicate 8 0 @ replicate 8 0"
  by (simp_all add: eval_nat_numeral)

lemma example_parses:
  "elfhdr_of (snd (example_cfu 0x400000 64)) = example_hdr" "elf_phdr_of (snd (example_cfu 0x400040 56)) = example_phdr"
  using example_bytes [of 0 64] example_bytes [of 64 56]
  by (simp_all add: slice_def elfhdr_of_def elf_phdr_of_def le_nat_def example_file_def zeros example_hdr_def example_phdr_def)

lemma example_elf_ok: "elf_file_ok example_cfu example_user 0x400000 example_hdr [] [example_phdr]"
  using example_parses example_readable
  by (simp add: elf_file_ok_def phdr_ok_def) (simp add: example_hdr_def example_phdr_def example_cfu_def)

lemma example_data: "example_user 0x400078 = 1" "example_user 0x400079 = 2" "example_user 0x40007A = 3"
  by (simp_all add: example_user_def example_file_def zeros)

lemma example_image: "elf_image example_user 0x400000 0x20000 4096 [] [example_phdr] =
    [(0x1f000, ENCLAVE_STACK_PAGE, []), (0x10000, ENCLAVE_USER_PAGE, [1, 2, 3])]"
proof -
  have "[0..<3] = [0, 1, 2 :: nat]" by (simp add: upt_rec)
  then show ?thesis using example_data
    by (simp add: elf_image_def stack_pages_def image_of_def pages_of_def segment_pages_def segment_image_def
        example_phdr_def region_page_def)
qed

definition example_mem :: enclave_mem_t where
  "example_mem = example_em\<lparr>enclave_root_pt := 0x1000, free_mem := map (region_page 0x1000) [2..<8]\<rparr>"

theorem eapp_preprare_correct_witness:
  "\<exists>em' m'. penglai_enclave_eapp_preprare 0 example_cfu 0x400000 0 0x20000 4096 (example_mem, \<lambda>_. 0) = Inr (0, 0x10000, em', m') \<and>
     read_virtual 0 m' 0x1000 0x10002 = Some 3"
proof -
  have "pt_ok 0 (\<lambda>_. 0) (enclave_root_pt example_mem) (free_mem example_mem)"
    using example_em_ok by (simp add: example_mem_def)
  moreover have "page_ok (0x20000 - of_nat 4096)" "page_ok 0x10000" by (simp_all add: page_ok_def)
  moreover have "image_ok (elf_image example_user 0x400000 0x20000 4096 [] [example_phdr])"
    unfolding example_image image_ok_def by (simp add: vpn_eq)
  moreover have "3 * length (elf_image example_user 0x400000 0x20000 4096 [] [example_phdr]) \<le> length (free_mem example_mem)"
    unfolding example_image by (simp add: example_mem_def)
  ultimately obtain em' m' where e: "penglai_enclave_eapp_preprare 0 example_cfu 0x400000 0 0x20000 (int 4096) (example_mem, \<lambda>_. 0) =
      Inr (0, e_entry example_hdr, em', m')"
      and r: "\<forall>k < 3. read_virtual 0 m' 0x1000 (0x10000 + of_nat k) = Some (example_user (0x400000 + 120 + of_nat k))"
    using eapp_preprare_correct [OF _ example_elf_ok, of 0 "\<lambda>_. 0" example_mem 4096 "0x20000" 0]
    by (auto simp: example_phdr_def example_mem_def)
  show ?thesis using e example_data r [rule_format, of 2] by (simp add: example_hdr_def)
qed

text \<open>
  C25: Mapping memory shared with the enclave: \<open>map_untrusted_mem\<close> and \<open>map_kbuffer\<close> map the
  pages of the given range, readable and writable but not executable, to consecutive physical
  pages, and change no other translation.
\<close>

theorem map_shared_correct:
  assumes "pt_ok K m (enclave_root_pt em) (free_mem em)" and "2 * ((unat sz + 4095) div 4096) \<le> length (free_mem em)"
    and "unat vaddr + unat sz + 4096 \<le> 2 ^ 64" and "unat sz < 2 ^ 31" and "page_ok paddr"
  shows "\<exists>em' m'. map_untrusted_mem K vaddr paddr sz (em, m) = Inr (0, em', m') \<and>
    map_kbuffer K vaddr paddr sz (em, m) = Inr (0, em', m') \<and>
    pt_ok K m' (enclave_root_pt em') (free_mem em') \<and>
    (\<forall>i < (unat sz + 4095) div 4096. mapped_to K m' (enclave_root_pt em) (region_page vaddr i)
       (PTE_D OR PTE_A OR PTE_R OR PTE_W OR PTE_U) (region_page paddr i)) \<and>
    (\<forall>w. vpn w \<notin> vpn ` set (pages_of vaddr (unat sz)) \<longrightarrow>
       sv39 K m' (enclave_root_pt em) w = sv39 K m (enclave_root_pt em) w) \<and>
    (\<forall>P. outside K m (enclave_root_pt em) (free_mem em) P \<longrightarrow> same_page m m' P)"
proof -
  obtain p em' m' where run: "for_pages loop_fuel vaddr (vaddr + sz) (map_page K ENCLAVE_UNTRUSTED_PAGE) (paddr, em, m) = Inr (p, em', m')"
      and sh: "shared K ENCLAVE_UNTRUSTED_PAGE paddr (pages_of vaddr (unat sz)) (em, m) (em', m')"
    using map_region [OF assms(1,2) leaf_flags_pages(3) assms(3-5)] by auto
  have fl: "ENCLAVE_KBUFFER_PAGE = ENCLAVE_UNTRUSTED_PAGE" by (simp add: page_flags)
  have "mapped_to K m' (enclave_root_pt em) (region_page vaddr i) ENCLAVE_UNTRUSTED_PAGE (region_page paddr i)"
    if "i < (unat sz + 4095) div 4096" for i
    using sh that by (simp add: shared_def pages_of_def)
  then show ?thesis
    using run sh unfolding shared_def by (simp add: map_untrusted_mem_def map_kbuffer_def fl ENCLAVE_UNTRUSTED_PAGE_def)
qed

theorem map_shared_correct_witness:
  "\<exists>em' m'. map_kbuffer 0 0xffffffe000000000 0x80000000 0x1000 (example_mem, \<lambda>_. 0) = Inr (0, em', m') \<and>
     mapped_to 0 m' 0x1000 0xffffffe000000000 ENCLAVE_KBUFFER_PAGE 0x80000000"
proof -
  have "pt_ok 0 (\<lambda>_. 0) (enclave_root_pt example_mem) (free_mem example_mem)"
    using example_em_ok by (simp add: example_mem_def)
  then obtain em' m' where "map_kbuffer 0 0xffffffe000000000 0x80000000 0x1000 (example_mem, \<lambda>_. 0) = Inr (0, em', m')"
      "\<forall>i < 1. mapped_to 0 m' 0x1000 (region_page 0xffffffe000000000 i) ENCLAVE_KBUFFER_PAGE (region_page 0x80000000 i)"
    using map_shared_correct [of 0 "\<lambda>_. 0" example_mem "0x1000" "0xffffffe000000000" "0x80000000"]
    by (auto simp: example_mem_def page_ok_def ENCLAVE_KBUFFER_PAGE_def)
  then show ?thesis by (simp add: region_page_def)
qed

text \<open>
  A segment whose address is not page-aligned is misplaced. For \<open>p_vaddr = page + off\<close> and
  a segment of at most a page, the bytes are copied to the start of the page: address
  \<open>page + k\<close> reads byte \<open>k\<close> of the segment, which belongs at \<open>page + off + k\<close>, and
  the part of the segment that lies in the next page is not mapped.
\<close>

lemma load_program_unaligned:
  assumes ok: "pt_ok K m (enclave_root_pt em) (free_mem em)" and n: "3 \<le> length (free_mem em)"
    and pg: "page_ok page" "unat page + 8192 \<le> 2 ^ 38" and off: "0 < off" "off < 4096"
    and len: "0 < len" "len \<le> 4096" and user: "user_readable cfu user infile len"
  shows "\<exists>em' m'. penglai_enclave_load_program K cfu infile (page + of_nat off) (int len) (em, m) = Inr (0, em', m') \<and>
    (\<forall>k < len. read_virtual K m' (enclave_root_pt em) (page + of_nat k) = Some (user (infile + of_nat k))) \<and>
    (\<forall>k. 4096 \<le> off + k \<longrightarrow> k < len \<longrightarrow>
       sv39 K m' (enclave_root_pt em) (page + of_nat off + of_nat k) = sv39 K m (enclave_root_pt em) (page + of_nat off + of_nat k))"
proof -
  let ?start = "page + of_nat off" and ?r = "enclave_root_pt em"
  have u: "unat (page + of_nat j) = unat page + j" if "j < 8192" for j
    using pg(2) that by (simp add: unat_word_ariths(1) unat_of_nat64)
  have one: "(len + 4095) div 4096 = 1" using len by (simp add: div_if)
  have lim: "unat ?start + len + 4096 \<le> 2 ^ 64" using u [of off] pg(2) off len by simp
  obtain em' m' where run: "penglai_enclave_load_program K cfu infile ?start (int len) (em, m) = Inr (0, em', m')"
      and ld: "loaded K (segment_image user infile ?start len) (em, m) (em', m')"
    using load_program_loaded [OF ok _ lim _ user] n one len by auto
  define bs where "bs = map (\<lambda>i. user (infile + of_nat i)) [0..<len]"
  have img: "segment_image user infile ?start len = [(?start, ENCLAVE_USER_PAGE, bs)]"
    using len by (simp add: segment_image_def one region_page_def bs_def)
  obtain q where q: "unat page = 4096 * q" using pg(1) by (auto simp: page_ok_def)
  have vp: "vpn (page + of_nat j) = vpn page \<longleftrightarrow> j < 4096" if "j < 8192" for j
  proof -
    have "(4096 * q + j) div 4096 = q + j div 4096" "q + 2 \<le> 2 ^ 26" "j div 4096 < 2" using q pg(2) that by simp_all
    then show ?thesis unfolding vpn_eq u [OF that] q by (simp add: div_eq_0_iff)
  qed
  have vs: "vpn ?start = vpn page" using vp [of off] off by simp
  have sv: "sv39 K m' ?r ?start = sv39 K m' ?r page" using vs by (rule sv39_vpn)
  have "loaded K [(page, ENCLAVE_USER_PAGE, bs)] (em, m) (em', m')"
    using ld sv unfolding img loaded_def image_vpns_def mapped_to_def by (simp add: vs)
  then have rd: "read_virtual K m' ?r (page + of_nat (4096 * 0 + k)) = Some (if k < length bs then bs ! k else 0)" if "k < 4096" for k
    using pg that by (intro loaded_read) (auto simp: region_page_def)
  have "read_virtual K m' ?r (page + of_nat k) = Some (user (infile + of_nat k))" if "k < len" for k
    using rd [of k] that len by (simp add: bs_def)
  moreover have "sv39 K m' ?r (?start + of_nat k) = sv39 K m ?r (?start + of_nat k)" if "4096 \<le> off + k" "k < len" for k
  proof -
    have e: "?start + of_nat k = page + of_nat (off + k)" by simp
    have "vpn (page + of_nat (off + k)) \<noteq> vpn ?start"
      using vp [of "off + k"] vs that off len by simp
    then show ?thesis unfolding e using ld unfolding img loaded_def image_vpns_def by (simp del: of_nat_add)
  qed
  ultimately show ?thesis using run by blast
qed

lemma load_program_unaligned_example:
  "\<exists>em' m'. penglai_enclave_load_program 0 example_cfu 0x400078 0x10004 3 (example_mem, \<lambda>_. 0) = Inr (0, em', m') \<and>
     read_virtual 0 m' 0x1000 0x10000 = Some 1"
proof -
  have "pt_ok 0 (\<lambda>_. 0) (enclave_root_pt example_mem) (free_mem example_mem)"
    using example_em_ok by (simp add: example_mem_def)
  then obtain em' m' where "penglai_enclave_load_program 0 example_cfu 0x400078 0x10004 3 (example_mem, \<lambda>_. 0) = Inr (0, em', m')"
      "\<forall>k < 3. read_virtual 0 m' 0x1000 (0x10000 + of_nat k) = Some (example_user (0x400078 + of_nat k))"
    using load_program_unaligned [of 0 "\<lambda>_. 0" example_mem "0x10000" 4 3 example_cfu example_user "0x400078"] example_readable
    by (auto simp: example_mem_def page_ok_def)
  then show ?thesis using example_data by (auto dest: spec [of _ 0])
qed

end
