(* ===== verification/Enclave.thy ===== *)
theory Enclave
  imports Elf_Loader
begin

text \<open>
  Enclave objects of the driver, \<^verbatim>\<open>penglai-enclave.c\<close>, over a model of the kernel the driver
  runs in. The state has the objects that were allocated with \<open>kmalloc\<close>, the memory of
  \<^verbatim>\<open>Kernel_Mem\<close>, the table of enclave identifiers and the spin locks. Freed objects keep
  their contents, as freed memory does until it is reused, but every use of one is recorded in
  the list \<open>faults\<close>, as are uses of the null pointer, freeing twice and taking a spin lock
  that is held. What happens after the first recorded fault is what the machine does when the
  fault goes unnoticed; a theorem that says a call is correct says that nothing was recorded.

  The kernel and the secure monitor are parameters, the fields of \<open>services\<close>: allocation, the
  allocation of identifiers, \<open>sbi_ecall\<close> (which may change all of the kernel's memory) and the
  access to user memory. The loops that wait for the monitor run for \<open>sv_fuel\<close> rounds.
\<close>

subsection \<open>Objects\<close>

record untrusted_mem_t =
  um_addr :: u64
  um_size :: int

record enclave_t =
  eid :: u32
  en_untrusted_mem :: u64
  en_enclave_mem :: u64
  kbuffer :: u64
  kbuffer_size :: u64
  ocall_func_id :: u64
  ocall_arg0 :: u64
  ocall_arg1 :: u64
  ocall_syscall_num :: u64
  is_running :: int

record require_sec_memory_t =
  rs_size :: u64
  rs_paddr :: u64
  rs_resp_size :: u64

record penglai_enclave_sbi_param =
  sp_eid_ptr :: u64
  sp_paddr :: u64
  sp_size :: u64
  sp_entry_point :: u64
  sp_untrusted_ptr :: u64
  sp_untrusted_size :: u64
  sp_free_mem :: u64
  sp_kbuffer :: u64
  sp_kbuffer_paddr :: u64
  sp_kbuffer_size :: u64
  sp_ecall_arg0 :: u64
  sp_ecall_arg1 :: u64
  sp_ecall_arg2 :: u64
  sp_ecall_arg3 :: u64

datatype kobj =
    OEnclave enclave_t
  | OMem enclave_mem_t
  | OUntrusted untrusted_mem_t
  | OReq require_sec_memory_t
  | OSbi penglai_enclave_sbi_param
  | OReport bytes

record 'w kernel =
  objs :: "u64 \<Rightarrow> kobj option"
  live :: "u64 \<Rightarrow> bool"
  phys :: kmem
  idr_enclave :: "u32 \<Rightarrow> u64 option"
  big_lock :: bool
  idr_lock :: bool
  kmalloc_lock :: bool
  printed :: "bytes list"
  faults :: "fault list"
  world :: 'w

record sbiret =
  sbi_error :: int
  sbi_value :: int

record 'w services =
  sv_K :: u64
  sv_fuel :: nat
  sv_kmalloc :: "'w \<Rightarrow> u64 \<times> 'w"
  sv_garbage :: "'w \<Rightarrow> enclave_t \<times> enclave_mem_t \<times> untrusted_mem_t \<times> require_sec_memory_t \<times> penglai_enclave_sbi_param \<times> bytes"
  sv_get_free_pages :: "u64 \<Rightarrow> 'w \<Rightarrow> u64 \<times> 'w"
  sv_free_pages :: "u64 \<Rightarrow> u64 \<Rightarrow> 'w \<Rightarrow> 'w"
  sv_idr_alloc :: "(u32 \<Rightarrow> u64 option) \<Rightarrow> 'w \<Rightarrow> u32"
  sv_sbi :: "nat \<Rightarrow> u64 list \<Rightarrow> 'w kernel \<Rightarrow> sbiret \<times> 'w kernel"
  sv_copy_from_user :: "'w \<Rightarrow> user_mem"
  sv_copy_to_user :: "u64 \<Rightarrow> bytes \<Rightarrow> 'w \<Rightarrow> nat \<times> 'w"
  sv_cycles :: "'w \<Rightarrow> u64"

subsection \<open>The kernel's services\<close>

definition add_fault :: "fault \<Rightarrow> 'w kernel \<Rightarrow> 'w kernel" where
  "add_fault f s = s\<lparr>faults := faults s @ [f]\<rparr>"

text \<open>A use of the object at an address.\<close>

definition touch :: "string \<Rightarrow> u64 \<Rightarrow> 'w kernel \<Rightarrow> 'w kernel" where
  "touch nm a s = (if a = 0 then add_fault (NullDeref nm) s
     else if live s a then s else add_fault (UseAfterFree nm) s)"

definition put_obj :: "u64 \<Rightarrow> kobj \<Rightarrow> 'w kernel \<Rightarrow> 'w kernel" where
  "put_obj a ob s = s\<lparr>objs := (objs s)(a := Some ob)\<rparr>"

definition kmalloc :: "'w services \<Rightarrow> kobj \<Rightarrow> 'w kernel \<Rightarrow> u64 \<times> 'w kernel" where
  "kmalloc sv ob s =
     (let (a, w) = sv_kmalloc sv (world s); s = s\<lparr>world := w\<rparr>
      in if a = 0 then (0, s) else (a, put_obj a ob (s\<lparr>live := (live s)(a := True)\<rparr>)))"

definition kfree :: "string \<Rightarrow> u64 \<Rightarrow> 'w kernel \<Rightarrow> 'w kernel" where
  "kfree nm a s = (if a = 0 then s
     else if live s a then s\<lparr>live := (live s)(a := False)\<rparr> else add_fault (DoubleFree nm) s)"

definition enclave_at :: "u64 \<Rightarrow> 'w kernel \<Rightarrow> enclave_t" where
  "enclave_at a s = (case objs s a of Some (OEnclave e) \<Rightarrow> e
     | _ \<Rightarrow> \<lparr>eid = 0, en_untrusted_mem = 0, en_enclave_mem = 0, kbuffer = 0, kbuffer_size = 0, ocall_func_id = 0,
             ocall_arg0 = 0, ocall_arg1 = 0, ocall_syscall_num = 0, is_running = 0\<rparr>)"

definition mem_at :: "u64 \<Rightarrow> 'w kernel \<Rightarrow> enclave_mem_t" where
  "mem_at a s = (case objs s a of Some (OMem e) \<Rightarrow> e
     | _ \<Rightarrow> \<lparr>enclave_root_pt = 0, free_mem = [], em_size = 0, em_vaddr = 0, em_paddr = 0\<rparr>)"

definition untrusted_at :: "u64 \<Rightarrow> 'w kernel \<Rightarrow> untrusted_mem_t" where
  "untrusted_at a s = (case objs s a of Some (OUntrusted e) \<Rightarrow> e | _ \<Rightarrow> \<lparr>um_addr = 0, um_size = 0\<rparr>)"

definition req_at :: "u64 \<Rightarrow> 'w kernel \<Rightarrow> require_sec_memory_t" where
  "req_at a s = (case objs s a of Some (OReq e) \<Rightarrow> e | _ \<Rightarrow> \<lparr>rs_size = 0, rs_paddr = 0, rs_resp_size = 0\<rparr>)"

text \<open>\<open>SBI_CALL_1\<close>, \<open>SBI_CALL_2\<close> and \<open>SBI_CALL_3\<close>, by the number of arguments.\<close>

definition SBI_CALL :: "'w services \<Rightarrow> nat \<Rightarrow> u64 list \<Rightarrow> 'w kernel \<Rightarrow> sbiret \<times> 'w kernel" where
  "SBI_CALL sv func_id args s = sv_sbi sv func_id args s"

definition SBI_SM_CREATE_ENCLAVE :: nat where "SBI_SM_CREATE_ENCLAVE = 99"
definition SBI_SM_ATTEST_ENCLAVE :: nat where "SBI_SM_ATTEST_ENCLAVE = 98"
definition SBI_SM_RUN_ENCLAVE :: nat where "SBI_SM_RUN_ENCLAVE = 97"
definition SBI_SM_STOP_ENCLAVE :: nat where "SBI_SM_STOP_ENCLAVE = 96"
definition SBI_SM_RESUME_ENCLAVE :: nat where "SBI_SM_RESUME_ENCLAVE = 95"
definition SBI_SM_DESTROY_ENCLAVE :: nat where "SBI_SM_DESTROY_ENCLAVE = 94"
definition SBI_SM_ALLOC_ENCLAVE_MEM :: nat where "SBI_SM_ALLOC_ENCLAVE_MEM = 93"
definition SBI_SM_MEMORY_EXTEND :: nat where "SBI_SM_MEMORY_EXTEND = 92"
definition SBI_SM_INIT :: nat where "SBI_SM_INIT = 100"
definition SBI_SM_DEBUG_PRINT :: nat where "SBI_SM_DEBUG_PRINT = 88"
definition ENCLAVE_NO_MEMORY :: int where "ENCLAVE_NO_MEMORY = -2"
definition ENCLAVE_TIMER_IRQ :: int where "ENCLAVE_TIMER_IRQ = 1"
definition ENCLAVE_OCALL :: int where "ENCLAVE_OCALL = 2"
definition ENCLAVE_IDR_MIN :: u32 where "ENCLAVE_IDR_MIN = 0x1000"
definition ENCLAVE_IDR_MAX :: u32 where "ENCLAVE_IDR_MAX = 0xffff"

subsection \<open>Locks\<close>

definition lock_idr :: "'w kernel \<Rightarrow> 'w kernel" where
  "lock_idr s = (if idr_lock s then add_fault (Deadlock ''idr_enclave_lock'') s else s\<lparr>idr_lock := True\<rparr>)"

definition unlock_idr :: "'w kernel \<Rightarrow> 'w kernel" where
  "unlock_idr s = s\<lparr>idr_lock := False\<rparr>"

definition lock_kmalloc :: "'w kernel \<Rightarrow> 'w kernel" where
  "lock_kmalloc s = (if kmalloc_lock s then add_fault (Deadlock ''kmalloc_enclave_lock'') s else s\<lparr>kmalloc_lock := True\<rparr>)"

definition unlock_kmalloc :: "'w kernel \<Rightarrow> 'w kernel" where
  "unlock_kmalloc s = s\<lparr>kmalloc_lock := False\<rparr>"

subsection \<open>Identifiers\<close>

definition enclave_idr_alloc :: "'w services \<Rightarrow> u64 \<Rightarrow> 'w kernel \<Rightarrow> u32 \<times> 'w kernel" where
  "enclave_idr_alloc sv enclave s =
     (let s = lock_idr s;
          ueid = sv_idr_alloc sv (idr_enclave s) (world s);
          s = (if ENCLAVE_IDR_MIN \<le> ueid \<and> ueid < ENCLAVE_IDR_MAX
               then s\<lparr>idr_enclave := (idr_enclave s)(ueid := Some enclave)\<rparr> else s);
          s = unlock_idr s
      in if ueid < ENCLAVE_IDR_MIN \<or> ueid \<ge> ENCLAVE_IDR_MAX then (0, s) else (ueid, s))"

definition enclave_idr_remove :: "u32 \<Rightarrow> 'w kernel \<Rightarrow> u64 \<times> 'w kernel" where
  "enclave_idr_remove ueid s =
     (let s = lock_idr s;
          enclave = (case idr_enclave s ueid of None \<Rightarrow> 0 | Some a \<Rightarrow> a);
          s = s\<lparr>idr_enclave := (idr_enclave s)(ueid := None)\<rparr>
      in (enclave, unlock_idr s))"

definition get_enclave_by_id :: "u32 \<Rightarrow> 'w kernel \<Rightarrow> u64 \<times> 'w kernel" where
  "get_enclave_by_id ueid s =
     (let s = lock_idr s;
          enclave = (case idr_enclave s ueid of None \<Rightarrow> 0 | Some a \<Rightarrow> a)
      in (enclave, unlock_idr s))"

subsection \<open>Creating and destroying enclaves\<close>

text \<open>The label \<open>free_enclave\<close>.\<close>

definition free_enclave :: "u64 \<Rightarrow> u64 \<Rightarrow> u64 \<Rightarrow> u64 \<Rightarrow> 'w kernel \<Rightarrow> u64 \<times> 'w kernel" where
  "free_enclave enclave enclave_mem untrusted_mem require_sec_memory s =
     (let s = (if enclave \<noteq> 0 then kfree ''enclave'' enclave s else s);
          s = (if enclave_mem \<noteq> 0 then kfree ''enclave_mem'' enclave_mem s else s);
          s = (if untrusted_mem \<noteq> 0 then kfree ''untrusted_mem'' untrusted_mem s else s);
          s = (if require_sec_memory \<noteq> 0 then kfree ''untrusted_mem'' untrusted_mem s else s)
      in (0, s))"

text \<open>
  The loop that gives the monitor more memory: \<open>Some (ret, pa)\<close> when it ends, \<open>None\<close> when it
  jumps to \<open>free_enclave\<close>. \<open>pa\<close> is the physical address the monitor answered with.
\<close>

fun extend_loop :: "nat \<Rightarrow> 'w services \<Rightarrow> u64 \<Rightarrow> u64 \<Rightarrow> sbiret \<Rightarrow> u64 \<Rightarrow> 'w kernel \<Rightarrow> (sbiret \<times> u64) option \<times> 'w kernel" where
  "extend_loop fuel sv order req ret pa s =
     (if sbi_value ret = ENCLAVE_NO_MEMORY
      then if fuel = 0 then (None, add_fault (Diverges ''create_enclave'') s)
           else let (addr, w) = sv_get_free_pages sv order (world s); s = s\<lparr>world := w\<rparr>
                in if addr = 0 then (None, s)
                   else let (ret, s) = SBI_CALL sv SBI_SM_MEMORY_EXTEND
                              [kpa (sv_K sv) addr, word_of_int (int32 (4096 * int32 (2 ^ unat order)))] s
                        in if sbi_error ret \<noteq> 0 then (None, s)
                           else let (ret, s) = SBI_CALL sv SBI_SM_ALLOC_ENCLAVE_MEM [kpa (sv_K sv) req] s;
                                    s = touch ''require_sec_memory'' req s;
                                    pa = rs_paddr (req_at req s)
                                in extend_loop (fuel - 1) sv order req ret pa s
      else (Some (ret, pa), s))"

declare extend_loop.simps [simp del]

definition create_enclave_init :: "'w services \<Rightarrow> u64 \<Rightarrow> u64 \<Rightarrow> u64 \<Rightarrow> u64 \<Rightarrow> u64 \<Rightarrow> 'w kernel \<Rightarrow> u64 \<times> 'w kernel" where
  "create_enclave_init sv enclave enclave_mem untrusted_mem req pa s =
     (let addr = kva (sv_K sv) pa;
          s = touch ''require_sec_memory'' req s;
          sz = int32 (uint (rs_resp_size (req_at req s)));
          s = put_obj enclave_mem (OMem ((mem_at enclave_mem s)\<lparr>free_mem := []\<rparr>)) s;
          s = unlock_kmalloc s;
          s = put_obj enclave_mem (OMem (enclave_mem_int (mem_at enclave_mem s) addr sz (kpa (sv_K sv) addr))) s;
          s = lock_kmalloc s;
          s = put_obj enclave (OEnclave ((enclave_at enclave s)\<lparr>en_enclave_mem := enclave_mem, en_untrusted_mem := untrusted_mem\<rparr>)) s;
          s = kfree ''untrusted_mem'' untrusted_mem s;
          s = unlock_kmalloc s
      in (enclave, s))"

definition create_enclave :: "'w services \<Rightarrow> int \<Rightarrow> 'w kernel \<Rightarrow> u64 \<times> 'w kernel" where
  "create_enclave sv total_pages s =
     (let (g_enclave, g_mem, g_untrusted, g_req, _) = sv_garbage sv (world s);
          (enclave, s) = kmalloc sv (OEnclave g_enclave) s;
          (enclave_mem, s) = kmalloc sv (OMem g_mem) s;
          (untrusted_mem, s) = kmalloc sv (OUntrusted g_untrusted) s;
          (req, s) = kmalloc sv (OReq g_req) s;
          s = lock_kmalloc s;
          order = word_of_int (ilog2 (unat (word_of_int (total_pages - 1) :: u32)) + 1)
      in if enclave = 0 \<or> enclave_mem = 0 \<or> untrusted_mem = 0
         then free_enclave enclave enclave_mem untrusted_mem req s
         else let s = touch ''require_sec_memory'' req s;
                  s = put_obj req (OReq ((req_at req s)\<lparr>rs_size := word_of_int (int32 (total_pages * 4096))\<rparr>)) s;
                  (ret, s) = SBI_CALL sv SBI_SM_ALLOC_ENCLAVE_MEM [kpa (sv_K sv) req] s;
                  s = touch ''require_sec_memory'' req s;
                  pa = rs_paddr (req_at req s)
              in case extend_loop (sv_fuel sv) sv order req ret pa s of
                   (None, s) \<Rightarrow> free_enclave enclave enclave_mem untrusted_mem req s
                 | (Some (ret, pa), s) \<Rightarrow>
                     if sbi_value ret \<noteq> 0 \<and> sbi_value ret \<noteq> ENCLAVE_NO_MEMORY
                     then free_enclave enclave enclave_mem untrusted_mem req s
                     else create_enclave_init sv enclave enclave_mem untrusted_mem req pa s)"

definition destroy_enclave :: "u64 \<Rightarrow> 'w kernel \<Rightarrow> int \<times> 'w kernel" where
  "destroy_enclave enclave s =
     (if enclave = 0 then (-1, s)
      else let s = touch ''enclave'' enclave s;
               enclave_mem = en_enclave_mem (enclave_at enclave s);
               untrusted_mem = en_untrusted_mem (enclave_at enclave s);
               s = touch ''enclave_mem'' enclave_mem s;
               s = put_obj enclave_mem (OMem (snd (enclave_mem_destroy (mem_at enclave_mem s)))) s;
               s = kfree ''enclave_mem'' enclave_mem s;
               s = kfree ''untrusted_mem'' untrusted_mem s;
               s = kfree ''enclave'' enclave s
           in (0, s))"

subsection \<open>Creation step by step\<close>

text \<open>Four allocations that succeed, and a monitor that answers a request for memory.\<close>

definition allocates :: "'w services \<Rightarrow> 'w \<Rightarrow> u64 \<Rightarrow> u64 \<Rightarrow> u64 \<Rightarrow> u64 \<Rightarrow> 'w \<Rightarrow> bool" where
  "allocates sv w e m u r w' \<longleftrightarrow> (\<exists>w1 w2 w3. sv_kmalloc sv w = (e, w1) \<and> sv_kmalloc sv w1 = (m, w2) \<and>
     sv_kmalloc sv w2 = (u, w3) \<and> sv_kmalloc sv w3 = (r, w')) \<and> distinct [0, e, m, u, r]"

definition monitor_answers :: "'w services \<Rightarrow> u64 \<Rightarrow> int \<Rightarrow> u64 \<Rightarrow> u64 \<Rightarrow> bool" where
  "monitor_answers sv r val pa resp \<longleftrightarrow>
     (\<forall>s. sv_sbi sv SBI_SM_ALLOC_ENCLAVE_MEM [kpa (sv_K sv) r] s =
        (\<lparr>sbi_error = 0, sbi_value = val\<rparr>,
         s\<lparr>objs := (objs s)(r := Some (OReq ((req_at r s)\<lparr>rs_paddr := pa, rs_resp_size := resp\<rparr>)))\<rparr>))"

lemma objs_at:
  "enclave_at a (put_obj b (OEnclave x) s) = (if a = b then x else enclave_at a s)"
  "mem_at a (put_obj b (OMem y) s) = (if a = b then y else mem_at a s)"
  "req_at a (put_obj b (OReq z) s) = (if a = b then z else req_at a s)"
  "a \<noteq> b \<Longrightarrow> enclave_at a (put_obj b ob s) = enclave_at a s" "a \<noteq> b \<Longrightarrow> mem_at a (put_obj b ob s) = mem_at a s"
  "a \<noteq> b \<Longrightarrow> req_at a (put_obj b ob s) = req_at a s"
  by (simp_all add: enclave_at_def mem_at_def req_at_def put_obj_def)

lemma create_enclave_eq:
  fixes total_pages :: int
  assumes al: "allocates sv (world s) e m u r w'" and mon: "monitor_answers sv r val pa resp" and nl: "\<not> kmalloc_lock s"
    and val: "val \<noteq> ENCLAVE_NO_MEMORY" and g: "sv_garbage sv (world s) = (ge, gm, gu, gr, gs)"
  defines "s1 \<equiv> s\<lparr>world := w', live := (live s)(e := True, m := True, u := True, r := True), kmalloc_lock := True,
      objs := (objs s)(e := Some (OEnclave ge), m := Some (OMem gm), u := Some (OUntrusted gu),
        r := Some (OReq (gr\<lparr>rs_size := word_of_int (int32 (total_pages * 4096)), rs_paddr := pa, rs_resp_size := resp\<rparr>)))\<rparr>"
  shows "create_enclave sv total_pages s =
    (if val = 0 then create_enclave_init sv e m u r pa s1 else free_enclave e m u r s1)"
proof -
  obtain w1 w2 w3 where w: "sv_kmalloc sv (world s) = (e, w1)" "sv_kmalloc sv w1 = (m, w2)" "sv_kmalloc sv w2 = (u, w3)"
      "sv_kmalloc sv w3 = (r, w')" and d: "distinct [0, e, m, u, r]" using al unfolding allocates_def by blast
  then show ?thesis
    using mon nl val g
    by (simp add: create_enclave_def Let_def kmalloc_def lock_kmalloc_def touch_def put_obj_def SBI_CALL_def monitor_answers_def
        extend_loop.simps req_at_def s1_def)
qed

text \<open>A state with the four objects of an enclave being created.\<close>

lemma create_enclave_init_eq:
  assumes d: "distinct [0, e, m, u, r]" and l: "live s e" "live s m" "live s u" "live s r" and lk: "kmalloc_lock s"
    and ob: "objs s e = Some (OEnclave ge)" "objs s m = Some (OMem gm)" "objs s r = Some (OReq gr)"
  shows "create_enclave_init sv e m u r pa s =
    (e, s\<lparr>objs := (objs s)(m := Some (OMem (enclave_mem_int (gm\<lparr>free_mem := []\<rparr>) (kva (sv_K sv) pa)
             (int32 (uint (rs_resp_size gr))) pa)),
           e := Some (OEnclave (ge\<lparr>en_enclave_mem := m, en_untrusted_mem := u\<rparr>))),
         live := (live s)(u := False), kmalloc_lock := False\<rparr>)"
  using assms
  by (simp add: create_enclave_init_def Let_def touch_def req_at_def mem_at_def enclave_at_def put_obj_def unlock_kmalloc_def
      lock_kmalloc_def kfree_def fun_upd_twist)

lemma free_enclave_eq:
  assumes "distinct [0, e, m, u, r]" and "live s e" "live s m" "live s u"
  shows "free_enclave e m u r s =
    (0, add_fault (DoubleFree ''untrusted_mem'') (s\<lparr>live := (live s)(e := False, m := False, u := False)\<rparr>))"
  using assms by (auto simp: free_enclave_def Let_def kfree_def)

subsection \<open>Properties\<close>

text \<open>
  C13: Creating an enclave when the allocations succeed and the monitor grants \<open>n\<close> zeroed
  pages. The enclave and its memory object are there, the page table invariant holds with
  nothing mapped and \<open>n - 2\<close> free pages, the lock is free again and no fault was recorded.
  But the object for untrusted memory, to which the enclave keeps a pointer, has been freed,
  and the request is not freed.
\<close>

theorem create_enclave_success:
  assumes al: "allocates sv (world s) e m u r w'" and mon: "monitor_answers sv r 0 pa (of_nat (4096 * n))"
    and nl: "\<not> kmalloc_lock s" and n: "2 \<le> n" "n < 2 ^ 19"
    and pa: "page_ok (kva (sv_K sv) pa)" "kva (sv_K sv) pa \<noteq> 0" "unat (kva (sv_K sv) pa) + 4096 * n \<le> 2 ^ 64"
    and z: "\<forall>i < n. zero_page (phys s) (region_page (kva (sv_K sv) pa) i)"
  shows "\<exists>s'. create_enclave sv total_pages s = (e, s') \<and>
    live s' e \<and> live s' m \<and> en_enclave_mem (enclave_at e s') = m \<and>
    pt_ok (sv_K sv) (phys s') (enclave_root_pt (mem_at m s')) (free_mem (mem_at m s')) \<and>
    (\<forall>v. sv39 (sv_K sv) (phys s') (enclave_root_pt (mem_at m s')) v = None) \<and>
    length (free_mem (mem_at m s')) = n - 2 \<and>
    \<not> kmalloc_lock s' \<and> faults s' = faults s \<and> phys s' = phys s \<and>
    en_untrusted_mem (enclave_at e s') = u \<and> \<not> live s' u \<and> live s' r"
proof -
  obtain ge gm gu gr gs where g: "sv_garbage sv (world s) = (ge, gm, gu, gr, gs)" by (metis prod.exhaust)
  have d: "distinct [0, e, m, u, r]" using al by (simp add: allocates_def)
  have "unat (of_nat (4096 * n) :: u64) = 4096 * n" using n(2) by (intro unat_of_nat64) simp
  then have sz: "int32 (uint (of_nat (4096 * n) :: u64)) = 4096 * int n" using n(2) int32_small [of "of_nat (4096 * n)"] by simp
  let ?em = "enclave_mem_int (gm\<lparr>free_mem := []\<rparr>) (kva (sv_K sv) pa) (4096 * int n) pa"
  have val: "0 \<noteq> ENCLAVE_NO_MEMORY" by (simp add: ENCLAVE_NO_MEMORY_def)
  have "n < 2 ^ 32" using n(2) by simp
  note em = enclave_mem_int_ok [where em = "gm\<lparr>free_mem := []\<rparr>" and paddr = pa, OF _ refl n(1) this pa z]
  define s1 where "s1 = s\<lparr>world := w', live := (live s)(e := True, m := True, u := True, r := True), kmalloc_lock := True,
      objs := (objs s)(e := Some (OEnclave ge), m := Some (OMem gm), u := Some (OUntrusted gu),
        r := Some (OReq (gr\<lparr>rs_size := word_of_int (int32 (total_pages * 4096)), rs_paddr := pa, rs_resp_size := of_nat (4096 * n)\<rparr>)))\<rparr>"
  have c: "create_enclave sv total_pages s = create_enclave_init sv e m u r pa s1"
    using create_enclave_eq [OF al mon nl val g, of total_pages] by (simp add: s1_def)
  have i: "create_enclave_init sv e m u r pa s1 = (e, s1\<lparr>objs := (objs s1)(m := Some (OMem ?em),
           e := Some (OEnclave (ge\<lparr>en_enclave_mem := m, en_untrusted_mem := u\<rparr>))),
         live := (live s1)(u := False), kmalloc_lock := False\<rparr>)"
    using create_enclave_init_eq [OF d, of s1 ge gm "gr\<lparr>rs_size := word_of_int (int32 (total_pages * 4096)), rs_paddr := pa, rs_resp_size := of_nat (4096 * n)\<rparr>" sv pa]
      d sz by (simp add: s1_def)
  show ?thesis
    unfolding c i using d em by (auto simp: s1_def enclave_at_def mem_at_def)
qed

definition example_services :: "int \<Rightarrow> nat services" where
  "example_services val =
     \<lparr>sv_K = 0, sv_fuel = 10,
      sv_kmalloc = (\<lambda>w. (of_nat (0x100 * Suc w), Suc w)),
      sv_garbage = (\<lambda>w. (\<lparr>eid = 0, en_untrusted_mem = 0, en_enclave_mem = 0, kbuffer = 0, kbuffer_size = 0, ocall_func_id = 0,
          ocall_arg0 = 0, ocall_arg1 = 0, ocall_syscall_num = 0, is_running = 0\<rparr>, example_em, \<lparr>um_addr = 0, um_size = 0\<rparr>,
        \<lparr>rs_size = 0, rs_paddr = 0, rs_resp_size = 0\<rparr>,
        \<lparr>sp_eid_ptr = 0, sp_paddr = 0, sp_size = 0, sp_entry_point = 0, sp_untrusted_ptr = 0, sp_untrusted_size = 0,
          sp_free_mem = 0, sp_kbuffer = 0, sp_kbuffer_paddr = 0, sp_kbuffer_size = 0, sp_ecall_arg0 = 0, sp_ecall_arg1 = 0,
          sp_ecall_arg2 = 0, sp_ecall_arg3 = 0\<rparr>, [])),
      sv_get_free_pages = (\<lambda>order w. (0, w)), sv_free_pages = (\<lambda>a order w. w),
      sv_idr_alloc = (\<lambda>t w. if t 0x1000 = None then 0x1000 else 0),
      sv_sbi = (\<lambda>f args s. (\<lparr>sbi_error = 0, sbi_value = val\<rparr>,
        if f = SBI_SM_ALLOC_ENCLAVE_MEM
        then s\<lparr>objs := (objs s)(hd args := Some (OReq ((req_at (hd args) s)\<lparr>rs_paddr := 0x1000, rs_resp_size := of_nat (4096 * 8)\<rparr>)))\<rparr>
        else s)),
      sv_copy_from_user = (\<lambda>w. example_cfu), sv_copy_to_user = (\<lambda>a bs w. (0, w)), sv_cycles = (\<lambda>w. 0)\<rparr>"

definition example_kernel :: "nat kernel" where
  "example_kernel = \<lparr>objs = (\<lambda>_. None), live = (\<lambda>_. False), phys = (\<lambda>_. 0), idr_enclave = (\<lambda>_. None),
     big_lock = False, idr_lock = False, kmalloc_lock = False, printed = [], faults = [], world = 0\<rparr>"

lemma example_allocates: "allocates (example_services val) (world example_kernel) 0x100 0x200 0x300 0x400 4"
  by (simp add: allocates_def example_services_def example_kernel_def)

lemma example_answers: "monitor_answers (example_services val) 0x400 val 0x1000 (of_nat (4096 * 8))"
  by (simp add: monitor_answers_def example_services_def kpa_def)

theorem create_enclave_success_witness:
  "\<exists>s'. create_enclave (example_services 0) 8 example_kernel = (0x100, s') \<and>
    length (free_mem (mem_at 0x200 s')) = 6 \<and> faults s' = [] \<and> \<not> live s' 0x300"
  using create_enclave_success [OF example_allocates example_answers, where total_pages = 8]
  by (auto simp: example_kernel_def example_services_def kva_def page_ok_def zero_page_def)

text \<open>
  C29: When the monitor refuses the memory, \<open>create_enclave\<close> returns null with the spin lock
  still held, so that the next creation waits for ever; the untrusted memory object is freed
  twice and the request, whose turn the second time was, is not freed.
\<close>

theorem create_enclave_failure:
  assumes al: "allocates sv (world s) e m u r w'" and mon: "monitor_answers sv r val pa resp"
    and nl: "\<not> kmalloc_lock s" and val: "val \<noteq> 0" "val \<noteq> -2"
  shows "\<exists>s'. create_enclave sv total_pages s = (0, s') \<and> kmalloc_lock s' \<and>
    faults s' = faults s @ [DoubleFree ''untrusted_mem''] \<and> \<not> live s' e \<and> \<not> live s' m \<and> \<not> live s' u \<and> live s' r \<and>
    Deadlock ''kmalloc_enclave_lock'' \<in> set (faults (lock_kmalloc s'))"
proof -
  obtain ge gm gu gr gs where g: "sv_garbage sv (world s) = (ge, gm, gu, gr, gs)" by (metis prod.exhaust)
  have d: "distinct [0, e, m, u, r]" using al by (simp add: allocates_def)
  have "val \<noteq> ENCLAVE_NO_MEMORY" using val by (simp add: ENCLAVE_NO_MEMORY_def)
  note c = create_enclave_eq [OF al mon nl this g, of total_pages]
  show ?thesis
    unfolding c using d val by (subst free_enclave_eq) (auto simp: add_fault_def lock_kmalloc_def)
qed

theorem create_enclave_failure_witness:
  "\<exists>s'. create_enclave (example_services (-1)) 8 example_kernel = (0, s') \<and> kmalloc_lock s' \<and>
    faults s' = [DoubleFree ''untrusted_mem'']"
  using create_enclave_failure [OF example_allocates [of "-1"] example_answers, where total_pages = 8]
  by (auto simp: example_kernel_def)


definition example_created :: "nat kernel" where
  "example_created = example_kernel\<lparr>live := (\<lambda>a. a \<in> {0x100, 0x200}),
     objs := (\<lambda>_. None)(0x100 := Some (OEnclave \<lparr>eid = 0, en_untrusted_mem = 0x300, en_enclave_mem = 0x200, kbuffer = 0, kbuffer_size = 0,
       ocall_func_id = 0, ocall_arg0 = 0, ocall_arg1 = 0, ocall_syscall_num = 0, is_running = 0\<rparr>), 0x200 := Some (OMem example_em))\<rparr>"


end
