(* ===== verification/Enclave_Ioctl.thy ===== *)
theory Enclave_Ioctl
  imports Enclave
begin

text \<open>
  The \<open>ioctl\<close> interface of the driver, \<^verbatim>\<open>penglai-enclave-ioctl.c\<close>: creating, running,
  attesting, stopping, resuming and destroying enclaves. Every handler takes the parameter
  struct, gives the value it returns and, where it changes the struct, the struct. The loop in
  which the driver serves an enclave is the same code in \<open>penglai_enclave_run\<close> and
  \<open>penglai_enclave_resume\<close>, and is defined once. \<open>printk\<close> of data that an enclave wrote is
  recorded in \<open>printed\<close>; other messages are left out. Other threads can act whenever the
  monitor is called, since the monitor's answer may change the whole kernel state.
\<close>

subsection \<open>Constants and parameter structs\<close>

definition EFAULT :: int where "EFAULT = 14"
definition EINVAL :: int where "EINVAL = 22"
definition STACK_POINT :: u64 where "STACK_POINT = 0x4000000000"
definition DEFAULT_UNTRUSTED_PTR :: u64 where "DEFAULT_UNTRUSTED_PTR = 0x1000000000"
definition ENCLAVE_DEFAULT_KBUFFER_SIZE :: u64 where "ENCLAVE_DEFAULT_KBUFFER_SIZE = 0x1000"
definition ENCLAVE_DEFAULT_KBUFFER :: u64 where "ENCLAVE_DEFAULT_KBUFFER = 0xffffffe000000000"
definition DEFAULT_CLOCK_DELAY :: u64 where "DEFAULT_CLOCK_DELAY = 100000"
definition USER_PARAM_RESUME_FROM_CUSTOM_OCALL :: int where "USER_PARAM_RESUME_FROM_CUSTOM_OCALL = 1000"
definition MAX_ELF_SIZE :: int where "MAX_ELF_SIZE = 512 * 1024 * 1024"
definition MAX_STACK_SIZE :: int where "MAX_STACK_SIZE = 64 * 1024 * 1024"
definition MAX_UNTRUSTED_MEM_SIZE :: int where "MAX_UNTRUSTED_MEM_SIZE = 16 * 1024 * 1024"
definition OCALL_USER_DEFINED :: u64 where "OCALL_USER_DEFINED = 9"
definition OCALL_SYS_WRITE_ID :: u64 where "OCALL_SYS_WRITE_ID = 3"
definition RESUME_FROM_OCALL :: u64 where "RESUME_FROM_OCALL = 2"
definition RESUME_FROM_STOP :: u64 where "RESUME_FROM_STOP = 2003"
definition RESUME_FROM_TIMER_IRQ :: u64 where "RESUME_FROM_TIMER_IRQ = 2000"
definition RETURN_USER_FOR_OCALL :: int where "RETURN_USER_FOR_OCALL = 1"
definition SYS_write :: u64 where "SYS_write = 64"

record penglai_enclave_user_param =
  up_eid :: u64
  up_elf_ptr :: u64
  up_elf_size :: int
  up_stack_size :: int
  up_untrusted_mem_ptr :: u64
  up_untrusted_mem_size :: int
  up_ocall_buf_size :: int
  up_resume_type :: int

record penglai_enclave_ioctl_attest_enclave =
  at_eid :: u64
  at_nonce :: u64
  at_report :: bytes

definition int64 :: "u64 \<Rightarrow> int" where
  "int64 w = sint w"

subsection \<open>Locks and sizes\<close>

definition acquire_big_lock :: "'w kernel \<Rightarrow> 'w kernel" where
  "acquire_big_lock s = (if big_lock s then add_fault (Deadlock ''enclave_big_lock'') s else s\<lparr>big_lock := True\<rparr>)"

definition release_big_lock :: "'w kernel \<Rightarrow> 'w kernel" where
  "release_big_lock s = s\<lparr>big_lock := False\<rparr>"

text \<open>The kernel's \<open>PAGE_UP\<close>, whose arithmetic is that of \<open>unsigned long\<close>.\<close>

definition PAGE_UP :: "u64 \<Rightarrow> u64" where
  "PAGE_UP a = (a + 4095) AND NOT 4095"

definition total_enclave_page :: "int \<Rightarrow> int \<Rightarrow> u32" where
  "total_enclave_page elf_size stack_size =
     ucast (PAGE_UP (word_of_int elf_size) div 4096 + PAGE_UP (word_of_int stack_size) div 4096 + 15)"

definition check_eapp_memory_size :: "int \<Rightarrow> int \<Rightarrow> int \<Rightarrow> int" where
  "check_eapp_memory_size elf_size stack_size untrusted_mem_size =
     (if elf_size > MAX_ELF_SIZE \<or> stack_size > MAX_STACK_SIZE \<or> untrusted_mem_size > MAX_UNTRUSTED_MEM_SIZE then -1 else 0)"

text \<open>\<open>0x1 << order\<close>, an \<open>int\<close>.\<close>

definition shift_one :: "nat \<Rightarrow> int" where
  "shift_one order = int32 (2 ^ order)"

definition enclave_order :: "u32 \<Rightarrow> nat" where
  "enclave_order total_pages = nat (ilog2 (unat (total_pages - 1)) + 1)"

definition round_untrusted :: "int \<Rightarrow> int" where
  "round_untrusted untrusted_mem_size =
     shift_one (nat (ilog2 (unat (word_of_int (untrusted_mem_size - 1) :: u64)) + 1))"

definition pages_order :: "u64 \<Rightarrow> u64" where
  "pages_order sz = word_of_int (ilog2 (unat (drop_bit 12 sz - 1)) + 1)"

subsection \<open>Setting up an enclave\<close>

definition create_sbi_param ::
  "u64 \<Rightarrow> u64 \<Rightarrow> u64 \<Rightarrow> u64 \<Rightarrow> u64 \<Rightarrow> u64 \<Rightarrow> u64 \<Rightarrow> u64 \<Rightarrow> u64 \<Rightarrow> 'w kernel \<Rightarrow> int \<times> 'w kernel" where
  "create_sbi_param K enclave sbi_param paddr sz entry_point untrusted_ptr untrusted_size free s =
     (let s = touch ''enclave_sbi_param'' sbi_param s;
          s = touch ''enclave'' enclave s;
          e = enclave_at enclave s
      in (0, put_obj sbi_param (OSbi
            \<lparr>sp_eid_ptr = kpa K enclave, sp_paddr = paddr, sp_size = sz, sp_entry_point = entry_point,
             sp_untrusted_ptr = untrusted_ptr, sp_untrusted_size = untrusted_size, sp_free_mem = free,
             sp_kbuffer = ENCLAVE_DEFAULT_KBUFFER, sp_kbuffer_paddr = kpa K (kbuffer e), sp_kbuffer_size = kbuffer_size e,
             sp_ecall_arg0 = kpa K (enclave + 40), sp_ecall_arg1 = kpa K (enclave + 48),
             sp_ecall_arg2 = kpa K (enclave + 56), sp_ecall_arg3 = kpa K (enclave + 64)\<rparr>) s))"

text \<open>A call of a function of the loader on the enclave's memory.\<close>

definition on_enclave_mem :: "u64 \<Rightarrow> (loader \<Rightarrow> fault + 'a \<times> loader) \<Rightarrow> 'a \<Rightarrow> 'w kernel \<Rightarrow> 'a \<times> 'w kernel" where
  "on_enclave_mem enclave f dflt s =
     (let s = touch ''enclave'' enclave s;
          em = en_enclave_mem (enclave_at enclave s);
          s = touch ''enclave_mem'' em s
      in case f (mem_at em s, phys s) of
           Inl flt \<Rightarrow> (dflt, add_fault flt s)
         | Inr (r, em', m') \<Rightarrow> (r, put_obj em (OMem em') (s\<lparr>phys := m'\<rparr>)))"

definition get_pages :: "'w services \<Rightarrow> u64 \<Rightarrow> 'w kernel \<Rightarrow> u64 \<times> 'w kernel" where
  "get_pages sv order s = (let (addr, w) = sv_get_free_pages sv order (world s) in (addr, s\<lparr>world := w\<rparr>))"

definition alloc_untrusted_mem :: "'w services \<Rightarrow> u64 \<Rightarrow> u64 \<Rightarrow> u64 \<Rightarrow> 'w kernel \<Rightarrow> int \<times> u64 \<times> 'w kernel" where
  "alloc_untrusted_mem sv untrusted_mem_size untrusted_mem_ptr enclave s =
     (let (addr, s) = get_pages sv (pages_order untrusted_mem_size) s
      in if addr = 0 then (-1, untrusted_mem_ptr, s)
         else let s = s\<lparr>phys := write_block (phys s) addr (replicate (unat untrusted_mem_size) 0)\<rparr>;
                  (_, s) = on_enclave_mem enclave
                    (map_untrusted_mem (sv_K sv) DEFAULT_UNTRUSTED_PTR (kpa (sv_K sv) addr) untrusted_mem_size) 0 s
              in (0, addr, s))"

definition alloc_kbuffer :: "'w services \<Rightarrow> u64 \<Rightarrow> u64 \<Rightarrow> u64 \<Rightarrow> 'w kernel \<Rightarrow> int \<times> u64 \<times> 'w kernel" where
  "alloc_kbuffer sv kbuffer_sz kbuffer_ptr enclave s =
     (let (addr, s) = get_pages sv (pages_order kbuffer_sz) s
      in if addr = 0 then (-1, kbuffer_ptr, s)
         else let s = s\<lparr>phys := write_block (phys s) addr (replicate (unat kbuffer_sz) 0)\<rparr>;
                  (_, s) = on_enclave_mem enclave
                    (map_kbuffer (sv_K sv) ENCLAVE_DEFAULT_KBUFFER (kpa (sv_K sv) addr) kbuffer_sz) 0 s
              in (0, addr, s))"

definition upd_enclave :: "u64 \<Rightarrow> (enclave_t \<Rightarrow> enclave_t) \<Rightarrow> 'w kernel \<Rightarrow> 'w kernel" where
  "upd_enclave a f s = (let s = touch ''enclave'' a s in put_obj a (OEnclave (f (enclave_at a s))) s)"

text \<open>The label \<open>destroy_enclave\<close> of \<open>penglai_enclave_create\<close>.\<close>

definition create_failed :: "u64 \<Rightarrow> u64 \<Rightarrow> 'w kernel \<Rightarrow> int \<times> 'w kernel" where
  "create_failed enclave sbi_param s =
     (let s = (if enclave \<noteq> 0 then snd (destroy_enclave enclave s) else s);
          s = release_big_lock s;
          s = (if sbi_param \<noteq> 0 then kfree ''enclave_sbi_param'' sbi_param s else s)
      in (- EFAULT, s))"

text \<open>From the allocation of shared memory to the call of the monitor.\<close>

definition create_finish ::
  "'w services \<Rightarrow> penglai_enclave_user_param \<Rightarrow> u64 \<Rightarrow> u64 \<Rightarrow> u64 \<Rightarrow> 'w kernel \<Rightarrow>
     int \<times> penglai_enclave_user_param \<times> 'w kernel" where
  "create_finish sv up enclave sbi_param elf_entry s =
     (let untrusted_mem_size = round_untrusted (up_untrusted_mem_size up);
          (untrusted_mem_ptr, s) =
            (if up_untrusted_mem_ptr up = 0 \<and> untrusted_mem_size > 0
             then snd (alloc_untrusted_mem sv (word_of_int untrusted_mem_size) (up_untrusted_mem_ptr up) enclave s)
             else (up_untrusted_mem_ptr up, s));
          s = touch ''enclave'' enclave s;
          um = en_untrusted_mem (enclave_at enclave s);
          s = touch ''untrusted_mem'' um s;
          s = put_obj um (OUntrusted \<lparr>um_addr = untrusted_mem_ptr, um_size = untrusted_mem_size\<rparr>) s;
          (_, kbuffer_ptr, s) = alloc_kbuffer sv ENCLAVE_DEFAULT_KBUFFER_SIZE ENCLAVE_DEFAULT_KBUFFER enclave s;
          s = upd_enclave enclave (\<lambda>e. e\<lparr>kbuffer := kbuffer_ptr, kbuffer_size := ENCLAVE_DEFAULT_KBUFFER_SIZE\<rparr>) s;
          em = en_enclave_mem (enclave_at enclave s);
          s = touch ''enclave_mem'' em s;
          (free, free_list) = get_free_mem (free_mem (mem_at em s));
          s = put_obj em (OMem ((mem_at em s)\<lparr>free_mem := free_list\<rparr>)) s;
          (_, s) = create_sbi_param (sv_K sv) enclave sbi_param (em_paddr (mem_at em s)) (em_size (mem_at em s)) elf_entry
                     DEFAULT_UNTRUSTED_PTR (word_of_int untrusted_mem_size) (kpa (sv_K sv) free) s;
          (ret, s) = SBI_CALL sv SBI_SM_CREATE_ENCLAVE [kpa (sv_K sv) sbi_param] s
      in if sbi_error ret \<noteq> 0 then let (r, s) = create_failed enclave sbi_param s in (r, up, s)
         else let (ueid, s) = enclave_idr_alloc sv enclave s;
                  s = upd_enclave enclave (\<lambda>e. e\<lparr>is_running := 0\<rparr>) s;
                  s = release_big_lock s;
                  s = kfree ''enclave_sbi_param'' sbi_param s
              in (int32 (sbi_value ret), up\<lparr>up_eid := ucast ueid\<rparr>, s))"

definition penglai_enclave_create ::
  "'w services \<Rightarrow> penglai_enclave_user_param \<Rightarrow> 'w kernel \<Rightarrow> int \<times> penglai_enclave_user_param \<times> 'w kernel" where
  "penglai_enclave_create sv up s =
     (let cfu = sv_copy_from_user sv (world s);
          (r, elf_size) = penglai_enclave_elfmemsize cfu (up_elf_ptr up) 0
      in if r < 0 then (-1, up, s)
         else let (_, _, _, _, g_sbi, _) = sv_garbage sv (world s);
                  (sbi_param, s) = kmalloc sv (OSbi g_sbi) s;
                  total_pages = total_enclave_page elf_size (int32 (up_stack_size up));
                  total_pages = (word_of_int (shift_one (enclave_order total_pages)) :: u32)
              in if check_eapp_memory_size elf_size (up_stack_size up) (up_untrusted_mem_size up) < 0 then (-1, up, s)
                 else let s = acquire_big_lock s;
                          (enclave, s) = create_enclave sv (sint total_pages) s
                      in if enclave = 0 then let (r, s) = create_failed enclave sbi_param s in (r, up, s)
                         else let ((r, elf_entry), s) = on_enclave_mem enclave
                                    (\<lambda>l. case penglai_enclave_eapp_preprare (sv_K sv) cfu (up_elf_ptr up) 0 STACK_POINT
                                           (int32 (up_stack_size up)) l of
                                           Inl f \<Rightarrow> Inl f | Inr (r, entry, l) \<Rightarrow> Inr ((r, entry), l)) (0, 0) s
                              in if r \<noteq> 0 \<or> elf_entry = 0
                                 then let (r, s) = create_failed enclave sbi_param s in (r, up, s)
                                 else create_finish sv up enclave sbi_param elf_entry s)"

definition penglai_enclave_destroy :: "'w services \<Rightarrow> penglai_enclave_user_param \<Rightarrow> 'w kernel \<Rightarrow> int \<times> 'w kernel" where
  "penglai_enclave_destroy sv up s =
     (let s = acquire_big_lock s;
          ueid = ucast (up_eid up);
          (enclave, s) = get_enclave_by_id ueid s
      in if enclave = 0 then (0, release_big_lock s)
         else let s = touch ''enclave'' enclave s;
                  (ret, s) = SBI_CALL sv SBI_SM_DESTROY_ENCLAVE [ucast (eid (enclave_at enclave s))] s;
                  retval = int32 (sbi_value ret);
                  s = touch ''enclave'' enclave s;
                  s = (if is_running (enclave_at enclave s) = 0
                       then snd (enclave_idr_remove ueid (snd (destroy_enclave enclave s))) else s)
              in (retval, release_big_lock s))"

subsection \<open>Memory requests of the monitor\<close>

definition handle_memory_extend :: "'w services \<Rightarrow> u64 \<Rightarrow> 'w kernel \<Rightarrow> int \<times> 'w kernel" where
  "handle_memory_extend sv enclave s =
     (let s = touch ''enclave'' enclave s;
          pages = ocall_arg0 (enclave_at enclave s);
          order = nat (ilog2 (unat (pages - 1)) + 1);
          count = (word_of_int (shift_one order) :: u64);
          (addr, s) = get_pages sv (of_nat order) s
      in if addr = 0 then (-1, s)
         else let (ret, s) = SBI_CALL sv SBI_SM_MEMORY_EXTEND [kpa (sv_K sv) addr, push_bit 12 count] s
              in (int32 (sbi_value ret), s))"

definition handle_memory_free :: "'w services \<Rightarrow> u64 \<Rightarrow> 'w kernel \<Rightarrow> int \<times> 'w kernel" where
  "handle_memory_free sv enclave s =
     (let s = touch ''enclave'' enclave s;
          pages = ocall_arg0 (enclave_at enclave s);
          paddr = ocall_arg1 (enclave_at enclave s);
          order = nat (ilog2 (unat (pages - 1)) + 1);
          count = (word_of_int (shift_one order) :: u64)
      in if count \<noteq> pages then (-1, s)
         else (0, s\<lparr>world := sv_free_pages sv (kva (sv_K sv) paddr) (push_bit 12 (of_nat order)) (world s)\<rparr>))"

text \<open>\<open>print_data[511] = 0; printk(print_data)\<close>\<close>

definition print_buffer :: "u64 \<Rightarrow> 'w kernel \<Rightarrow> 'w kernel" where
  "print_buffer buf s =
     (let m = write_block (phys s) (buf + 511) [0]
      in s\<lparr>phys := m, printed := printed s @ [takeWhile (\<lambda>b. b \<noteq> 0) (map (\<lambda>i. m (buf + of_nat i)) [0..<512])]\<rparr>)"

definition handle_syscall :: "u64 \<Rightarrow> u64 \<Rightarrow> 'w kernel \<Rightarrow> int \<times> 'w kernel" where
  "handle_syscall enclave syscall_num s =
     (if syscall_num = SYS_write
      then let s = touch ''enclave'' enclave s;
               um = en_untrusted_mem (enclave_at enclave s);
               s = touch ''untrusted_mem'' um s
           in (0, print_buffer (um_addr (untrusted_at um s)) s)
      else (0, s))"

subsection \<open>Running\<close>

definition copy_out :: "'w services \<Rightarrow> u64 \<Rightarrow> u64 \<Rightarrow> int \<Rightarrow> 'w kernel \<Rightarrow> nat \<times> 'w kernel" where
  "copy_out sv user_ptr kaddr sz s =
     (let (r, w) = sv_copy_to_user sv user_ptr (map (\<lambda>i. phys s (kaddr + of_nat i)) [0..<size_arg sz]) (world s)
      in (r, s\<lparr>world := w\<rparr>))"

text \<open>
  Passing the user's buffer to the enclave: \<open>Some\<close> a value that the handler returns with, or
  \<open>None\<close> when it goes on.
\<close>

definition copy_in :: "'w services \<Rightarrow> u64 \<Rightarrow> u64 \<Rightarrow> int \<Rightarrow> 'w kernel \<Rightarrow> int option \<times> 'w kernel" where
  "copy_in sv enclave user_ptr sz s =
     (if user_ptr \<noteq> 0 \<and> sz > 0
      then let s = touch ''enclave'' enclave s;
               um = en_untrusted_mem (enclave_at enclave s);
               s = touch ''untrusted_mem'' um s;
               u = untrusted_at um s
           in if sz > um_size u then (Some (- EINVAL), s)
              else let m = write_block (phys s) (um_addr u) (replicate (size_arg (um_size u)) 0);
                       (r, bs) = sv_copy_from_user sv (world s) user_ptr (size_arg sz);
                       s = s\<lparr>phys := write_block m (um_addr u) bs\<rparr>
                   in (if r \<noteq> 0 then Some (- EFAULT) else None, s)
      else (None, s))"

datatype loop_end = Returns int | Ends sbiret

definition serve_ocall :: "'w services \<Rightarrow> u64 \<Rightarrow> u64 \<Rightarrow> u64 \<Rightarrow> 'w kernel \<Rightarrow> loop_end \<times> 'w kernel" where
  "serve_ocall sv enclave resume_id untrusted_mem_ptr s =
     (let s = touch ''enclave'' enclave s;
          e = enclave_at enclave s
      in if ocall_func_id e = OCALL_SYS_WRITE_ID
         then let s = print_buffer (kbuffer e) s;
                  (ret, s) = SBI_CALL sv SBI_SM_RESUME_ENCLAVE [resume_id, RESUME_FROM_OCALL, OCALL_SYS_WRITE_ID] s
              in (Ends ret, s)
         else if ocall_func_id e = OCALL_USER_DEFINED
         then let ocall_buf_size = int64 (ocall_arg0 e)
              in if untrusted_mem_ptr \<noteq> 0 \<and> ocall_buf_size > 0
                 then let um = en_untrusted_mem e;
                          s = touch ''untrusted_mem'' um s
                      in if ocall_buf_size > um_size (untrusted_at um s) then (Returns (- EINVAL), s)
                         else let (r, s) = copy_out sv untrusted_mem_ptr (um_addr (untrusted_at um s)) ocall_buf_size s
                              in (Returns (if r \<noteq> 0 then - EFAULT else RETURN_USER_FOR_OCALL), s)
                 else (Returns RETURN_USER_FOR_OCALL, s)
         else let (ret, s) = SBI_CALL sv SBI_SM_RESUME_ENCLAVE [resume_id, RESUME_FROM_OCALL] s
              in (Ends ret, s))"

fun run_loop :: "nat \<Rightarrow> 'w services \<Rightarrow> u64 \<Rightarrow> u64 \<Rightarrow> u64 \<Rightarrow> sbiret \<Rightarrow> 'w kernel \<Rightarrow> loop_end \<times> 'w kernel" where
  "run_loop fuel sv enclave resume_id untrusted_mem_ptr ret s =
     (if sbi_value ret = ENCLAVE_TIMER_IRQ \<or> sbi_value ret = ENCLAVE_OCALL
      then if fuel = 0 then (Ends ret, add_fault (Diverges ''run'') s)
           else if sbi_value ret = ENCLAVE_TIMER_IRQ
           then let s = touch ''enclave'' enclave s;
                    (ret, s) = SBI_CALL sv SBI_SM_RESUME_ENCLAVE
                      [ucast (eid (enclave_at enclave s)), RESUME_FROM_TIMER_IRQ, sv_cycles sv (world s) + DEFAULT_CLOCK_DELAY] s
                in run_loop (fuel - 1) sv enclave resume_id untrusted_mem_ptr ret s
           else (case serve_ocall sv enclave resume_id untrusted_mem_ptr s of
                   (Returns r, s) \<Rightarrow> (Returns r, s)
                 | (Ends ret, s) \<Rightarrow> run_loop (fuel - 1) sv enclave resume_id untrusted_mem_ptr ret s)
      else (Ends ret, s))"

declare run_loop.simps [simp del]

text \<open>
  What follows the loop: the results go back to the user, then the enclave is destroyed under
  the lock. The early return on a failed copy comes before the lock is taken.
\<close>

definition run_finish :: "'w services \<Rightarrow> u32 \<Rightarrow> u64 \<Rightarrow> u64 \<Rightarrow> int \<Rightarrow> loop_end \<times> 'w kernel \<Rightarrow> int \<times> 'w kernel" where
  "run_finish sv ueid enclave untrusted_mem_ptr untrusted_mem_size = (\<lambda>(le, s).
     case le of
       Returns r \<Rightarrow> (r, s)
     | Ends ret \<Rightarrow>
         let (failed, s) =
               (if untrusted_mem_ptr \<noteq> 0 \<and> untrusted_mem_size > 0
                then let s = touch ''enclave'' enclave s;
                         um = en_untrusted_mem (enclave_at enclave s);
                         s = touch ''untrusted_mem'' um s;
                         (r, s) = copy_out sv untrusted_mem_ptr (um_addr (untrusted_at um s)) untrusted_mem_size s
                     in (r \<noteq> 0, s)
                else (False, s))
         in if failed then (- EFAULT, s)
            else let s = acquire_big_lock s;
                     s = snd (destroy_enclave enclave s);
                     s = snd (enclave_idr_remove ueid s);
                     s = release_big_lock s
                 in (if sbi_error ret \<noteq> 0 then - EFAULT else int32 (sbi_value ret), s))"

definition penglai_enclave_run :: "'w services \<Rightarrow> penglai_enclave_user_param \<Rightarrow> 'w kernel \<Rightarrow> int \<times> 'w kernel" where
  "penglai_enclave_run sv up s =
     (let s = acquire_big_lock s;
          ueid = ucast (up_eid up);
          (enclave, s) = get_enclave_by_id ueid s
      in if enclave = 0 then (- EINVAL, release_big_lock s)
         else let s = touch ''enclave'' enclave s;
                  enclave_eid = eid (enclave_at enclave s);
                  s = upd_enclave enclave (\<lambda>e. e\<lparr>is_running := 1\<rparr>) s;
                  s = release_big_lock s
              in case copy_in sv enclave (up_untrusted_mem_ptr up) (up_untrusted_mem_size up) s of
                   (Some r, s) \<Rightarrow> (r, s)
                 | (None, s) \<Rightarrow>
                     let (ret, s) = SBI_CALL sv SBI_SM_RUN_ENCLAVE [ucast enclave_eid] s;
                         s = touch ''enclave'' enclave s;
                         resume_id = scast (eid (enclave_at enclave s))
                     in run_finish sv ueid enclave (up_untrusted_mem_ptr up) (up_untrusted_mem_size up)
                          (run_loop (sv_fuel sv) sv enclave resume_id (up_untrusted_mem_ptr up) ret s))"

subsection \<open>Attesting, stopping and resuming\<close>

definition report_at :: "u64 \<Rightarrow> 'w kernel \<Rightarrow> bytes" where
  "report_at a s = (case objs s a of Some (OReport bs) \<Rightarrow> bs | _ \<Rightarrow> replicate 328 0)"

definition penglai_enclave_attest ::
  "'w services \<Rightarrow> penglai_enclave_ioctl_attest_enclave \<Rightarrow> 'w kernel \<Rightarrow> int \<times> penglai_enclave_ioctl_attest_enclave \<times> 'w kernel" where
  "penglai_enclave_attest sv ap s =
     (let (_, _, _, _, _, g_report) = sv_garbage sv (world s);
          (report, s) = kmalloc sv (OReport g_report) s;
          s = acquire_big_lock s;
          (enclave, s) = get_enclave_by_id (ucast (at_eid ap)) s
      in if enclave = 0 then (- EINVAL, ap, kfree ''report'' report (release_big_lock s))
         else let s = touch ''enclave'' enclave s;
                  (ret, s) = SBI_CALL sv SBI_SM_ATTEST_ENCLAVE
                    [ucast (eid (enclave_at enclave s)), kpa (sv_K sv) report, at_nonce ap] s;
                  s = touch ''report'' report s;
                  ap = ap\<lparr>at_report := report_at report s\<rparr>
              in (int32 (sbi_value ret), ap, kfree ''report'' report (release_big_lock s)))"

definition penglai_enclave_stop :: "'w services \<Rightarrow> penglai_enclave_user_param \<Rightarrow> 'w kernel \<Rightarrow> int \<times> 'w kernel" where
  "penglai_enclave_stop sv up s =
     (let s = acquire_big_lock s;
          (enclave, s) = get_enclave_by_id (ucast (up_eid up)) s
      in if enclave = 0 then (- EINVAL, release_big_lock s)
         else let s = touch ''enclave'' enclave s;
                  (ret, s) = SBI_CALL sv SBI_SM_STOP_ENCLAVE [ucast (eid (enclave_at enclave s))] s
              in (int32 (sbi_value ret), release_big_lock s))"

definition penglai_enclave_resume :: "'w services \<Rightarrow> penglai_enclave_user_param \<Rightarrow> 'w kernel \<Rightarrow> int \<times> 'w kernel" where
  "penglai_enclave_resume sv up s =
     (let s = acquire_big_lock s;
          ueid = ucast (up_eid up);
          (enclave, s) = get_enclave_by_id ueid s
      in if enclave = 0 then (- EINVAL, release_big_lock s)
         else if up_resume_type up = USER_PARAM_RESUME_FROM_CUSTOM_OCALL
         then let s = release_big_lock s
              in case copy_in sv enclave (up_untrusted_mem_ptr up) (up_ocall_buf_size up) s of
                   (Some r, s) \<Rightarrow> (r, s)
                 | (None, s) \<Rightarrow>
                     let s = touch ''enclave'' enclave s;
                         (ret, s) = SBI_CALL sv SBI_SM_RESUME_ENCLAVE
                           [ucast (eid (enclave_at enclave s)), RESUME_FROM_OCALL, OCALL_USER_DEFINED] s;
                         s = touch ''enclave'' enclave s;
                         resume_id = scast (eid (enclave_at enclave s))
                     in run_finish sv ueid enclave (up_untrusted_mem_ptr up) (up_untrusted_mem_size up)
                          (run_loop (sv_fuel sv) sv enclave resume_id (up_untrusted_mem_ptr up) ret s)
         else let s = touch ''enclave'' enclave s;
                  (ret, s) = SBI_CALL sv SBI_SM_RESUME_ENCLAVE [ucast (eid (enclave_at enclave s)), RESUME_FROM_STOP] s
              in (int32 (sbi_value ret), release_big_lock s))"

subsection \<open>The dispatcher\<close>

text \<open>The parameter structs as bytes: little-endian fields at the offsets of the C layout.\<close>

definition user_param_of :: "bytes \<Rightarrow> penglai_enclave_user_param" where
  "user_param_of bs =
     \<lparr>up_eid = of_nat (le_nat (slice 0 8 bs)), up_elf_ptr = of_nat (le_nat (slice 8 8 bs)),
      up_elf_size = int64 (of_nat (le_nat (slice 16 8 bs))), up_stack_size = int64 (of_nat (le_nat (slice 24 8 bs))),
      up_untrusted_mem_ptr = of_nat (le_nat (slice 32 8 bs)), up_untrusted_mem_size = int64 (of_nat (le_nat (slice 40 8 bs))),
      up_ocall_buf_size = int64 (of_nat (le_nat (slice 48 8 bs))), up_resume_type = int32 (int (le_nat (slice 56 4 bs)))\<rparr>"

definition attest_param_of :: "bytes \<Rightarrow> penglai_enclave_ioctl_attest_enclave" where
  "attest_param_of bs =
     \<lparr>at_eid = of_nat (le_nat (slice 0 8 bs)), at_nonce = of_nat (le_nat (slice 8 8 bs)), at_report = slice 16 328 bs\<rparr>"

definition le_bytes :: "u64 \<Rightarrow> bytes" where
  "le_bytes w = map (\<lambda>i. ucast (drop_bit (8 * i) w)) [0..<8]"

text \<open>\<open>_IOR\<close> (direction 2) and \<open>_IOW\<close> (direction 1) with the driver's magic number.\<close>

definition ioc :: "nat \<Rightarrow> nat \<Rightarrow> nat \<Rightarrow> u32" where
  "ioc dir nr sz = of_nat (dir * 2 ^ 30 + sz * 2 ^ 16 + 0xa4 * 2 ^ 8 + nr)"

definition PENGLAI_ENCLAVE_IOC_CREATE_ENCLAVE :: u32 where "PENGLAI_ENCLAVE_IOC_CREATE_ENCLAVE = ioc 2 0 64"
definition PENGLAI_ENCLAVE_IOC_RUN_ENCLAVE :: u32 where "PENGLAI_ENCLAVE_IOC_RUN_ENCLAVE = ioc 2 1 64"
definition PENGLAI_ENCLAVE_IOC_ATTEST_ENCLAVE :: u32 where "PENGLAI_ENCLAVE_IOC_ATTEST_ENCLAVE = ioc 2 2 344"
definition PENGLAI_ENCLAVE_IOC_STOP_ENCLAVE :: u32 where "PENGLAI_ENCLAVE_IOC_STOP_ENCLAVE = ioc 2 3 64"
definition PENGLAI_ENCLAVE_IOC_RESUME_ENCLAVE :: u32 where "PENGLAI_ENCLAVE_IOC_RESUME_ENCLAVE = ioc 2 4 64"
definition PENGLAI_ENCLAVE_IOC_DESTROY_ENCLAVE :: u32 where "PENGLAI_ENCLAVE_IOC_DESTROY_ENCLAVE = ioc 1 5 64"
definition PENGLAI_ENCLAVE_IOC_DEBUG_PRINT :: u32 where "PENGLAI_ENCLAVE_IOC_DEBUG_PRINT = ioc 1 6 64"

definition IOC_SIZE :: "u32 \<Rightarrow> nat" where
  "IOC_SIZE cmd = unat (drop_bit 16 cmd AND 0x3fff)"

text \<open>The \<open>switch\<close>: the value, the struct and the state after it, or \<open>None\<close> in the default case.\<close>

definition ioctl_switch :: "'w services \<Rightarrow> u32 \<Rightarrow> bytes \<Rightarrow> 'w kernel \<Rightarrow> (int \<times> bytes \<times> 'w kernel) option" where
  "ioctl_switch sv cmd data s =
     (if cmd = PENGLAI_ENCLAVE_IOC_CREATE_ENCLAVE
      then let (ret, up, s) = penglai_enclave_create sv (user_param_of data) s
           in Some (ret, buf_write data 0 (le_bytes (up_eid up)), s)
      else if cmd = PENGLAI_ENCLAVE_IOC_RUN_ENCLAVE
      then let (ret, s) = penglai_enclave_run sv (user_param_of data) s in Some (ret, data, s)
      else if cmd = PENGLAI_ENCLAVE_IOC_ATTEST_ENCLAVE
      then let (ret, ap, s) = penglai_enclave_attest sv (attest_param_of data) s
           in Some (ret, buf_write data 16 (at_report ap), s)
      else if cmd = PENGLAI_ENCLAVE_IOC_STOP_ENCLAVE
      then let (ret, s) = penglai_enclave_stop sv (user_param_of data) s in Some (ret, data, s)
      else if cmd = PENGLAI_ENCLAVE_IOC_RESUME_ENCLAVE
      then let (ret, s) = penglai_enclave_resume sv (user_param_of data) s in Some (ret, data, s)
      else if cmd = PENGLAI_ENCLAVE_IOC_DESTROY_ENCLAVE
      then let (ret, s) = penglai_enclave_destroy sv (user_param_of data) s in Some (ret, data, s)
      else if cmd = PENGLAI_ENCLAVE_IOC_DEBUG_PRINT
      then let (ret, s) = SBI_CALL sv SBI_SM_DEBUG_PRINT [0] s in Some (int32 (sbi_value ret), data, s)
      else None)"

definition penglai_enclave_ioctl :: "'w services \<Rightarrow> u32 \<Rightarrow> u64 \<Rightarrow> 'w kernel \<Rightarrow> int \<times> 'w kernel" where
  "penglai_enclave_ioctl sv cmd args s =
     (if IOC_SIZE cmd > 1024 then (- EFAULT, s)
      else let (r, data) = sv_copy_from_user sv (world s) args (IOC_SIZE cmd)
           in if r \<noteq> 0 then (- EFAULT, s)
              else case ioctl_switch sv cmd data s of
                     None \<Rightarrow> (- EFAULT, s)
                   | Some (ret, data, s) \<Rightarrow>
                       let (r, w) = sv_copy_to_user sv args data (world s); s = s\<lparr>world := w\<rparr>
                       in (if r \<noteq> 0 then - EFAULT else ret, s))"

subsection \<open>Faults of the loader\<close>

definition crash :: "fault \<Rightarrow> bool" where
  "crash f \<longleftrightarrow> (\<exists>nm. f = NullDeref nm \<or> f = Diverges nm)"

lemma alloc_crash: "enclave_alloc_page K em m v fl = Inl f \<Longrightarrow> crash f"
  by (auto simp: enclave_alloc_page_def crash_def Let_def split: prod.splits option.splits)

lemma map_crash: "map_va2pa K em m v p fl = Inl f \<Longrightarrow> crash f"
  by (auto simp: map_va2pa_def crash_def Let_def split: prod.splits option.splits)

lemma load_page_crash: "load_page K fl contents a s = Inl f \<Longrightarrow> crash f"
  by (auto simp: load_page_def dest: alloc_crash split: prod.splits sum.splits)

lemma map_page_crash: "map_page K fl a s = Inl f \<Longrightarrow> crash f"
  by (auto simp: map_page_def dest: map_crash split: prod.splits sum.splits)

lemma for_pages_crash:
  assumes body: "\<And>a s f. body a s = Inl f \<Longrightarrow> crash f"
  shows "for_pages fuel a lim body s = Inl f \<Longrightarrow> crash f"
proof (induction fuel arbitrary: a s)
  case 0
  then show ?case by (subst (asm) for_pages.simps) (auto simp: crash_def split: if_splits)
next
  case (Suc fuel)
  then show ?case by (subst (asm) for_pages.simps) (auto dest: body split: if_splits sum.splits)
qed

lemma page_loops_crash:
  "for_pages fuel a lim (load_page K fl contents) l = Inl f \<Longrightarrow> crash f"
  "for_pages fuel a lim (map_page K fl) pl = Inl f \<Longrightarrow> crash f"
  by (erule for_pages_crash [rotated], erule load_page_crash map_page_crash)+

lemma load_crash:
  "penglai_enclave_load_NOBITS_section K a n s = Inl f \<Longrightarrow> crash f"
  "penglai_enclave_load_program K cfu i a n s = Inl f \<Longrightarrow> crash f"
  "map_untrusted_mem K v p z s = Inl f \<Longrightarrow> crash f"
  "map_kbuffer K v p z s = Inl f \<Longrightarrow> crash f"
  by (auto simp: penglai_enclave_load_NOBITS_section_def penglai_enclave_load_program_def map_untrusted_mem_def
      map_kbuffer_def dest: page_loops_crash split: sum.splits)

lemma load_sections_crash: "load_sections K cfu n p s = Inl f \<Longrightarrow> crash f"
  by (induction n arbitrary: p s) (auto simp: Let_def dest: load_crash(1) split: prod.splits sum.splits if_splits)

lemma load_segments_crash: "load_segments K cfu e n p s = Inl f \<Longrightarrow> crash f"
  by (induction n arbitrary: p s) (auto simp: Let_def dest: load_crash(2) split: prod.splits sum.splits if_splits)

lemma eapp_preprare_crash: "penglai_enclave_eapp_preprare K cfu e entry sp n s = Inl f \<Longrightarrow> crash f"
  by (auto simp: penglai_enclave_eapp_preprare_def penglai_enclave_loadelf_def Let_def
      dest: page_loops_crash load_sections_crash load_segments_crash split: prod.splits sum.splits if_splits)

subsection \<open>What a handler does to the lock and to the table of enclaves\<close>

text \<open>
  The view of the state that the lock discipline is about: the big lock, the table of
  identifiers, and how often a thread waited for the big lock it held.
\<close>

definition view :: "'w kernel \<Rightarrow> bool \<times> (u32 \<Rightarrow> u64 option) \<times> nat" where
  "view s = (big_lock s, idr_enclave s, count_list (faults s) (Deadlock ''enclave_big_lock''))"

named_theorems view_simps

lemma view_update [view_simps]:
  "view (s\<lparr>world := w\<rparr>) = view s" "view (s\<lparr>phys := m\<rparr>) = view s" "view (s\<lparr>live := l\<rparr>) = view s"
  "view (s\<lparr>objs := ob\<rparr>) = view s" "view (s\<lparr>printed := p\<rparr>) = view s" "view (s\<lparr>idr_lock := b\<rparr>) = view s"
  "view (s\<lparr>kmalloc_lock := b\<rparr>) = view s" "view (s\<lparr>phys := m, printed := p\<rparr>) = view s"
  by (simp_all add: view_def)

lemma view_add_fault: "f \<noteq> Deadlock ''enclave_big_lock'' \<Longrightarrow> view (add_fault f s) = view s"
  by (simp add: view_def add_fault_def)

lemma view_ops [view_simps]:
  "view (touch nm a s) = view s" "view (put_obj a ob s) = view s" "view (snd (kmalloc sv ob s)) = view s"
  "view (kfree nm a s) = view s" "view (lock_idr s) = view s" "view (unlock_idr s) = view s"
  "view (lock_kmalloc s) = view s" "view (unlock_kmalloc s) = view s" "view (upd_enclave a f s) = view s"
  "view (print_buffer b s) = view s" "view (snd (get_pages sv od s)) = view s" "view (snd (get_enclave_by_id u s)) = view s"
  "view (snd (copy_out sv up ka sz s)) = view s"
  by (auto simp: touch_def put_obj_def kmalloc_def kfree_def lock_idr_def unlock_idr_def lock_kmalloc_def unlock_kmalloc_def
      upd_enclave_def print_buffer_def get_pages_def get_enclave_by_id_def copy_out_def view_add_fault view_simps Let_def
      split: prod.split)

lemma view_on_mem:
  assumes "\<And>l f. g l = Inl f \<Longrightarrow> crash f"
  shows "view (snd (on_enclave_mem e g d s)) = view s"
proof -
  define t where "t = touch ''enclave_mem'' (en_enclave_mem (enclave_at e (touch ''enclave'' e s))) (touch ''enclave'' e s)"
  have t: "view t = view s" by (simp add: t_def view_simps)
  show ?thesis
  proof (cases "g (mem_at (en_enclave_mem (enclave_at e (touch ''enclave'' e s))) t, phys t)")
    case (Inl f)
    then have "view (add_fault f t) = view t"
      using assms [OF Inl] by (auto simp: crash_def intro!: view_add_fault)
    then show ?thesis using Inl t by (simp add: on_enclave_mem_def Let_def t_def)
  next
    case (Inr x)
    then show ?thesis using t by (simp add: on_enclave_mem_def Let_def t_def view_simps split: prod.split)
  qed
qed

lemma view_map [view_simps]:
  "view (snd (on_enclave_mem e (map_untrusted_mem k v p z) d s)) = view s"
  "view (snd (on_enclave_mem e (map_kbuffer k v p z) d s)) = view s"
  by (rule view_on_mem, erule load_crash)+

lemma view_preprare [view_simps]:
  "view (snd (on_enclave_mem e (\<lambda>l. case penglai_enclave_eapp_preprare k cfu ep en sp n l of
     Inl f \<Rightarrow> Inl f | Inr (r, entry, l) \<Rightarrow> Inr ((r, entry), l)) d s)) = view s"
  by (rule view_on_mem) (auto dest: eapp_preprare_crash split: sum.splits)

lemma view_alloc [view_simps]:
  "view (snd (snd (alloc_untrusted_mem sv sz p e s))) = view s" "view (snd (snd (alloc_kbuffer sv sz p e s))) = view s"
  by (simp_all add: alloc_untrusted_mem_def alloc_kbuffer_def Let_def view_simps case_prod_beta)

lemma view_destroy [view_simps]: "view (snd (destroy_enclave e s)) = view s"
  by (simp add: destroy_enclave_def Let_def view_simps)

lemma view_sbi_param [view_simps]: "view (snd (create_sbi_param k e p a z en u us fm s)) = view s"
  by (simp add: create_sbi_param_def Let_def view_simps)

text \<open>The monitor is taken to leave the lock and the table alone.\<close>

definition sbi_keeps_view :: "'w services \<Rightarrow> bool" where
  "sbi_keeps_view sv \<longleftrightarrow> (\<forall>f args s. view (snd (sv_sbi sv f args s)) = view s)"

lemma view_SBI_CALL: "sbi_keeps_view sv \<Longrightarrow> view (snd (SBI_CALL sv f args s)) = view s"
  by (simp add: SBI_CALL_def sbi_keeps_view_def)

lemma view_extend_loop:
  "sbi_keeps_view sv \<Longrightarrow> view (snd (extend_loop fuel sv od req ret pa s)) = view s"
proof (induction fuel arbitrary: ret pa s)
  case 0
  then show ?case by (subst extend_loop.simps) (simp add: view_add_fault)
next
  case (Suc fuel)
  then show ?case
    by (subst extend_loop.simps) (simp add: Let_def case_prod_beta view_SBI_CALL view_simps)
qed

lemma view_free_enclave [view_simps]: "view (snd (free_enclave e m u r s)) = view s"
  by (simp add: free_enclave_def Let_def view_simps)

lemma view_create_enclave: "sbi_keeps_view sv \<Longrightarrow> view (snd (create_enclave sv n s)) = view s"
  by (simp add: create_enclave_def create_enclave_init_def Let_def case_prod_beta view_simps view_SBI_CALL view_extend_loop
      split: option.split)

subsection \<open>The abstract table of enclaves\<close>

text \<open>
  What an \<open>ioctl\<close> call may do to the table of enclaves, seen from outside: nothing, remove an
  identifier, or enter an enclave under an unused identifier of the range.
\<close>

inductive table_step :: "(u32 \<Rightarrow> u64 option) \<Rightarrow> (u32 \<Rightarrow> u64 option) \<Rightarrow> bool" where
  stays: "table_step t t"
| removes: "table_step t (t(u := None))"
| enters: "t u = None \<Longrightarrow> ENCLAVE_IDR_MIN \<le> u \<Longrightarrow> u < ENCLAVE_IDR_MAX \<Longrightarrow> e \<noteq> 0 \<Longrightarrow> table_step t (t(u := Some e))"

text \<open>The documented behaviour of \<open>idr_alloc\<close>: an identifier it gives is not in use.\<close>

definition idr_alloc_fresh :: "'w services \<Rightarrow> bool" where
  "idr_alloc_fresh sv \<longleftrightarrow> (\<forall>t w. case sv_idr_alloc sv t w of u \<Rightarrow>
     ENCLAVE_IDR_MIN \<le> u \<longrightarrow> u < ENCLAVE_IDR_MAX \<longrightarrow> t u = None)"

definition keeps_lock :: "bool \<times> (u32 \<Rightarrow> u64 option) \<times> nat \<Rightarrow> bool \<times> (u32 \<Rightarrow> u64 option) \<times> nat \<Rightarrow> bool" where
  "keeps_lock v v' \<longleftrightarrow> \<not> fst v' \<and> table_step (fst (snd v)) (fst (snd v')) \<and> snd (snd v') = snd (snd v)"

lemma view_acquire: "view s = (False, t, n) \<Longrightarrow> view (acquire_big_lock s) = (True, t, n)"
  by (simp add: view_def acquire_big_lock_def)

lemma view_release: "view s = (b, t, n) \<Longrightarrow> view (release_big_lock s) = (False, t, n)"
  by (simp add: view_def release_big_lock_def)

lemma view_set_idr: "view (s\<lparr>idr_enclave := i\<rparr>) = (fst (view s), i, snd (snd (view s)))"
  by (simp add: view_def)

lemma idr_of_view: "idr_enclave s = fst (snd (view s))"
  by (simp add: view_def)

lemma world_lock_idr: "world (lock_idr s) = world s"
  by (simp add: lock_idr_def add_fault_def)

lemma view_idr_remove: "view s = (b, t, n) \<Longrightarrow> view (snd (enclave_idr_remove u s)) = (b, t(u := None), n)"
  by (simp add: enclave_idr_remove_def Let_def view_simps view_set_idr idr_of_view)

lemma view_idr_alloc:
  assumes "view s = (b, t, n)"
  shows "view (snd (enclave_idr_alloc sv e s)) = (b, (case sv_idr_alloc sv t (world s) of u \<Rightarrow>
    if ENCLAVE_IDR_MIN \<le> u \<and> u < ENCLAVE_IDR_MAX then t(u := Some e) else t), n)"
  using assms by (simp add: enclave_idr_alloc_def Let_def view_simps view_set_idr idr_of_view world_lock_idr)

lemma create_failed_view: "view s = (b, t, n) \<Longrightarrow> view (snd (create_failed e p s)) = (False, t, n)"
proof -
  assume "view s = (b, t, n)"
  then have "view (if e \<noteq> 0 then snd (destroy_enclave e s) else s) = (b, t, n)" by (simp add: view_simps)
  from view_release [OF this] show ?thesis by (simp add: create_failed_def Let_def view_simps)
qed

lemma stop_view: "sbi_keeps_view sv \<Longrightarrow> view s = (False, t, n) \<Longrightarrow> view (snd (penglai_enclave_stop sv up s)) = (False, t, n)"
  by (auto simp: penglai_enclave_stop_def Let_def case_prod_beta view_simps view_SBI_CALL view_acquire intro!: view_release)

lemma attest_view: "sbi_keeps_view sv \<Longrightarrow> view s = (False, t, n) \<Longrightarrow> view (snd (snd (penglai_enclave_attest sv ap s))) = (False, t, n)"
  by (auto simp: penglai_enclave_attest_def Let_def case_prod_beta view_simps view_SBI_CALL view_acquire intro!: view_release)

lemma destroy_view:
  assumes "sbi_keeps_view sv" and "view s = (False, t, n)"
  shows "view (snd (penglai_enclave_destroy sv up s)) \<in> {(False, t, n), (False, t(ucast (up_eid up) := None), n)}"
proof -
  have a: "view (acquire_big_lock s) = (True, t, n)" using assms(2) by (rule view_acquire)
  show ?thesis
    using assms(1) a
    by (auto simp: penglai_enclave_destroy_def Let_def case_prod_beta view_simps view_SBI_CALL
        intro!: view_release view_idr_remove)
qed

lemma view_copy_in [view_simps]: "view (snd (copy_in sv e p z s)) = view s"
  by (simp add: copy_in_def Let_def view_simps split: prod.split)

lemma view_serve_ocall: "sbi_keeps_view sv \<Longrightarrow> view (snd (serve_ocall sv e r p s)) = view s"
  by (simp add: serve_ocall_def Let_def case_prod_beta view_simps view_SBI_CALL)

lemma view_run_loop: "sbi_keeps_view sv \<Longrightarrow> view (snd (run_loop fuel sv e r p ret s)) = view s"
proof (induction fuel arbitrary: ret s)
  case 0
  then show ?case by (subst run_loop.simps) (simp add: view_add_fault)
next
  case (Suc fuel)
  have "view (snd (serve_ocall sv e r p s)) = view s" using Suc.prems by (rule view_serve_ocall)
  then show ?case
    using Suc by (subst run_loop.simps)
      (auto simp: Let_def case_prod_beta view_SBI_CALL view_simps split: prod.splits loop_end.split)
qed

lemma run_finish_view:
  assumes "view (snd x) = (False, t, n)"
  shows "view (snd (run_finish sv u e p z x)) \<in> {(False, t, n), (False, t(u := None), n)}"
proof (cases x)
  case (Pair le s)
  define s1 where "s1 = touch ''untrusted_mem'' (en_untrusted_mem (enclave_at e (touch ''enclave'' e s))) (touch ''enclave'' e s)"
  have s: "view s = (False, t, n)" "view s1 = (False, t, n)" using assms Pair by (simp_all add: s1_def view_simps)
  have fin: "view (release_big_lock (snd (enclave_idr_remove u (snd (destroy_enclave e (acquire_big_lock s')))))) =
      (False, t(u := None), n)" if "view s' = (False, t, n)" for s'
    using view_acquire [OF that] by (intro view_release view_idr_remove) (simp add: view_simps)
  show ?thesis
  proof (cases le)
    case (Returns r)
    then show ?thesis using Pair s by (simp add: run_finish_def)
  next
    case (Ends ret)
    have o: "view (snd (copy_out sv p a z s1)) = (False, t, n)" for a using s(2) by (simp add: view_simps)
    show ?thesis
      unfolding Pair Ends run_finish_def
      using fin [OF s(1)] fin [OF o] o by (simp add: Let_def case_prod_beta s1_def [symmetric])
  qed
qed

lemma run_view:
  assumes sbi: "sbi_keeps_view sv" and s: "view s = (False, t, n)"
  shows "view (snd (penglai_enclave_run sv up s)) \<in> {(False, t, n), (False, t(ucast (up_eid up) := None), n)}"
proof -
  let ?u = "ucast (up_eid up)"
  have a: "view (snd (get_enclave_by_id ?u (acquire_big_lock s))) = (True, t, n)"
    using view_acquire [OF s] by (simp add: view_simps)
  obtain e s1 where g: "get_enclave_by_id ?u (acquire_big_lock s) = (e, s1)" by fastforce
  define s2 where "s2 = release_big_lock (upd_enclave e (\<lambda>e. e\<lparr>is_running := 1\<rparr>) (touch ''enclave'' e s1))"
  have s2: "view s2 = (False, t, n)" unfolding s2_def using a g by (intro view_release) (simp add: view_simps)
  obtain r s3 where c: "copy_in sv e (up_untrusted_mem_ptr up) (up_untrusted_mem_size up) s2 = (r, s3)" by fastforce
  then have s3: "view s3 = (False, t, n)" using view_copy_in [of sv e _ _ s2] s2 by (metis snd_conv)
  have l: "view (snd (run_loop f sv e i p ret (touch ''enclave'' e (snd (SBI_CALL sv fn args s3))))) = (False, t, n)" for f i p ret fn args
    using s3 sbi by (simp add: view_run_loop view_simps view_SBI_CALL)
  show ?thesis
    using g a c s3 run_finish_view [OF l]
    by (auto simp: penglai_enclave_run_def Let_def case_prod_beta s2_def [symmetric] simp del: insert_iff
        intro: view_release split: option.split)
qed

lemma resume_view:
  assumes sbi: "sbi_keeps_view sv" and s: "view s = (False, t, n)"
  shows "view (snd (penglai_enclave_resume sv up s)) \<in> {(False, t, n), (False, t(ucast (up_eid up) := None), n)}"
proof -
  let ?u = "ucast (up_eid up)"
  have a: "view (snd (get_enclave_by_id ?u (acquire_big_lock s))) = (True, t, n)"
    using view_acquire [OF s] by (simp add: view_simps)
  obtain e s1 where g: "get_enclave_by_id ?u (acquire_big_lock s) = (e, s1)" by fastforce
  define s2 where "s2 = release_big_lock s1"
  have s2: "view s2 = (False, t, n)" unfolding s2_def using a g by (intro view_release) simp
  obtain r s3 where c: "copy_in sv e (up_untrusted_mem_ptr up) (up_ocall_buf_size up) s2 = (r, s3)" by fastforce
  then have s3: "view s3 = (False, t, n)" using view_copy_in [of sv e _ _ s2] s2 by (metis snd_conv)
  have l: "view (snd (run_loop f sv e i p ret (touch ''enclave'' e (snd (SBI_CALL sv fn args (touch ''enclave'' e s3)))))) = (False, t, n)"
    for f i p ret fn args using s3 sbi by (simp add: view_run_loop view_simps view_SBI_CALL)
  have d: "view (release_big_lock (snd (SBI_CALL sv fn args (touch ''enclave'' e s1)))) = (False, t, n)" for fn args
    using a g sbi by (intro view_release) (simp add: view_simps view_SBI_CALL)
  show ?thesis
    using g s2 c s3 run_finish_view [OF l] d
    by (auto simp: penglai_enclave_resume_def Let_def case_prod_beta s2_def [symmetric] simp del: insert_iff split: option.split)
qed

lemma create_finish_view:
  assumes sbi: "sbi_keeps_view sv" and fresh: "idr_alloc_fresh sv" and e: "e \<noteq> 0" and s: "view s = (True, t, n)"
  shows "\<exists>t'. table_step t t' \<and> view (snd (snd (create_finish sv up e p entry s))) = (False, t', n)"
proof -
  obtain ptr s1 where 1: "(if up_untrusted_mem_ptr up = 0 \<and> round_untrusted (up_untrusted_mem_size up) > 0
      then snd (alloc_untrusted_mem sv (word_of_int (round_untrusted (up_untrusted_mem_size up))) (up_untrusted_mem_ptr up) e s)
      else (up_untrusted_mem_ptr up, s)) = (ptr, s1)" by fastforce
  have s1: "view s1 = (True, t, n)" using s 1 view_alloc(1) by (metis snd_conv)
  define s2 where "s2 = put_obj (en_untrusted_mem (enclave_at e (touch ''enclave'' e s1)))
      (OUntrusted \<lparr>um_addr = ptr, um_size = round_untrusted (up_untrusted_mem_size up)\<rparr>)
      (touch ''untrusted_mem'' (en_untrusted_mem (enclave_at e (touch ''enclave'' e s1))) (touch ''enclave'' e s1))"
  obtain x kb s3 where 3: "alloc_kbuffer sv ENCLAVE_DEFAULT_KBUFFER_SIZE ENCLAVE_DEFAULT_KBUFFER e s2 = (x, kb, s3)"
    by (metis prod_cases3)
  have s3: "view s3 = (True, t, n)"
    using view_alloc(2) [of sv _ _ e s2] 3 s1 by (metis s2_def snd_conv view_ops(1,2))
  define s4 where "s4 = upd_enclave e (\<lambda>e. e\<lparr>kbuffer := kb, kbuffer_size := ENCLAVE_DEFAULT_KBUFFER_SIZE\<rparr>) s3"
  define em where "em = en_enclave_mem (enclave_at e s4)"
  define s5 where "s5 = put_obj em (OMem ((mem_at em (touch ''enclave_mem'' em s4))
      \<lparr>free_mem := snd (get_free_mem (free_mem (mem_at em (touch ''enclave_mem'' em s4))))\<rparr>)) (touch ''enclave_mem'' em s4)"
  define s6 where "s6 = snd (create_sbi_param (sv_K sv) e p (em_paddr (mem_at em s5)) (em_size (mem_at em s5)) entry
      DEFAULT_UNTRUSTED_PTR (word_of_int (round_untrusted (up_untrusted_mem_size up)))
      (kpa (sv_K sv) (fst (get_free_mem (free_mem (mem_at em (touch ''enclave_mem'' em s4)))))) s5)"
  have s6: "view s6 = (True, t, n)" using s3 by (simp add: s6_def s5_def s4_def view_simps)
  obtain ret s7 where 7: "SBI_CALL sv SBI_SM_CREATE_ENCLAVE [kpa (sv_K sv) p] s6 = (ret, s7)" by fastforce
  have s7: "view s7 = (True, t, n)" using view_SBI_CALL [OF sbi] s6 7 by (metis snd_conv)
  have eq: "create_finish sv up e p entry s =
      (if sbi_error ret \<noteq> 0 then let (r, s) = create_failed e p s7 in (r, up, s)
       else let (ueid, s) = enclave_idr_alloc sv e s7;
                s = upd_enclave e (\<lambda>e. e\<lparr>is_running := 0\<rparr>) s;
                s = release_big_lock s;
                s = kfree ''enclave_sbi_param'' p s
            in (int32 (sbi_value ret), up\<lparr>up_eid := ucast ueid\<rparr>, s))"
    unfolding create_finish_def
    by (simp add: Let_def case_prod_beta 1 3 7 s2_def [symmetric] s4_def [symmetric] em_def [symmetric] s5_def [symmetric] s6_def [symmetric])
  show ?thesis
  proof (cases "sbi_error ret = 0")
    case False
    then have "view (snd (snd (create_finish sv up e p entry s))) = (False, t, n)"
      unfolding eq using create_failed_view [OF s7] by (simp add: case_prod_beta)
    then show ?thesis using stays by blast
  next
    case True
    let ?u = "sv_idr_alloc sv t (world s7)"
    let ?t = "if ENCLAVE_IDR_MIN \<le> ?u \<and> ?u < ENCLAVE_IDR_MAX then t(?u := Some e) else t"
    have "view (snd (enclave_idr_alloc sv e s7)) = (True, ?t, n)" using view_idr_alloc [OF s7] by simp
    then have "view (snd (snd (create_finish sv up e p entry s))) = (False, ?t, n)"
      unfolding eq using True by (auto simp: Let_def case_prod_beta view_simps intro!: view_release)
    moreover have "table_step t ?t" using fresh e by (auto simp: idr_alloc_fresh_def intro: table_step.intros)
    ultimately show ?thesis by blast
  qed
qed

lemma create_view:
  assumes sbi: "sbi_keeps_view sv" and fresh: "idr_alloc_fresh sv" and s: "view s = (False, t, n)"
  shows "\<exists>t'. table_step t t' \<and> view (snd (snd (penglai_enclave_create sv up s))) = (False, t', n)"
proof -
  have st: "\<exists>t'. table_step t t' \<and> view x = (False, t', n)" if "view x = (False, t, n)" for x
    using that stays by blast
  have m: "view (snd (kmalloc sv ob s)) = (False, t, n)" for ob using s by (simp add: view_simps)
  have en: "view (snd (create_enclave sv k (acquire_big_lock (snd (kmalloc sv ob s))))) = (True, t, n)" for k ob
    using view_acquire [OF m] sbi by (simp add: view_create_enclave)
  have pr: "view (snd (on_enclave_mem e (\<lambda>l. case penglai_enclave_eapp_preprare kk cfu ep en sp x l of
       Inl f \<Rightarrow> Inl f | Inr (r, entry, l) \<Rightarrow> Inr ((r, entry), l)) d
      (snd (create_enclave sv k (acquire_big_lock (snd (kmalloc sv ob s))))))) = (True, t, n)" for e kk cfu ep en sp x d k ob
    unfolding view_preprare by (rule en)
  show ?thesis
    unfolding penglai_enclave_create_def
    by (auto simp: Let_def case_prod_beta intro!: st s m create_failed_view [OF en] create_failed_view [OF pr]
        create_finish_view [OF sbi fresh _ pr])
qed

lemma table_step_range:
  assumes "table_step t t'" and "\<And>u e. t u = Some e \<Longrightarrow> ENCLAVE_IDR_MIN \<le> u \<and> u < ENCLAVE_IDR_MAX \<and> e \<noteq> 0"
  shows "t' u = Some e \<Longrightarrow> ENCLAVE_IDR_MIN \<le> u \<and> u < ENCLAVE_IDR_MAX \<and> e \<noteq> 0"
  using assms by (cases rule: table_step.cases) (auto split: if_splits)

lemma switch_view:
  assumes sbi: "sbi_keeps_view sv" and fresh: "idr_alloc_fresh sv" and s: "view s = (False, t, n)"
    and sw: "ioctl_switch sv cmd data s = Some (ret, data', s')"
  shows "\<exists>t'. table_step t t' \<and> view s' = (False, t', n)"
proof -
  have two: "\<exists>t'. table_step t t' \<and> view x = (False, t', n)"
    if "view x \<in> {(False, t, n), (False, t(u := None), n)}" for x u using that table_step.intros by fastforce
  have one: "\<exists>t'. table_step t t' \<and> view x = (False, t', n)" if "view x = (False, t, n)" for x using that stays by blast
  have sb: "view (snd (SBI_CALL sv f a s)) = (False, t, n)" for f a using view_SBI_CALL [OF sbi] s by simp
  show ?thesis
    using sw
    by (auto simp: ioctl_switch_def Let_def case_prod_beta split: if_splits
        intro: create_view [OF sbi fresh s] two [OF run_view [OF sbi s]] one [OF attest_view [OF sbi s]]
          one [OF stop_view [OF sbi s]] two [OF resume_view [OF sbi s]] two [OF destroy_view [OF sbi s]]
          one [OF sb])
qed

lemma ioctl_view:
  assumes "sbi_keeps_view sv" and "idr_alloc_fresh sv" and s: "view s = (False, t, n)"
  shows "\<exists>t'. table_step t t' \<and> view (snd (penglai_enclave_ioctl sv cmd args s)) = (False, t', n)"
proof (cases "ioctl_switch sv cmd (snd (sv_copy_from_user sv (world s) args (IOC_SIZE cmd))) s")
  case None
  then have "view (snd (penglai_enclave_ioctl sv cmd args s)) = (False, t, n)"
    using s by (simp add: penglai_enclave_ioctl_def case_prod_beta)
  then show ?thesis using stays by blast
next
  case (Some x)
  obtain ret data' s' where x: "x = (ret, data', s')" by (metis prod_cases3)
  then obtain t' where t': "table_step t t'" "view s' = (False, t', n)" using switch_view [OF assms] Some by blast
  have "view (snd (penglai_enclave_ioctl sv cmd args s)) \<in> {(False, t, n), (False, t', n)}"
    using s t'(2) Some x by (simp add: penglai_enclave_ioctl_def case_prod_beta Let_def view_simps)
  then show ?thesis using t'(1) stays by blast
qed

subsection \<open>Properties\<close>


lemma example_sbi: "sbi_keeps_view (example_services val)" and example_idr: "idr_alloc_fresh (example_services val)"
  by (simp_all add: sbi_keeps_view_def idr_alloc_fresh_def example_services_def view_def ENCLAVE_IDR_MIN_def ENCLAVE_IDR_MAX_def)


text \<open>The states a sequence of calls can reach after the module was loaded.\<close>

inductive reachable :: "'w services \<Rightarrow> 'w kernel \<Rightarrow> bool" for sv where
  init: "\<not> big_lock s \<Longrightarrow> idr_enclave s = (\<lambda>_. None) \<Longrightarrow> faults s = [] \<Longrightarrow> reachable sv s"
| call: "reachable sv s \<Longrightarrow> reachable sv (snd (penglai_enclave_ioctl sv cmd args s))"



text \<open>
  A call for an identifier that is not in use: \<open>run\<close>, \<open>stop\<close>, \<open>resume\<close> and
  \<open>attest\<close> return \<open>-EINVAL\<close>, \<open>destroy\<close> returns 0, as if it had destroyed something; lock
  and table are as before.
\<close>

lemma missing_enclave:
  assumes "idr_enclave s (ucast (up_eid up)) = None" and "\<not> big_lock s" and "at_eid ap = up_eid up"
  shows "fst (penglai_enclave_run sv up s) = -22 \<and> fst (penglai_enclave_stop sv up s) = -22 \<and>
    fst (penglai_enclave_resume sv up s) = -22 \<and> fst (penglai_enclave_attest sv ap s) = -22 \<and>
    fst (penglai_enclave_destroy sv up s) = 0 \<and>
    view (snd (penglai_enclave_run sv up s)) = view s \<and> view (snd (penglai_enclave_stop sv up s)) = view s \<and>
    view (snd (penglai_enclave_resume sv up s)) = view s \<and> view (snd (snd (penglai_enclave_attest sv ap s))) = view s \<and>
    view (snd (penglai_enclave_destroy sv up s)) = view s"
proof -
  have s: "view s = (False, idr_enclave s, count_list (faults s) (Deadlock ''enclave_big_lock''))"
    using assms(2) by (simp add: view_def)
  have g: "fst (get_enclave_by_id (ucast (up_eid up)) (acquire_big_lock x)) = 0" if "idr_enclave x = idr_enclave s" for x :: "'a kernel"
    using that assms(1) by (simp add: get_enclave_by_id_def lock_idr_def add_fault_def acquire_big_lock_def Let_def)
  have k: "idr_enclave (snd (kmalloc sv ob s)) = idr_enclave s" "view (snd (kmalloc sv ob s)) = view s" for ob
    by (simp_all add: view_simps) (simp add: kmalloc_def put_obj_def Let_def case_prod_beta)
  have r: "view (release_big_lock (snd (get_enclave_by_id u (acquire_big_lock x)))) = view s" if "view x = view s" for x :: "'a kernel" and u
    using that s view_acquire [of x] view_release by (metis view_ops(12))
  show ?thesis
    using g [of s] g [OF k(1)] r [of s] r [OF k(2)] assms(3)
    by (simp add: penglai_enclave_run_def penglai_enclave_stop_def penglai_enclave_resume_def penglai_enclave_attest_def
        penglai_enclave_destroy_def Let_def case_prod_beta EINVAL_def view_simps)
qed

definition example_param :: penglai_enclave_user_param where
  "example_param = \<lparr>up_eid = 0x1000, up_elf_ptr = 0x400000, up_elf_size = 123, up_stack_size = 4096, up_untrusted_mem_ptr = 0x500000,
     up_untrusted_mem_size = 8192, up_ocall_buf_size = 0, up_resume_type = 0\<rparr>"

lemma missing_enclave_example:
  "fst (penglai_enclave_run (example_services 0) example_param example_kernel) = -22 \<and>
   fst (penglai_enclave_destroy (example_services 0) example_param example_kernel) = 0"
  using missing_enclave [of example_kernel example_param "\<lparr>at_eid = 0x1000, at_nonce = 0, at_report = []\<rparr>" "example_services 0"]
  by (simp add: example_kernel_def example_param_def)

lemma int32_id: "0 \<le> x \<Longrightarrow> x < 2 ^ 31 \<Longrightarrow> int32 x = x"
  unfolding int32_def sint_uint by (simp add: uint_word_of_int_eq take_bit_int_eq_self signed_take_bit_int_eq_self)

lemma PAGE_UP_div: "n < 2 ^ 63 \<Longrightarrow> unat (PAGE_UP (of_nat n) div 4096) = (n + 4095) div 4096"
proof -
  assume n: "n < 2 ^ 63"
  have m: "(4095 :: u64) = mask 12" by (simp add: mask_eq_exp_minus_1)
  have "unat (of_nat n + 4095 :: u64) = n + 4095" using n by (simp add: unat_word_ariths(1) unat_of_nat64)
  moreover have "PAGE_UP x = push_bit 12 (drop_bit 12 (x + 4095))" for x
    unfolding PAGE_UP_def m by (rule bit_word_eqI) (auto simp: bit_simps)
  moreover have "push_bit 12 (drop_bit 12 x) div 4096 = drop_bit 12 x" for x :: u64
  proof -
    have "push_bit 12 (drop_bit 12 x) div 4096 = drop_bit 12 (push_bit 12 (drop_bit 12 x))" by (simp add: drop_bit_eq_div)
    also have "\<dots> = drop_bit 12 x" by (rule bit_word_eqI) (auto simp: bit_simps dest: bit_imp_le_length)
    finally show ?thesis .
  qed
  ultimately show ?thesis by simp (simp only: unsigned_drop_bit_eq, use n in \<open>simp add: drop_bit_eq_div take_bit_eq_mod\<close>)
qed

text \<open>
  C34: The number of pages asked of the monitor, for sizes within the limits: a power of two
  that is at least, and less than twice, the pages of text and stack and the fifteen extra
  ones, and whose size in bytes fits an \<open>int\<close>.
\<close>

theorem total_pages_bounds:
  assumes "elf_size \<le> 512 * 1024 * 1024" and "stack_size \<le> 64 * 1024 * 1024"
  defines "need \<equiv> (elf_size + 4095) div 4096 + (stack_size + 4095) div 4096 + 15"
  defines "pages \<equiv> shift_one (enclave_order (total_enclave_page (int elf_size) (int stack_size)))"
  shows "unat (total_enclave_page (int elf_size) (int stack_size)) = need \<and> (\<exists>k. pages = 2 ^ k) \<and>
    int need \<le> pages \<and> pages < 2 * int need \<and> int32 (pages * 4096) = pages * 4096"
proof -
  let ?tp = "total_enclave_page (int elf_size) (int stack_size)"
  have need: "need \<le> 150000" using assms(1,2) unfolding need_def by simp
  have "unat (PAGE_UP (of_nat elf_size) div 4096 + PAGE_UP (of_nat stack_size) div 4096 + 15 :: u64) = need"
    using PAGE_UP_div [of elf_size] PAGE_UP_div [of stack_size] assms(1,2) unfolding need_def
    by (simp add: unat_word_ariths(1))
  then have tp: "unat ?tp = need"
    unfolding total_enclave_page_def using need by (simp add: unsigned_ucast_eq take_bit_nat_eq_self)
  have "need \<ge> 15" by (simp add: need_def)
  then have m1: "unat (?tp - 1) = need - 1" using tp by (subst unat_sub) (simp_all add: word_le_nat_alt)
  define k where "k = bit_count (need - 1)"
  have o: "enclave_order ?tp = k" unfolding enclave_order_def m1 ilog2_def k_def by simp
  have lo: "need - 1 < 2 ^ k" unfolding k_def by (rule less_bit_count)
  have hi: "2 ^ (k - 1) \<le> need - 1" unfolding k_def using \<open>need \<ge> 15\<close> by (intro bit_count_le) simp
  have "0 < k" unfolding k_def using \<open>need \<ge> 15\<close> by (intro bit_count_pos) simp
  then have two: "(2 :: nat) ^ k = 2 * 2 ^ (k - 1)" by (metis power_Suc Suc_diff_1)
  then have b: "2 ^ k < 2 * need" "(2 :: nat) ^ k < 2 ^ 19" using hi need \<open>need \<ge> 15\<close> by simp_all
  then have "k < 19" by (rule_tac power_less_imp_less_exp [of 2]) simp_all
  have k18: "(2 :: int) ^ k \<le> 2 ^ 18" using \<open>k < 19\<close> by (intro power_increasing) simp_all
  then have "pages = 2 ^ k" unfolding pages_def shift_one_def o by (intro int32_id) simp_all
  moreover have "need \<le> 2 ^ k" using lo by linarith
  then have "int need \<le> 2 ^ k" "2 ^ k < 2 * int need" using b(1) by (simp_all flip: of_nat_le_iff of_nat_less_iff [where 'a = int])
  ultimately show ?thesis using tp k18 int32_id [of "pages * 4096"] by auto
qed

theorem total_pages_bounds_witness:
  "unat (total_enclave_page (int 100000) (int 1048576)) = 296 \<and>
   (\<exists>k. shift_one (enclave_order (total_enclave_page (int 100000) (int 1048576))) = 2 ^ k)"
  using total_pages_bounds [of 100000 1048576] by simp

lemma segments_memsize_ones:
  "phdrs_at cfu ptr hs \<Longrightarrow> \<forall>h \<in> set hs. p_filesz h = 1 \<Longrightarrow> sz + int (length hs) < 2 ^ 31 \<Longrightarrow> 0 \<le> sz \<Longrightarrow>
    segments_memsize cfu (length hs) ptr sz = (0, sz + int (length hs))"
proof (induction hs arbitrary: ptr sz)
  case (Cons h hs)
  obtain bs where c: "cfu ptr 56 = (0, bs)" "elf_phdr_of bs = h" using Cons.prems(1) by (cases "cfu ptr 56") auto
  have "int32 (uint (p_filesz h)) = 1" using int32_small [of "p_filesz h"] Cons.prems(2) by simp
  moreover have "int32 (sz + 1) = sz + 1" using Cons.prems(3,4) by (intro int32_id) simp_all
  ultimately show ?case using Cons.IH [of "ptr + 56" "sz + 1"] Cons.prems c by simp
qed simp

text \<open>
  The size estimate does not cover the loader's demand. \<open>penglai_enclave_elfmemsize\<close> adds
  the sizes of the segments without rounding each up to pages: for sixty-four segments of one
  byte, each of which the loader gives a page of its own, it says 64 bytes, for which, with a
  stack of one page, the driver asks for 32 pages in all.
\<close>

lemma page_demand_underestimated:
  assumes "phdrs_at cfu ptr hs" and "\<forall>h \<in> set hs. p_filesz h = 1" and "length hs = 64"
  shows "segments_memsize cfu 64 ptr 0 = (0, 64) \<and>
    shift_one (enclave_order (total_enclave_page 64 4096)) = 32 \<and>
    length (concat (map (segment_pages user elf_ptr) hs)) = 64"
proof -
  have "length (concat (map (segment_pages user elf_ptr) gs)) = length gs" if "\<forall>h \<in> set gs. p_filesz h = 1" for gs
    using that by (induction gs) (simp_all add: segment_pages_def)
  moreover have "segments_memsize cfu 64 ptr 0 = (0, 64)"
    using segments_memsize_ones [of cfu ptr hs 0] assms by simp
  moreover have "shift_one (enclave_order (total_enclave_page 64 4096)) = 32" by code_simp
  ultimately show ?thesis using assms(2,3) by simp
qed

definition example_tiny :: user_mem where
  "example_tiny a n = (0, replicate 32 0 @ [1, 0, 0, 0, 0, 0, 0, 0] @ replicate 16 0)"

lemma example_tiny_at: "phdrs_at example_tiny ptr (replicate n \<lparr>p_offset = 0, p_vaddr = 0, p_filesz = 1\<rparr>)"
proof (induction n arbitrary: ptr)
  case (Suc n)
  have "replicate 32 (0 :: u8) = replicate 8 0 @ replicate 24 0" by (simp add: eval_nat_numeral)
  then show ?case
    using Suc by (simp add: example_tiny_def elf_phdr_of_def slice_def le_nat_def zeros)
qed simp

lemma page_demand_underestimated_example:
  "segments_memsize example_tiny 64 0x400000 0 = (0, 64) \<and>
   length (concat (map (segment_pages example_user 0x400000) (replicate 64 \<lparr>p_offset = 0, p_vaddr = 0, p_filesz = 1\<rparr>))) = 64"
  using page_demand_underestimated [OF example_tiny_at, of 64 "0x400000" example_user "0x400000"] by simp

text \<open>
  C30: An enclave whose run was refused can no longer be destroyed. When the user's buffer is
  larger than the enclave's, \<open>penglai_enclave_run\<close> returns \<open>-EINVAL\<close> but leaves the flag
  that the enclave is running; \<open>penglai_enclave_destroy\<close> then leaves the enclave and its table
  entry to a run that will not come.
\<close>

theorem refused_run_blocks_destroy:
  assumes e: "idr_enclave s (ucast (up_eid up)) = Some e" "e \<noteq> 0" "live s e" and ob: "objs s e = Some (OEnclave x)"
    and nl: "\<not> big_lock s" "\<not> idr_lock s" and buf: "up_untrusted_mem_ptr up \<noteq> 0" "0 < up_untrusted_mem_size up"
      "um_size (untrusted_at (en_untrusted_mem x) s) < up_untrusted_mem_size up"
    and neq: "en_untrusted_mem x \<noteq> e"
    and sbi: "sv_sbi sv SBI_SM_DESTROY_ENCLAVE = (\<lambda>args s. (ret, s))"
  shows "\<exists>s1. penglai_enclave_run sv up s = (-22, s1) \<and> is_running (enclave_at e s1) = 1 \<and>
    (\<exists>s2. penglai_enclave_destroy sv up s1 = (int32 (sbi_value ret), s2) \<and> live s2 e \<and> idr_enclave s2 (ucast (up_eid up)) = Some e)"
proof -
  define u where "u = en_untrusted_mem x"
  define s1 where "s1 = touch ''untrusted_mem'' u (s\<lparr>objs := (objs s)(e := Some (OEnclave (x\<lparr>is_running := 1\<rparr>)))\<rparr>)"
  have keep: "objs s1 e = Some (OEnclave (x\<lparr>is_running := 1\<rparr>))" "live s1 e" "idr_enclave s1 = idr_enclave s"
      "\<not> big_lock s1" "\<not> idr_lock s1"
    using e nl by (simp_all add: s1_def touch_def add_fault_def)
  have "penglai_enclave_run sv up s = (-22, s1)"
  proof -
    have g: "get_enclave_by_id (ucast (up_eid up)) (acquire_big_lock s) = (e, s\<lparr>big_lock := True\<rparr>)"
      using e nl by (simp add: get_enclave_by_id_def acquire_big_lock_def lock_idr_def unlock_idr_def Let_def)
    define s0 where "s0 = s\<lparr>objs := (objs s)(e := Some (OEnclave (x\<lparr>is_running := 1\<rparr>)))\<rparr>"
    have r: "release_big_lock (upd_enclave e (\<lambda>e. e\<lparr>is_running := 1\<rparr>) (touch ''enclave'' e (s\<lparr>big_lock := True\<rparr>))) = s0"
      using e ob nl by (simp add: release_big_lock_def upd_enclave_def touch_def put_obj_def enclave_at_def s0_def Let_def)
    have t: "touch ''enclave'' e s0 = s0" "enclave_at e s0 = x\<lparr>is_running := 1\<rparr>"
      using e by (simp_all add: touch_def s0_def enclave_at_def)
    have un: "untrusted_at u s1 = untrusted_at u s"
      using neq by (simp add: s1_def touch_def add_fault_def untrusted_at_def u_def)
    have "copy_in sv e (up_untrusted_mem_ptr up) (up_untrusted_mem_size up) s0 = (Some (- EINVAL), s1)"
      using buf un [unfolded u_def] t
      by (simp add: copy_in_def Let_def s1_def [folded s0_def, symmetric] u_def [symmetric])
    then show ?thesis using g r e by (simp add: penglai_enclave_run_def Let_def EINVAL_def)
  qed
  moreover have "penglai_enclave_destroy sv up s1 = (int32 (sbi_value ret), s1)"
  proof -
    have g: "get_enclave_by_id (ucast (up_eid up)) (acquire_big_lock s1) = (e, s1\<lparr>big_lock := True\<rparr>)"
      using e keep by (simp add: get_enclave_by_id_def acquire_big_lock_def lock_idr_def unlock_idr_def Let_def)
    show ?thesis
      using g e(2) keep sbi
      by (simp add: penglai_enclave_destroy_def Let_def touch_def SBI_CALL_def enclave_at_def release_big_lock_def)
  qed
  ultimately show ?thesis using keep e by (auto simp: enclave_at_def)
qed

theorem refused_run_blocks_destroy_witness:
  "\<exists>s1 s2. penglai_enclave_run (example_services 0) example_param (example_created\<lparr>idr_enclave := (\<lambda>_. None)(0x1000 := Some 0x100)\<rparr>) = (-22, s1) \<and>
    penglai_enclave_destroy (example_services 0) example_param s1 = (0, s2) \<and> idr_enclave s2 0x1000 = Some 0x100"
proof -
  let ?s = "example_created\<lparr>idr_enclave := (\<lambda>_. None)(0x1000 := Some 0x100)\<rparr>"
  have "sv_sbi (example_services 0) SBI_SM_DESTROY_ENCLAVE = (\<lambda>args s. (\<lparr>sbi_error = 0, sbi_value = 0\<rparr>, s))"
    by (intro ext) (simp add: example_services_def SBI_SM_DESTROY_ENCLAVE_def SBI_SM_ALLOC_ENCLAVE_MEM_def)
  then show ?thesis
    using refused_run_blocks_destroy [of ?s example_param "0x100" _ "example_services 0" "\<lparr>sbi_error = 0, sbi_value = 0\<rparr>"]
    by (fastforce simp: example_created_def example_kernel_def example_param_def untrusted_at_def int32_def)
qed

end
