(* ===== verification/Driver_Init.thy ===== *)
theory Driver_Init
  imports Enclave_Ioctl
begin

text \<open>
  Loading and unloading the module, \<^verbatim>\<open>penglai-enclave-driver.c\<close>. Registering the device,
  allocating the contiguous memory and the call that hands it to the monitor are parameters
  that give their results; the state says what is registered and allocated.
\<close>

subsection \<open>State and operations\<close>

definition CMA_SIZE :: u64 where "CMA_SIZE = push_bit 28 1"

record cma_mem_t =
  cma_start_va :: u64
  cma_start_pa :: u64
  cma_handle :: u64

record driver =
  dv_registered :: bool
  dv_allocated :: "(u64 \<times> u64 \<times> u64) list"
  dv_cma :: cma_mem_t
  dv_faults :: "fault list"

definition enclave_mmap :: int where
  "enclave_mmap = 0"

text \<open>Deregistering a device that is not registered removes an element of no list.\<close>

definition misc_deregister :: "driver \<Rightarrow> driver" where
  "misc_deregister d = (if dv_registered d then d\<lparr>dv_registered := False\<rparr>
     else d\<lparr>dv_faults := dv_faults d @ [UseAfterFree ''enclave_dev'']\<rparr>)"

definition enclave_ioctl_init ::
  "u64 \<Rightarrow> int \<Rightarrow> (u64 \<Rightarrow> u64 \<times> u64) \<Rightarrow> (nat \<Rightarrow> u64 list \<Rightarrow> sbiret) \<Rightarrow> driver \<Rightarrow> int \<times> driver" where
  "enclave_ioctl_init K misc_register dma_alloc_coherent sbi d =
     (if misc_register < 0 then (misc_register, misc_deregister d)
      else let d = d\<lparr>dv_registered := True\<rparr>;
               (cma_addr, handle) = dma_alloc_coherent CMA_SIZE;
               d = d\<lparr>dv_cma := (dv_cma d)\<lparr>cma_handle := handle\<rparr>\<rparr>
           in if cma_addr = 0 then (-1, misc_deregister d)
              else let d = d\<lparr>dv_allocated := (CMA_SIZE, cma_addr, handle) # dv_allocated d,
                             dv_cma := (dv_cma d)\<lparr>cma_start_va := cma_addr, cma_start_pa := kpa K cma_addr\<rparr>\<rparr>;
                       sbiret = sbi SBI_SM_INIT [kpa K cma_addr, CMA_SIZE];
                       ret = int32 (sbi_value sbiret)
                   in if sbi_error sbiret \<noteq> 0 then (ret, misc_deregister d) else (0, d))"

definition enclave_ioctl_exit :: "driver \<Rightarrow> driver" where
  "enclave_ioctl_exit d =
     (let block = (CMA_SIZE, cma_start_va (dv_cma d), cma_handle (dv_cma d));
          d = (if block \<in> set (dv_allocated d) then d\<lparr>dv_allocated := remove1 block (dv_allocated d)\<rparr>
               else d\<lparr>dv_faults := dv_faults d @ [DoubleFree ''cma_mem'']\<rparr>)
      in misc_deregister d)"

subsection \<open>Properties\<close>


definition example_driver :: driver where
  "example_driver = \<lparr>dv_registered = False, dv_allocated = [], dv_cma = \<lparr>cma_start_va = 0, cma_start_pa = 0, cma_handle = 0\<rparr>, dv_faults = []\<rparr>"


text \<open>
  The failures of loading. A device that does not register is deregistered all the same.
  When the monitor refuses the memory, the device is deregistered but the memory stays
  allocated, and loading returns the value the monitor gave: for the value 0 the module counts
  as loaded although its device is gone, and unloading it deregisters the device again.
\<close>

lemma init_failures:
  assumes "\<not> dv_registered d"
  shows "(reg < 0 \<longrightarrow> enclave_ioctl_init K reg dma sbi d = (reg, d\<lparr>dv_faults := dv_faults d @ [UseAfterFree ''enclave_dev'']\<rparr>)) \<and>
    (0 \<le> reg \<longrightarrow> dma 0x10000000 = (a, h) \<longrightarrow> a \<noteq> 0 \<longrightarrow> sbi 100 [kpa K a, 0x10000000] = \<lparr>sbi_error = err, sbi_value = 0\<rparr> \<longrightarrow> err \<noteq> 0 \<longrightarrow>
       (\<exists>d'. enclave_ioctl_init K reg dma sbi d = (0, d') \<and> \<not> dv_registered d' \<and>
          dv_allocated d' = (0x10000000, a, h) # dv_allocated d \<and>
          dv_faults (enclave_ioctl_exit d') = dv_faults d @ [UseAfterFree ''enclave_dev'']))"
  using assms
  by (auto simp: enclave_ioctl_init_def enclave_ioctl_exit_def misc_deregister_def CMA_SIZE_def SBI_SM_INIT_def Let_def int32_def)

lemma init_failures_example:
  "\<exists>d'. enclave_ioctl_init 0 0 (\<lambda>sz. (0x90000000, 7)) (\<lambda>f args. \<lparr>sbi_error = -1, sbi_value = 0\<rparr>) example_driver = (0, d') \<and>
     \<not> dv_registered d' \<and> dv_allocated d' = [(0x10000000, 0x90000000, 7)]"
  using init_failures [of example_driver 0 0 "\<lambda>sz. (0x90000000, 7)" "\<lambda>f args. \<lparr>sbi_error = -1, sbi_value = 0\<rparr>" "0x90000000" 7 "-1"]
  by (auto simp: example_driver_def)

end
