(* ===== verification/Host.thy ===== *)
theory Host
  imports Enclave_Ioctl
begin

text \<open>
  The host library an application uses to start enclaves: \<^verbatim>\<open>elf.c\<close> (the file to load),
  \<^verbatim>\<open>param.c\<close> (parameters and untrusted memory) and \<^verbatim>\<open>penglai-enclave.c\<close> (the calls to
  the driver). System calls are parameters. What the library relies on of the device is the
  locale \<open>enclave_device\<close>; it is interpreted on the handlers of the driver.
\<close>

subsection \<open>The ELF file\<close>

record elf_args =
  ea_fd :: int
  ea_size :: u64
  ea_ptr :: u64

definition MAP_FAILED :: u64 where "MAP_FAILED = -1"

definition elf_args_init :: "int \<Rightarrow> int \<times> u64 \<Rightarrow> (u64 \<Rightarrow> int \<Rightarrow> u64) \<Rightarrow> elf_args \<Rightarrow> elf_args" where
  "elf_args_init open_ret fstat_ret mmap args =
     (let args = args\<lparr>ea_fd := open_ret\<rparr>
      in if ea_fd args < 0 then args
         else if fst fstat_ret \<noteq> 0 then args
         else let args = args\<lparr>ea_size := snd fstat_ret\<rparr>
              in if ea_size args \<le> 0 then args
                 else args\<lparr>ea_ptr := mmap (ea_size args) (ea_fd args)\<rparr>)"

text \<open>Closing gives the descriptor and the mapping that were released.\<close>

definition elf_args_destroy :: "elf_args \<Rightarrow> int \<times> u64 \<times> u64" where
  "elf_args_destroy args = (ea_fd args, ea_ptr args, ea_size args)"

definition elf_valid :: "elf_args \<Rightarrow> bool" where
  "elf_valid args \<longleftrightarrow> ea_fd args \<ge> 0 \<and> ea_size args > 0 \<and> ea_ptr args \<noteq> 0"

subsection \<open>Parameters\<close>

definition DEFAULT_STACK_SIZE :: u64 where "DEFAULT_STACK_SIZE = 1024 * 1024"
definition DEFAULT_UNTRUSTED_SIZE :: u64 where "DEFAULT_UNTRUSTED_SIZE = 8192"

record enclave_args =
  ar_stack_size :: u64
  ar_untrusted_mem_ptr :: u64
  ar_untrusted_mem_size :: u64

definition enclave_param_init :: "enclave_args \<Rightarrow> enclave_args" where
  "enclave_param_init args = args\<lparr>ar_stack_size := DEFAULT_STACK_SIZE, ar_untrusted_mem_ptr := DEFAULT_UNTRUSTED_PTR,
     ar_untrusted_mem_size := DEFAULT_UNTRUSTED_SIZE\<rparr>"

definition enclave_param_destroy :: "enclave_args \<Rightarrow> enclave_args" where
  "enclave_param_destroy args = args"

text \<open>
  The library's state: the next address for untrusted memory and whether the mutex is held.
  \<open>mutex_ret\<close> is the result of locking. The result is the address, 0 for a failure, with the
  range of bytes that are cleared.
\<close>

record host_state =
  current_untrusted_ptr :: u64
  mutex_held :: bool

definition host_alloc_untrusted_mem ::
  "int \<Rightarrow> (u64 \<Rightarrow> u64 \<Rightarrow> u64) \<Rightarrow> enclave_args \<Rightarrow> u64 \<Rightarrow> host_state \<Rightarrow> u64 \<times> (u64 \<times> u64) option \<times> enclave_args \<times> host_state" where
  "host_alloc_untrusted_mem mutex_ret mmap args sz s =
     (let sz = (sz + 4 * 1024) AND NOT (4 * 1024)
      in if mutex_ret \<noteq> 0 then (0, None, args, s)
         else let s = s\<lparr>mutex_held := True\<rparr>;
                  cur = current_untrusted_ptr s;
                  ptr = mmap cur (DEFAULT_UNTRUSTED_SIZE + sz)
              in if ptr = MAP_FAILED then (0, None, args, s\<lparr>mutex_held := False\<rparr>)
                 else if ptr \<noteq> cur then (0, None, args, s\<lparr>mutex_held := False\<rparr>)
                 else let args = args\<lparr>ar_untrusted_mem_ptr := cur + DEFAULT_UNTRUSTED_SIZE, ar_untrusted_mem_size := sz\<rparr>;
                          s = s\<lparr>current_untrusted_ptr := cur + (sz + DEFAULT_UNTRUSTED_SIZE), mutex_held := False\<rparr>
                      in (ar_untrusted_mem_ptr args, Some (ptr, DEFAULT_UNTRUSTED_SIZE + sz), args, s))"

subsection \<open>Calls to the driver\<close>

record PLenclave =
  pl_elffile :: "elf_args option"
  pl_eid :: int
  pl_fd :: int
  pl_user_param :: penglai_enclave_user_param
  pl_attest_param :: penglai_enclave_ioctl_attest_enclave

type_synonym 's device = "u32 \<Rightarrow> penglai_enclave_user_param \<Rightarrow> 's \<Rightarrow> int \<times> penglai_enclave_user_param \<times> 's"

definition PLenclave_init :: "int \<Rightarrow> PLenclave \<Rightarrow> PLenclave" where
  "PLenclave_init open_ret p = p\<lparr>pl_elffile := None, pl_eid := -1, pl_fd := open_ret\<rparr>"

text \<open>The descriptor that is closed, if one is.\<close>

definition PLenclave_finalize :: "PLenclave \<Rightarrow> int option" where
  "PLenclave_finalize p = (if pl_fd p \<ge> 0 then Some (pl_fd p) else None)"

definition PLenclave_create :: "'s device \<Rightarrow> PLenclave \<Rightarrow> elf_args option \<Rightarrow> enclave_args \<Rightarrow> 's \<Rightarrow> int \<times> PLenclave \<times> 's" where
  "PLenclave_create dev p u_elffile u_param s =
     (case u_elffile of
        None \<Rightarrow> (-1, p, s)
      | Some elf \<Rightarrow>
          let up = (pl_user_param p)\<lparr>up_elf_ptr := ea_ptr elf, up_elf_size := int64 (ea_size elf),
                up_stack_size := int64 (ar_stack_size u_param), up_untrusted_mem_ptr := ar_untrusted_mem_ptr u_param,
                up_untrusted_mem_size := int64 (ar_untrusted_mem_size u_param), up_ocall_buf_size := 0, up_resume_type := 0\<rparr>;
              p = p\<lparr>pl_elffile := Some elf, pl_user_param := up\<rparr>
          in if up_elf_ptr up = 0 \<or> up_elf_size up \<le> 0 then (-1, p, s)
             else let (ret, up, s) = dev PENGLAI_ENCLAVE_IOC_CREATE_ENCLAVE up s; p = p\<lparr>pl_user_param := up\<rparr>
                  in if ret < 0 then (-1, p, s)
                     else (0, p\<lparr>pl_eid := int32 (uint (up_eid up))\<rparr>, s))"

definition PLenclave_run :: "'s device \<Rightarrow> PLenclave \<Rightarrow> 's \<Rightarrow> int \<times> PLenclave \<times> 's" where
  "PLenclave_run dev p s =
     (let (ret, up, s) = dev PENGLAI_ENCLAVE_IOC_RUN_ENCLAVE (pl_user_param p) s
      in (if ret < 0 then -1 else ret, p\<lparr>pl_user_param := up\<rparr>, s))"

definition PLenclave_stop :: "'s device \<Rightarrow> PLenclave \<Rightarrow> 's \<Rightarrow> int \<times> PLenclave \<times> 's" where
  "PLenclave_stop dev p s =
     (let (ret, up, s) = dev PENGLAI_ENCLAVE_IOC_STOP_ENCLAVE (pl_user_param p) s
      in (if ret < 0 then -1 else 0, p\<lparr>pl_user_param := up\<rparr>, s))"

definition PLenclave_attest ::
  "(penglai_enclave_ioctl_attest_enclave \<Rightarrow> 's \<Rightarrow> int \<times> penglai_enclave_ioctl_attest_enclave \<times> 's) \<Rightarrow> PLenclave \<Rightarrow> u64 \<Rightarrow> 's \<Rightarrow> int \<times> PLenclave \<times> 's" where
  "PLenclave_attest dev p nonce s =
     (let (ret, ap, s) = dev ((pl_attest_param p)\<lparr>at_eid := word_of_int (pl_eid p), at_nonce := nonce\<rparr>) s
      in (if ret < 0 then -1 else 0, p\<lparr>pl_attest_param := ap\<rparr>, s))"

definition PLenclave_resume :: "'s device \<Rightarrow> PLenclave \<Rightarrow> 's \<Rightarrow> int \<times> PLenclave \<times> 's" where
  "PLenclave_resume dev p s =
     (let (ret, up, s) = dev PENGLAI_ENCLAVE_IOC_RESUME_ENCLAVE (pl_user_param p) s
      in (if ret < 0 then -1 else ret, p\<lparr>pl_user_param := up\<rparr>, s))"

definition PLenclave_destroy :: "'s device \<Rightarrow> PLenclave \<Rightarrow> 's \<Rightarrow> int \<times> PLenclave \<times> 's" where
  "PLenclave_destroy dev p s =
     (let (ret, up, s) = dev PENGLAI_ENCLAVE_IOC_DESTROY_ENCLAVE (pl_user_param p) s
      in (if ret < 0 then -1 else 0, p\<lparr>pl_user_param := up\<rparr>, s))"

definition PLenclave_debug_print :: "'s device \<Rightarrow> PLenclave \<Rightarrow> 's \<Rightarrow> int \<times> PLenclave \<times> 's" where
  "PLenclave_debug_print dev p s =
     (let (ret, up, s) = dev PENGLAI_ENCLAVE_IOC_DEBUG_PRINT (pl_user_param p) s
      in (if ret < 0 then -1 else 0, p\<lparr>pl_user_param := up\<rparr>, s))"

subsection \<open>What the library relies on of the device\<close>

text \<open>
  The contract of the device: an invariant of its state, which calls keep; whether an
  identifier is in use; only a create call changes the parameters or makes an identifier
  usable; a run, stop or resume for an identifier not in use fails; and a destroy for one is
  accepted and leaves it unused.
\<close>

locale enclave_device =
  fixes dev :: "'s device" and ok :: "'s \<Rightarrow> bool" and known :: "'s \<Rightarrow> u32 \<Rightarrow> bool"
  assumes ok_kept: "ok s \<Longrightarrow> ok (snd (snd (dev cmd up s)))"
    and param_kept: "cmd \<noteq> PENGLAI_ENCLAVE_IOC_CREATE_ENCLAVE \<Longrightarrow> fst (snd (dev cmd up s)) = up"
    and unknown_kept: "ok s \<Longrightarrow> cmd \<noteq> PENGLAI_ENCLAVE_IOC_CREATE_ENCLAVE \<Longrightarrow> \<not> known s u \<Longrightarrow> \<not> known (snd (snd (dev cmd up s))) u"
    and unknown_fails: "ok s \<Longrightarrow> \<not> known s (ucast (up_eid up)) \<Longrightarrow>
      cmd \<in> {PENGLAI_ENCLAVE_IOC_RUN_ENCLAVE, PENGLAI_ENCLAVE_IOC_STOP_ENCLAVE, PENGLAI_ENCLAVE_IOC_RESUME_ENCLAVE} \<Longrightarrow>
      fst (dev cmd up s) < 0"
    and unknown_destroy: "ok s \<Longrightarrow> \<not> known s (ucast (up_eid up)) \<Longrightarrow> 0 \<le> fst (dev PENGLAI_ENCLAVE_IOC_DESTROY_ENCLAVE up s)"

datatype host_call = Run | Stop | Resume | Destroy | Debug

fun host_step :: "'s device \<Rightarrow> host_call \<Rightarrow> PLenclave \<Rightarrow> 's \<Rightarrow> int \<times> PLenclave \<times> 's" where
  "host_step dev Run = PLenclave_run dev"
| "host_step dev Stop = PLenclave_stop dev"
| "host_step dev Resume = PLenclave_resume dev"
| "host_step dev Destroy = PLenclave_destroy dev"
| "host_step dev Debug = PLenclave_debug_print dev"

text \<open>A sequence of calls on one enclave: the results, and the handle and the device after it.\<close>

fun host_run :: "'s device \<Rightarrow> host_call list \<Rightarrow> PLenclave \<Rightarrow> 's \<Rightarrow> int list \<times> PLenclave \<times> 's" where
  "host_run dev [] p s = ([], p, s)"
| "host_run dev (c # cs) p s =
     (let (r, p, s) = host_step dev c p s; (rs, p, s) = host_run dev cs p s in (r # rs, p, s))"

lemmas host_call_defs = PLenclave_run_def PLenclave_stop_def PLenclave_resume_def PLenclave_destroy_def PLenclave_debug_print_def

lemma ioc_values:
  "PENGLAI_ENCLAVE_IOC_CREATE_ENCLAVE = 0x8040a400" "PENGLAI_ENCLAVE_IOC_RUN_ENCLAVE = 0x8040a401"
  "PENGLAI_ENCLAVE_IOC_ATTEST_ENCLAVE = 0x8158a402" "PENGLAI_ENCLAVE_IOC_STOP_ENCLAVE = 0x8040a403"
  "PENGLAI_ENCLAVE_IOC_RESUME_ENCLAVE = 0x8040a404" "PENGLAI_ENCLAVE_IOC_DESTROY_ENCLAVE = 0x4040a405"
  "PENGLAI_ENCLAVE_IOC_DEBUG_PRINT = 0x4040a406"
  by (simp_all add: PENGLAI_ENCLAVE_IOC_RUN_ENCLAVE_def PENGLAI_ENCLAVE_IOC_CREATE_ENCLAVE_def PENGLAI_ENCLAVE_IOC_STOP_ENCLAVE_def
      PENGLAI_ENCLAVE_IOC_ATTEST_ENCLAVE_def PENGLAI_ENCLAVE_IOC_RESUME_ENCLAVE_def PENGLAI_ENCLAVE_IOC_DESTROY_ENCLAVE_def
      PENGLAI_ENCLAVE_IOC_DEBUG_PRINT_def ioc_def)

context enclave_device
begin

lemma step_unknown:
  assumes "ok s" and "\<not> known s (ucast (up_eid (pl_user_param p)))"
  shows "host_step dev c p s = (r, p', s') \<Longrightarrow>
    p' = p \<and> ok s' \<and> \<not> known s' (ucast (up_eid (pl_user_param p))) \<and>
    (c \<in> {Run, Stop, Resume} \<longrightarrow> r = -1) \<and> (c = Destroy \<longrightarrow> r = 0)"
  using ok_kept [OF assms(1)] unknown_kept [OF assms(1) _ assms(2)] unknown_fails [OF assms] unknown_destroy [OF assms]
    param_kept
  by (cases c) (force simp: host_call_defs ioc_values case_prod_beta Let_def split: if_splits)+

lemma run_unknown:
  assumes "ok s" and "\<not> known s (ucast (up_eid (pl_user_param p)))"
  shows "host_run dev cs p s = (rs, p', s') \<Longrightarrow>
    p' = p \<and> ok s' \<and> \<not> known s' (ucast (up_eid (pl_user_param p))) \<and> length rs = length cs \<and>
    (\<forall>i < length cs. cs ! i \<in> {Run, Stop, Resume} \<longrightarrow> rs ! i = -1) \<and> (\<forall>i < length cs. cs ! i = Destroy \<longrightarrow> rs ! i = 0)"
  using assms
proof (induction cs arbitrary: s rs)
  case (Cons c cs)
  obtain r q s1 where 1: "host_step dev c p s = (r, q, s1)" by (metis prod_cases3)
  note st = step_unknown [OF Cons.prems(2,3) 1]
  obtain rs1 p1 s2 where 2: "host_run dev cs p s1 = (rs1, p1, s2)" by (metis prod_cases3)
  have "rs = r # rs1" "p' = p1" "s' = s2" using Cons.prems(1) 1 2 st by simp_all
  moreover from this 2 have "host_run dev cs p s1 = (rs1, p', s')" by simp
  ultimately show ?case using Cons.IH [of s1 rs1] st by (auto simp: less_Suc_eq_0_disj)
qed simp

end

subsection \<open>The driver provides it\<close>

text \<open>The handlers as a device on the typed parameters; \<open>device_is_switch\<close> relates it to the dispatch on bytes.\<close>

definition device_ioctl :: "'w services \<Rightarrow> 'w kernel device" where
  "device_ioctl sv cmd up s =
     (if cmd = PENGLAI_ENCLAVE_IOC_CREATE_ENCLAVE then penglai_enclave_create sv up s
      else if cmd = PENGLAI_ENCLAVE_IOC_RUN_ENCLAVE then let (ret, s) = penglai_enclave_run sv up s in (ret, up, s)
      else if cmd = PENGLAI_ENCLAVE_IOC_STOP_ENCLAVE then let (ret, s) = penglai_enclave_stop sv up s in (ret, up, s)
      else if cmd = PENGLAI_ENCLAVE_IOC_RESUME_ENCLAVE then let (ret, s) = penglai_enclave_resume sv up s in (ret, up, s)
      else if cmd = PENGLAI_ENCLAVE_IOC_DESTROY_ENCLAVE then let (ret, s) = penglai_enclave_destroy sv up s in (ret, up, s)
      else if cmd = PENGLAI_ENCLAVE_IOC_DEBUG_PRINT then let (ret, s) = SBI_CALL sv SBI_SM_DEBUG_PRINT [0] s in (int32 (sbi_value ret), up, s)
      else (- EFAULT, up, s))"

lemma device_is_switch:
  assumes "ioctl_switch sv cmd data s = Some (ret, data', s')" and "cmd \<noteq> PENGLAI_ENCLAVE_IOC_ATTEST_ENCLAVE"
  shows "fst (device_ioctl sv cmd (user_param_of data) s) = ret" "snd (snd (device_ioctl sv cmd (user_param_of data) s)) = s'"
  using assms by (auto simp: ioctl_switch_def device_ioctl_def ioc_values Let_def case_prod_beta split: if_splits)

lemma device_view:
  assumes "sbi_keeps_view sv" and "view s = (False, t, n)" and "cmd \<noteq> PENGLAI_ENCLAVE_IOC_CREATE_ENCLAVE"
  shows "view (snd (snd (device_ioctl sv cmd up s))) \<in> {(False, t, n), (False, t(ucast (up_eid up) := None), n)}"
  using run_view [OF assms(1,2)] stop_view [OF assms(1,2)] resume_view [OF assms(1,2)] destroy_view [OF assms(1,2)] assms(2,3)
    view_SBI_CALL [OF assms(1)]
  by (simp add: device_ioctl_def ioc_values Let_def case_prod_beta)

lemma device_unknown:
  assumes "idr_enclave s (ucast (up_eid up)) = None"
  shows "cmd \<in> {PENGLAI_ENCLAVE_IOC_RUN_ENCLAVE, PENGLAI_ENCLAVE_IOC_STOP_ENCLAVE, PENGLAI_ENCLAVE_IOC_RESUME_ENCLAVE} \<Longrightarrow>
      fst (device_ioctl sv cmd up s) < 0"
    and "fst (device_ioctl sv PENGLAI_ENCLAVE_IOC_DESTROY_ENCLAVE up s) = 0"
proof -
  have "fst (get_enclave_by_id (ucast (up_eid up)) (acquire_big_lock s)) = 0"
    using assms by (simp add: get_enclave_by_id_def lock_idr_def add_fault_def acquire_big_lock_def Let_def)
  then show "cmd \<in> {PENGLAI_ENCLAVE_IOC_RUN_ENCLAVE, PENGLAI_ENCLAVE_IOC_STOP_ENCLAVE, PENGLAI_ENCLAVE_IOC_RESUME_ENCLAVE} \<Longrightarrow>
      fst (device_ioctl sv cmd up s) < 0"
    and "fst (device_ioctl sv PENGLAI_ENCLAVE_IOC_DESTROY_ENCLAVE up s) = 0"
    by (auto simp: device_ioctl_def ioc_values penglai_enclave_run_def penglai_enclave_stop_def penglai_enclave_resume_def
        penglai_enclave_destroy_def Let_def case_prod_beta EINVAL_def)
qed

definition well_behaved :: "'w services \<Rightarrow> bool" where
  "well_behaved sv \<longleftrightarrow> sbi_keeps_view sv \<and> idr_alloc_fresh sv"

lemma device_ok:
  assumes a: "well_behaved sv \<and> \<not> big_lock s"
  shows "well_behaved sv \<and> \<not> big_lock (snd (snd (device_ioctl sv cmd up s)))"
    and "cmd \<noteq> PENGLAI_ENCLAVE_IOC_CREATE_ENCLAVE \<Longrightarrow> idr_enclave s u = None \<Longrightarrow> idr_enclave (snd (snd (device_ioctl sv cmd up s))) u = None"
proof -
  obtain t n where v: "view s = (False, t, n)" "idr_enclave s = t" using a by (simp add: view_def)
  have sv: "sbi_keeps_view sv" "idr_alloc_fresh sv" using a by (simp_all add: well_behaved_def)
  show "well_behaved sv \<and> \<not> big_lock (snd (snd (device_ioctl sv cmd up s)))"
  proof (cases "cmd = PENGLAI_ENCLAVE_IOC_CREATE_ENCLAVE")
    case True
    then show ?thesis using create_view [OF sv v(1), of up] a by (auto simp: device_ioctl_def view_def)
  next
    case False
    then show ?thesis using device_view [OF sv(1) v(1), of cmd up] a by (auto simp: view_def)
  qed
  assume "cmd \<noteq> PENGLAI_ENCLAVE_IOC_CREATE_ENCLAVE" "idr_enclave s u = None"
  then show "idr_enclave (snd (snd (device_ioctl sv cmd up s))) u = None"
    using device_view [OF sv(1) v(1), of cmd up] v(2) by (auto simp: view_def)
qed

lemma device_param: "cmd \<noteq> PENGLAI_ENCLAVE_IOC_CREATE_ENCLAVE \<Longrightarrow> fst (snd (device_ioctl sv cmd up s)) = up"
  by (simp add: device_ioctl_def Let_def case_prod_beta)

interpretation driver: enclave_device "device_ioctl sv" "\<lambda>s. well_behaved sv \<and> \<not> big_lock s" "\<lambda>s u. idr_enclave s u \<noteq> None"
  by unfold_locales (erule device_ok, erule device_param, simp add: device_ok(2), simp only: device_unknown(1) not_not,
      simp add: device_unknown(2))

subsection \<open>Properties\<close>


definition example_handle :: PLenclave where
  "example_handle = \<lparr>pl_elffile = None, pl_eid = 0x1000, pl_fd = 3, pl_user_param = example_param,
     pl_attest_param = \<lparr>at_eid = 0, at_nonce = 0, at_report = []\<rparr>\<rparr>"


text \<open>
  \<open>PLenclave_create\<close> calls the device only for an ELF file with an address and a positive
  size; it returns 0 or -1; and when it returns 0 the handle has the identifier the device
  stored, which all later calls pass. A mapping that failed counts as a valid file: its
  address, -1, is not the null pointer.
\<close>

lemma PLenclave_create_checks:
  "PLenclave_create dev p None args s = (-1, p, s) \<and>
   (ea_ptr elf = 0 \<or> int64 (ea_size elf) \<le> 0 \<longrightarrow> (case PLenclave_create dev p (Some elf) args s of (r, p', s') \<Rightarrow> r = -1 \<and> s' = s)) \<and>
   (PLenclave_create dev p (Some elf) args s = (0, p', s') \<longrightarrow>
      (\<exists>up r. dev PENGLAI_ENCLAVE_IOC_CREATE_ENCLAVE up s = (r, pl_user_param p', s') \<and> 0 \<le> r \<and>
        up_elf_ptr up = ea_ptr elf \<and> up_elf_ptr up \<noteq> 0 \<and> pl_eid p' = int32 (uint (up_eid (pl_user_param p'))))) \<and>
   (0 \<le> fd \<longrightarrow> 0 < sz \<longrightarrow> elf_valid (elf_args_init fd (0, sz) (\<lambda>n f. MAP_FAILED) args0))"
proof -
  have "\<exists>up r. dev PENGLAI_ENCLAVE_IOC_CREATE_ENCLAVE up s = (r, pl_user_param p', s') \<and> 0 \<le> r \<and>
        up_elf_ptr up = ea_ptr elf \<and> up_elf_ptr up \<noteq> 0 \<and> pl_eid p' = int32 (uint (up_eid (pl_user_param p')))"
    if "PLenclave_create dev p (Some elf) args s = (0, p', s')"
    using that
    by (auto simp: PLenclave_create_def Let_def split: prod.splits if_splits) (intro exI conjI, assumption, auto)
  then show ?thesis
    by (auto simp: PLenclave_create_def Let_def elf_valid_def elf_args_init_def MAP_FAILED_def word_gt_0)
qed

lemma PLenclave_create_checks_example:
  "elf_valid (elf_args_init 3 (0, 100) (\<lambda>n f. MAP_FAILED) \<lparr>ea_fd = 0, ea_size = 0, ea_ptr = 0\<rparr>)"
  using PLenclave_create_checks [of "\<lambda>c up s. (0, up, s)" example_handle undefined "()" undefined undefined undefined 3 100] by simp

text \<open>
  Untrusted memory. A call that gets the mutex and the address it asks for gives the block
  behind the area reserved for system calls, clears it, moves on to the end of the block and
  releases the mutex; otherwise it returns the null pointer and changes nothing but the mutex.
\<close>

lemma alloc_untrusted_mem_correct:
  fixes sz :: u64
  assumes "\<not> mutex_held s"
  defines "cur \<equiv> current_untrusted_ptr s" and "n \<equiv> (sz + 4096) AND NOT 4096"
  shows "(mmap cur (8192 + n) = cur \<longrightarrow> cur \<noteq> -1 \<longrightarrow>
      host_alloc_untrusted_mem 0 mmap args sz s =
        (cur + 8192, Some (cur, 8192 + n), args\<lparr>ar_untrusted_mem_ptr := cur + 8192, ar_untrusted_mem_size := n\<rparr>,
         s\<lparr>current_untrusted_ptr := cur + (n + 8192)\<rparr>)) \<and>
    (err \<noteq> 0 \<or> mmap cur (8192 + n) \<noteq> cur \<or> cur = -1 \<longrightarrow> host_alloc_untrusted_mem err mmap args sz s = (0, None, args, s))"
  using assms(1)
  by (auto simp: host_alloc_untrusted_mem_def Let_def cur_def n_def DEFAULT_UNTRUSTED_SIZE_def MAP_FAILED_def)

definition example_args :: enclave_args where
  "example_args = \<lparr>ar_stack_size = 4096, ar_untrusted_mem_ptr = 0, ar_untrusted_mem_size = 0\<rparr>"

lemma alloc_untrusted_mem_correct_example:
  "host_alloc_untrusted_mem 0 (\<lambda>a n. a) example_args 4096 \<lparr>current_untrusted_ptr = 0x1000000000, mutex_held = False\<rparr> =
     (0x1000002000, Some (0x1000000000, 0x4000), example_args\<lparr>ar_untrusted_mem_ptr := 0x1000002000, ar_untrusted_mem_size := 8192\<rparr>,
      \<lparr>current_untrusted_ptr = 0x1000004000, mutex_held = False\<rparr>)"
  using alloc_untrusted_mem_correct [of "\<lparr>current_untrusted_ptr = 0x1000000000, mutex_held = False\<rparr>" "\<lambda>a n. a" 4096 example_args 0] by simp

lemma unat_numeral_4096: "unat (4096 :: u64) = 4096"
  by simp

lemma page_mod_add:
  assumes "b mod 4096 = (0 :: u64)"
  shows "(a + b) mod 4096 = a mod 4096"
proof -
  have "unat b mod 4096 = 0" using assms by (metis unat_mod unat_0 unat_numeral_4096)
  then have "(unat a + unat b) mod 2 ^ 64 mod 4096 = unat a mod 4096"
    by (subst mod_mod_cancel) (simp_all add: mod_add_right_eq [symmetric])
  then show ?thesis by (intro word_unat_eq_iff [THEN iffD2]) (simp add: unat_mod unat_word_ariths(1) unat_numeral_4096)
qed

lemma page_8192: "(8192 :: u64) mod 4096 = 0"
  by (intro word_unat_eq_iff [THEN iffD2]) (simp add: unat_mod)

lemma size_mod_page: "((sz + 4096) AND NOT 4096) mod 4096 = (sz mod 4096 :: u64)"
proof -
  have m: "x mod 4096 = take_bit 12 x" for x :: u64 by (simp add: take_bit_eq_mod)
  have "take_bit 12 (sz + 4096) = take_bit 12 sz" using page_mod_add [of 4096 sz] unfolding m by (simp add: take_bit_eq_mod)
  moreover have "take_bit 12 (NOT (4096 :: u64)) = mask 12" by (simp add: mask_eq_exp_minus_1)
  ultimately show ?thesis unfolding m take_bit_and by (simp add: take_bit_eq_mask)
qed

text \<open>
  One allocation with a size that is no multiple of the page size is the last one. The
  expression that is meant to round up clears a single bit, so that the next address is not
  on a page boundary; as \<open>mmap\<close> gives page boundaries only, it never gives that address, and
  every later allocation, of whatever size, returns the null pointer.
\<close>

lemma alloc_untrusted_mem_sticks:
  assumes "\<forall>a n. mmap a n = -1 \<or> mmap a n mod 4096 = 0" and "\<not> mutex_held s" and "sz mod 4096 \<noteq> 0"
    and "host_alloc_untrusted_mem 0 mmap args sz s = (p, c, args', s')" and "p \<noteq> 0"
  shows "host_alloc_untrusted_mem 0 mmap args2 sz2 s' = (0, None, args2, s')"
proof -
  define cur where "cur = current_untrusted_ptr s"
  define n where "n = (sz + 4096) AND NOT 4096"
  have ok: "mmap cur (8192 + n) = cur" "cur \<noteq> -1" "s' = s\<lparr>current_untrusted_ptr := cur + (n + 8192)\<rparr>"
    using assms(2,4,5)
    by (auto simp: host_alloc_untrusted_mem_def Let_def cur_def n_def DEFAULT_UNTRUSTED_SIZE_def MAP_FAILED_def split: if_splits)
  then have "cur mod 4096 = 0" using assms(1) by metis
  then have "(cur + (n + 8192)) mod 4096 = n mod 4096"
    using page_mod_add [of cur "n + 8192"] page_mod_add [OF page_8192, of n] by (simp add: add.commute)
  then have "current_untrusted_ptr s' mod 4096 \<noteq> 0" using assms(3) size_mod_page [of sz] ok(3) by (simp add: n_def)
  then have "mmap (current_untrusted_ptr s') k = -1 \<or> mmap (current_untrusted_ptr s') k \<noteq> current_untrusted_ptr s'" for k
    using assms(1) by metis
  note never = this [of "DEFAULT_UNTRUSTED_SIZE + ((sz2 + 4096) AND NOT 4096)"]
  have "\<not> mutex_held s'" using ok(3) assms(2) by simp
  with never show ?thesis by (auto simp: host_alloc_untrusted_mem_def Let_def MAP_FAILED_def)
qed

lemma alloc_untrusted_mem_sticks_example:
  "host_alloc_untrusted_mem 0 (\<lambda>a n. a AND NOT 4095) example_args 4096
     (snd (snd (snd (host_alloc_untrusted_mem 0 (\<lambda>a n. a AND NOT 4095) example_args 100
        \<lparr>current_untrusted_ptr = 0x1000000000, mutex_held = False\<rparr>)))) =
   (0, None, example_args, \<lparr>current_untrusted_ptr = 0x1000002064, mutex_held = False\<rparr>)"
proof -
  let ?mm = "\<lambda>(a :: u64) (n :: u64). a AND NOT 4095"
  have al: "\<forall>a n. ?mm a n = -1 \<or> ?mm a n mod 4096 = 0"
  proof (intro allI disjI2)
    fix a n :: u64
    have "x mod 4096 = take_bit 12 x" for x :: u64 by (simp add: take_bit_eq_mod)
    moreover have "(4095 :: u64) = mask 12" by (simp add: mask_eq_exp_minus_1)
    ultimately show "?mm a n mod 4096 = 0" by (simp add: take_bit_and)
  qed
  have f: "host_alloc_untrusted_mem 0 ?mm example_args 100 \<lparr>current_untrusted_ptr = 0x1000000000, mutex_held = False\<rparr> =
    (0x1000002000, Some (0x1000000000, 8292), example_args\<lparr>ar_untrusted_mem_ptr := 0x1000002000, ar_untrusted_mem_size := 100\<rparr>,
     \<lparr>current_untrusted_ptr = 0x1000002064, mutex_held = False\<rparr>)"
    by (simp add: host_alloc_untrusted_mem_def DEFAULT_UNTRUSTED_SIZE_def MAP_FAILED_def)
  show ?thesis using alloc_untrusted_mem_sticks [OF al _ _ f, of example_args 4096] f by simp
qed

end
