(* ===== verification/AES.thy ===== *)
theory AES
  imports AES_Tables SM4
begin

text \<open>
  The AES enclave, \<^verbatim>\<open>demo/aes/aes.c\<close>: key schedules for 128, 192 and 256 bit keys, encryption
  and decryption by tables, the interface that keeps the schedule in an allocated block with
  the number of rounds in its last word, and the test that \<open>aes\<close> runs. It is compared with
  the description of FIPS 197, on a state of sixteen bytes.

  A key or a block is given by the memory at its pointer, a function from offsets to bytes,
  since the key schedule reads before it has checked the length. What \<open>malloc\<close> returns is an
  argument: \<open>None\<close> or a block with any contents. \<open>live\<close> counts the allocated blocks.
  \<open>AES_FULL_UNROLL\<close> is not defined.
\<close>

subsection \<open>Reading and writing words\<close>

definition GETU32 :: "(nat \<Rightarrow> u8) \<Rightarrow> nat \<Rightarrow> u32" where
  "GETU32 pt i =
     push_bit 24 (ucast (pt i)) XOR push_bit 16 (ucast (pt (i + 1))) XOR
     push_bit 8 (ucast (pt (i + 2))) XOR ucast (pt (i + 3))"

definition PUTU32 :: "u32 \<Rightarrow> bytes" where
  "PUTU32 st = [ucast (drop_bit 24 st), ucast (drop_bit 16 st), ucast (drop_bit 8 st), ucast st]"

definition AES_PRIV_NR_POS :: nat where "AES_PRIV_NR_POS = 4 * 15"

definition AES_PRIV_SIZE :: nat where "AES_PRIV_SIZE = 4 * 4 * 15 + 4"

type_synonym columns = "u32 \<times> u32 \<times> u32 \<times> u32"

subsection \<open>Key schedule for encryption\<close>

text \<open>The bodies of the three loops; the pointer \<open>rk\<close> is at the offset \<open>p\<close>.\<close>

definition expand_128 :: "nat \<Rightarrow> u32 list \<Rightarrow> u32 list" where
  "expand_128 i rk =
     (let p = 4 * i;
          temp = rk ! (p + 3);
          rk = rk[p + 4 := rk ! p XOR TE421 temp XOR TE432 temp XOR TE443 temp XOR TE414 temp XOR RCON i];
          rk = rk[p + 5 := rk ! (p + 1) XOR rk ! (p + 4)];
          rk = rk[p + 6 := rk ! (p + 2) XOR rk ! (p + 5)]
      in rk[p + 7 := rk ! (p + 3) XOR rk ! (p + 6)])"

definition expand_192 :: "nat \<Rightarrow> u32 list \<Rightarrow> u32 list" where
  "expand_192 i rk =
     (let p = 6 * i;
          temp = rk ! (p + 5);
          rk = rk[p + 6 := rk ! p XOR TE421 temp XOR TE432 temp XOR TE443 temp XOR TE414 temp XOR RCON i];
          rk = rk[p + 7 := rk ! (p + 1) XOR rk ! (p + 6)];
          rk = rk[p + 8 := rk ! (p + 2) XOR rk ! (p + 7)];
          rk = rk[p + 9 := rk ! (p + 3) XOR rk ! (p + 8)]
      in if i = 7 then rk
         else let rk = rk[p + 10 := rk ! (p + 4) XOR rk ! (p + 9)]
              in rk[p + 11 := rk ! (p + 5) XOR rk ! (p + 10)])"

definition expand_256 :: "nat \<Rightarrow> u32 list \<Rightarrow> u32 list" where
  "expand_256 i rk =
     (let p = 8 * i;
          temp = rk ! (p + 7);
          rk = rk[p + 8 := rk ! p XOR TE421 temp XOR TE432 temp XOR TE443 temp XOR TE414 temp XOR RCON i];
          rk = rk[p + 9 := rk ! (p + 1) XOR rk ! (p + 8)];
          rk = rk[p + 10 := rk ! (p + 2) XOR rk ! (p + 9)];
          rk = rk[p + 11 := rk ! (p + 3) XOR rk ! (p + 10)]
      in if i = 6 then rk
         else let temp = rk ! (p + 11);
                  rk = rk[p + 12 := rk ! (p + 4) XOR TE411 temp XOR TE422 temp XOR TE433 temp XOR TE444 temp];
                  rk = rk[p + 13 := rk ! (p + 5) XOR rk ! (p + 12)];
                  rk = rk[p + 14 := rk ! (p + 6) XOR rk ! (p + 13)]
              in rk[p + 15 := rk ! (p + 7) XOR rk ! (p + 14)])"

definition aes_rijndael_key_setup_enc :: "u32 list \<Rightarrow> (nat \<Rightarrow> u8) \<Rightarrow> u64 \<Rightarrow> int \<times> u32 list" where
  "aes_rijndael_key_setup_enc rk cipherKey keyBits =
     (let rk = rk[0 := GETU32 cipherKey 0, 1 := GETU32 cipherKey 4, 2 := GETU32 cipherKey 8, 3 := GETU32 cipherKey 12]
      in if keyBits = 128 then (10, fold expand_128 [0..<10] rk)
         else let rk = rk[4 := GETU32 cipherKey 16, 5 := GETU32 cipherKey 20]
              in if keyBits = 192 then (12, fold expand_192 [0..<8] rk)
                 else let rk = rk[6 := GETU32 cipherKey 24, 7 := GETU32 cipherKey 28]
                      in if keyBits = 256 then (14, fold expand_256 [0..<7] rk)
                         else (-1, rk))"

subsection \<open>Encryption\<close>

definition enc_ROUND :: "u32 list \<Rightarrow> nat \<Rightarrow> columns \<Rightarrow> columns" where
  "enc_ROUND rk k = (\<lambda>(s0, s1, s2, s3).
     (TE0 s0 XOR TE1 s1 XOR TE2 s2 XOR TE3 s3 XOR rk ! k,
      TE0 s1 XOR TE1 s2 XOR TE2 s3 XOR TE3 s0 XOR rk ! (k + 1),
      TE0 s2 XOR TE1 s3 XOR TE2 s0 XOR TE3 s1 XOR rk ! (k + 2),
      TE0 s3 XOR TE1 s0 XOR TE2 s1 XOR TE3 s2 XOR rk ! (k + 3)))"

text \<open>
  The loop over the full rounds, with the pointer \<open>rk\<close> at the offset \<open>p\<close>: when \<open>r\<close> is not
  positive at the start, \<open>--r == 0\<close> does not stop it before \<open>rk\<close> has left its block.
\<close>

fun round_loop :: "(nat \<Rightarrow> columns \<Rightarrow> columns) \<Rightarrow> nat \<Rightarrow> nat \<Rightarrow> columns \<Rightarrow> (nat \<times> columns) option" where
  "round_loop ROUND p 0 s = None"
| "round_loop ROUND p (Suc r) s =
     (let t = ROUND (p + 4) s;
          p = p + 8
      in if r = 0 then Some (p, t) else round_loop ROUND p r (ROUND p t))"

definition load_block :: "u32 list \<Rightarrow> (nat \<Rightarrow> u8) \<Rightarrow> columns" where
  "load_block rk pt = (GETU32 pt 0 XOR rk ! 0, GETU32 pt 4 XOR rk ! 1, GETU32 pt 8 XOR rk ! 2, GETU32 pt 12 XOR rk ! 3)"

definition enc_last :: "u32 list \<Rightarrow> nat \<Rightarrow> columns \<Rightarrow> bytes" where
  "enc_last rk p = (\<lambda>(t0, t1, t2, t3).
     PUTU32 (TE41 t0 XOR TE42 t1 XOR TE43 t2 XOR TE44 t3 XOR rk ! p) @
     PUTU32 (TE41 t1 XOR TE42 t2 XOR TE43 t3 XOR TE44 t0 XOR rk ! (p + 1)) @
     PUTU32 (TE41 t2 XOR TE42 t3 XOR TE43 t0 XOR TE44 t1 XOR rk ! (p + 2)) @
     PUTU32 (TE41 t3 XOR TE42 t0 XOR TE43 t1 XOR TE44 t2 XOR rk ! (p + 3)))"

definition aes_rijndael_encrypt :: "u32 list \<Rightarrow> int \<Rightarrow> (nat \<Rightarrow> u8) \<Rightarrow> bytes option" where
  "aes_rijndael_encrypt rk Nr pt =
     (case round_loop (enc_ROUND rk) 0 (nat (Nr div 2)) (load_block rk pt) of
        None \<Rightarrow> None
      | Some (p, t) \<Rightarrow> Some (enc_last rk p t))"

subsection \<open>Key schedule for decryption, and decryption\<close>

definition swap_words :: "nat \<Rightarrow> nat \<Rightarrow> u32 list \<Rightarrow> u32 list" where
  "swap_words i j rk = (let temp = rk ! i in rk[i := rk ! j, j := temp])"

fun invert_order :: "nat \<Rightarrow> nat \<Rightarrow> u32 list \<Rightarrow> u32 list" where
  "invert_order i j rk =
     (if i < j
      then invert_order (i + 4) (j - 4) (swap_words (i + 3) (j + 3) (swap_words (i + 2) (j + 2)
             (swap_words (i + 1) (j + 1) (swap_words i j rk))))
      else rk)"

declare invert_order.simps [simp del]

definition inv_mix_word :: "u32 \<Rightarrow> u32" where
  "inv_mix_word w =
     TD0_low (TE4 (drop_bit 24 w)) XOR TD1_low (TE4 (drop_bit 16 w AND 0xff)) XOR
     TD2_low (TE4 (drop_bit 8 w AND 0xff)) XOR TD3_low (TE4 (w AND 0xff))"

definition inv_mix_keys :: "nat \<Rightarrow> u32 list \<Rightarrow> u32 list" where
  "inv_mix_keys Nr rk = fold (\<lambda>k rk. rk[k := inv_mix_word (rk ! k)]) [4..<4 * Nr] rk"

definition aes_rijndael_key_setup_dec :: "u32 list \<Rightarrow> (nat \<Rightarrow> u8) \<Rightarrow> u64 \<Rightarrow> int \<times> u32 list" where
  "aes_rijndael_key_setup_dec rk cipherKey keyBits =
     (let (Nr, rk) = aes_rijndael_key_setup_enc rk cipherKey keyBits
      in if Nr < 0 then (Nr, rk)
         else (Nr, inv_mix_keys (nat Nr) (invert_order 0 (4 * nat Nr) rk)))"

definition dec_ROUND :: "u32 list \<Rightarrow> nat \<Rightarrow> columns \<Rightarrow> columns" where
  "dec_ROUND rk k = (\<lambda>(s0, s1, s2, s3).
     (TD0 s0 XOR TD1 s3 XOR TD2 s2 XOR TD3 s1 XOR rk ! k,
      TD0 s1 XOR TD1 s0 XOR TD2 s3 XOR TD3 s2 XOR rk ! (k + 1),
      TD0 s2 XOR TD1 s1 XOR TD2 s0 XOR TD3 s3 XOR rk ! (k + 2),
      TD0 s3 XOR TD1 s2 XOR TD2 s1 XOR TD3 s0 XOR rk ! (k + 3)))"

definition dec_last :: "u32 list \<Rightarrow> nat \<Rightarrow> columns \<Rightarrow> bytes" where
  "dec_last rk p = (\<lambda>(t0, t1, t2, t3).
     PUTU32 (TD41 t0 XOR TD42 t3 XOR TD43 t2 XOR TD44 t1 XOR rk ! p) @
     PUTU32 (TD41 t1 XOR TD42 t0 XOR TD43 t3 XOR TD44 t2 XOR rk ! (p + 1)) @
     PUTU32 (TD41 t2 XOR TD42 t1 XOR TD43 t0 XOR TD44 t3 XOR rk ! (p + 2)) @
     PUTU32 (TD41 t3 XOR TD42 t2 XOR TD43 t1 XOR TD44 t0 XOR rk ! (p + 3)))"

definition aes_rijndael_decrypt :: "u32 list \<Rightarrow> int \<Rightarrow> (nat \<Rightarrow> u8) \<Rightarrow> bytes option" where
  "aes_rijndael_decrypt rk Nr ct =
     (case round_loop (dec_ROUND rk) 0 (nat (Nr div 2)) (load_block rk ct) of
        None \<Rightarrow> None
      | Some (p, t) \<Rightarrow> Some (dec_last rk p t))"

subsection \<open>The interface\<close>

type_synonym aes_ctx = "u32 list option"

definition aes_decrypt_init :: "u32 list option \<Rightarrow> (nat \<Rightarrow> u8) \<Rightarrow> u64 \<Rightarrow> nat \<Rightarrow> aes_ctx \<times> nat" where
  "aes_decrypt_init mem key len live =
     (case mem of
        None \<Rightarrow> (None, live)
      | Some rk \<Rightarrow>
          (let live = live + 1;
               (res, rk) = aes_rijndael_key_setup_dec rk key (len * 8)
           in if res < 0 then (None, live - 1)
              else (Some (rk[AES_PRIV_NR_POS := word_of_int res]), live)))"

definition aes_decrypt :: "aes_ctx \<Rightarrow> (nat \<Rightarrow> u8) \<Rightarrow> fault + bytes" where
  "aes_decrypt ctx crypt =
     (case ctx of
        None \<Rightarrow> Inl (NullDeref ''ctx'')
      | Some rk \<Rightarrow>
          (case aes_rijndael_decrypt rk (sint (rk ! AES_PRIV_NR_POS)) crypt of
             None \<Rightarrow> Inl (Diverges ''aes_rijndael_decrypt'')
           | Some plain \<Rightarrow> Inr plain))"

text \<open>The deinitialisers: the block as \<open>free\<close> gets it, and the count of blocks.\<close>

definition aes_decrypt_deinit :: "aes_ctx \<Rightarrow> nat \<Rightarrow> fault + (u32 list \<times> nat)" where
  "aes_decrypt_deinit ctx live =
     (case ctx of
        None \<Rightarrow> Inl (NullDeref ''ctx'')
      | Some rk \<Rightarrow> Inr (buf_write rk 0 (replicate (AES_PRIV_SIZE div 4) 0), live - 1))"

definition aes_encrypt_init :: "u32 list option \<Rightarrow> (nat \<Rightarrow> u8) \<Rightarrow> u64 \<Rightarrow> nat \<Rightarrow> aes_ctx \<times> nat" where
  "aes_encrypt_init mem key len live =
     (case mem of
        None \<Rightarrow> (None, live)
      | Some rk \<Rightarrow>
          (let live = live + 1;
               (res, rk) = aes_rijndael_key_setup_enc rk key (len * 8)
           in if res < 0 then (None, live - 1)
              else (Some (rk[AES_PRIV_NR_POS := word_of_int res]), live)))"

definition aes_encrypt :: "aes_ctx \<Rightarrow> (nat \<Rightarrow> u8) \<Rightarrow> fault + bytes" where
  "aes_encrypt ctx plain =
     (case ctx of
        None \<Rightarrow> Inl (NullDeref ''ctx'')
      | Some rk \<Rightarrow>
          (case aes_rijndael_encrypt rk (sint (rk ! AES_PRIV_NR_POS)) plain of
             None \<Rightarrow> Inl (Diverges ''aes_rijndael_encrypt'')
           | Some crypt \<Rightarrow> Inr crypt))"

definition aes_encrypt_deinit :: "aes_ctx \<Rightarrow> nat \<Rightarrow> fault + (u32 list \<times> nat)" where
  "aes_encrypt_deinit ctx live =
     (case ctx of
        None \<Rightarrow> Inl (NullDeref ''ctx'')
      | Some rk \<Rightarrow> Inr (buf_write rk 0 (replicate (AES_PRIV_SIZE div 4) 0), live - 1))"

subsection \<open>The test enclave\<close>

definition aes_key :: bytes where
  "aes_key = [0x00, 0x01, 0x02, 0x03, 0x04, 0x05, 0x06, 0x07, 0x08, 0x09, 0x0A, 0x0B, 0x0C, 0x0D, 0x0E, 0x0F]"

definition test_pattern :: "bytes \<Rightarrow> bytes" where
  "test_pattern pt1 = snd (fold (\<lambda>j (c, pt1). let c = c XOR c * 7 in (c, pt1[j := c])) [0, 4, 8, 12] (1, pt1))"

text \<open>
  \<open>DATA_SIZE\<close> is 16, so each loop over the blocks runs once. The result has the three buffers
  as they are when they are freed, the number of blocks still allocated, and what
  \<open>EAPP_RETURN\<close> gets.
\<close>

definition aes :: "bytes option \<Rightarrow> bytes option \<Rightarrow> bytes option \<Rightarrow> u32 list option \<Rightarrow> u32 list option \<Rightarrow>
    fault + (bytes \<times> bytes \<times> bytes \<times> nat \<times> u64)" where
  "aes m_pt1 m_ct m_pt2 m_rk1 m_rk2 =
     (let live = length (filter (\<lambda>m. m \<noteq> None) [m_pt1, m_ct, m_pt2])
      in case m_pt1 of None \<Rightarrow> Inl (NullDeref ''pt1'') | Some pt1 \<Rightarrow>
     (let pt1 = test_pattern pt1;
          (rk1, live) = aes_encrypt_init m_rk1 ((!) aes_key) 16 live
      in case aes_encrypt rk1 ((!) pt1) of Inl f \<Rightarrow> Inl f | Inr crypt \<Rightarrow>
     (case m_ct of None \<Rightarrow> Inl (NullDeref ''ct'') | Some ct \<Rightarrow>
     (let ct = buf_write ct 0 crypt
      in case aes_encrypt_deinit rk1 live of Inl f \<Rightarrow> Inl f | Inr (_, live) \<Rightarrow>
     (let (rk2, live) = aes_decrypt_init m_rk2 ((!) aes_key) 16 live
      in case aes_decrypt rk2 ((!) ct) of Inl f \<Rightarrow> Inl f | Inr plain \<Rightarrow>
     (case m_pt2 of None \<Rightarrow> Inl (NullDeref ''pt2'') | Some pt2 \<Rightarrow>
     (let pt2 = buf_write pt2 0 plain
      in case aes_decrypt_deinit rk2 live of Inl f \<Rightarrow> Inl f | Inr (_, live) \<Rightarrow>
         Inr (pt1, ct, pt2, live - 3, 0))))))))"

subsection \<open>FIPS 197\<close>

definition fips_sub_bytes :: "bytes \<Rightarrow> bytes" where
  "fips_sub_bytes st = map sub_byte st"

definition fips_inv_sub_bytes :: "bytes \<Rightarrow> bytes" where
  "fips_inv_sub_bytes st = map inv_sub_byte st"

text \<open>The byte in row \<open>r\<close> and column \<open>c\<close> is at the index \<open>r + 4 * c\<close>.\<close>

definition fips_shift_rows :: "bytes \<Rightarrow> bytes" where
  "fips_shift_rows st = map (\<lambda>i. st ! ((i + 4 * (i mod 4)) mod 16)) [0..<16]"

definition fips_inv_shift_rows :: "bytes \<Rightarrow> bytes" where
  "fips_inv_shift_rows st = map (\<lambda>i. st ! ((i + 12 * (i mod 4)) mod 16)) [0..<16]"

text \<open>Products with the coefficients of the two mixing matrices.\<close>

definition mul3 :: "u8 \<Rightarrow> u8" where "mul3 a = xtime a XOR a"
definition mul9 :: "u8 \<Rightarrow> u8" where "mul9 a = xtime (xtime (xtime a)) XOR a"
definition mulb :: "u8 \<Rightarrow> u8" where "mulb a = xtime (xtime (xtime a)) XOR xtime a XOR a"
definition muld :: "u8 \<Rightarrow> u8" where "muld a = xtime (xtime (xtime a)) XOR xtime (xtime a) XOR a"
definition mule :: "u8 \<Rightarrow> u8" where "mule a = xtime (xtime (xtime a)) XOR xtime (xtime a) XOR xtime a"

definition mix_column :: "u8 \<Rightarrow> u8 \<Rightarrow> u8 \<Rightarrow> u8 \<Rightarrow> bytes" where
  "mix_column a b c d =
     [xtime a XOR mul3 b XOR c XOR d, a XOR xtime b XOR mul3 c XOR d,
      a XOR b XOR xtime c XOR mul3 d, mul3 a XOR b XOR c XOR xtime d]"

definition inv_mix_column :: "u8 \<Rightarrow> u8 \<Rightarrow> u8 \<Rightarrow> u8 \<Rightarrow> bytes" where
  "inv_mix_column a b c d =
     [mule a XOR mulb b XOR muld c XOR mul9 d, mul9 a XOR mule b XOR mulb c XOR muld d,
      muld a XOR mul9 b XOR mule c XOR mulb d, mulb a XOR muld b XOR mul9 c XOR mule d]"

definition on_columns :: "(u8 \<Rightarrow> u8 \<Rightarrow> u8 \<Rightarrow> u8 \<Rightarrow> bytes) \<Rightarrow> bytes \<Rightarrow> bytes" where
  "on_columns f st = concat (map (\<lambda>c. f (st ! (4 * c)) (st ! (4 * c + 1)) (st ! (4 * c + 2)) (st ! (4 * c + 3))) [0..<4])"

definition word_bytes :: "u32 \<Rightarrow> bytes" where
  "word_bytes w = [byte_at 24 w, byte_at 16 w, byte_at 8 w, byte_at 0 w]"

definition round_key :: "(nat \<Rightarrow> u32) \<Rightarrow> nat \<Rightarrow> bytes" where
  "round_key w r = concat (map (\<lambda>j. word_bytes (w (4 * r + j))) [0..<4])"

definition add_round_key :: "bytes \<Rightarrow> bytes \<Rightarrow> bytes" where
  "add_round_key k st = map2 (XOR) st k"

definition fips_cipher :: "nat \<Rightarrow> (nat \<Rightarrow> u32) \<Rightarrow> bytes \<Rightarrow> bytes" where
  "fips_cipher Nr w input =
     (let st = add_round_key (round_key w 0) input;
          st = fold (\<lambda>r st. add_round_key (round_key w r)
                 (on_columns mix_column (fips_shift_rows (fips_sub_bytes st)))) [1..<Nr] st
      in add_round_key (round_key w Nr) (fips_shift_rows (fips_sub_bytes st)))"

definition fips_inv_cipher :: "nat \<Rightarrow> (nat \<Rightarrow> u32) \<Rightarrow> bytes \<Rightarrow> bytes" where
  "fips_inv_cipher Nr w input =
     (let st = add_round_key (round_key w Nr) input;
          st = fold (\<lambda>r st. on_columns inv_mix_column (add_round_key (round_key w r)
                 (fips_inv_sub_bytes (fips_inv_shift_rows st)))) (rev [1..<Nr]) st
      in add_round_key (round_key w 0) (fips_inv_sub_bytes (fips_inv_shift_rows st)))"

definition sub_word :: "u32 \<Rightarrow> u32" where
  "sub_word w = be32 (sub_byte (byte_at 24 w)) (sub_byte (byte_at 16 w)) (sub_byte (byte_at 8 w)) (sub_byte (byte_at 0 w))"

definition rot_word :: "u32 \<Rightarrow> u32" where
  "rot_word w = be32 (byte_at 16 w) (byte_at 8 w) (byte_at 0 w) (byte_at 24 w)"

definition fips_rcon :: "nat \<Rightarrow> u32" where
  "fips_rcon n = be32 ((xtime ^^ (n - 1)) 1) 0 0 0"

fun key_expansion :: "nat \<Rightarrow> (nat \<Rightarrow> u8) \<Rightarrow> nat \<Rightarrow> u32" where
  "key_expansion Nk key i =
     (if i < Nk \<or> Nk = 0 then be32 (key (4 * i)) (key (4 * i + 1)) (key (4 * i + 2)) (key (4 * i + 3))
      else let temp = key_expansion Nk key (i - 1)
           in key_expansion Nk key (i - Nk) XOR
              (if i mod Nk = 0 then sub_word (rot_word temp) XOR fips_rcon (i div Nk)
               else if Nk > 6 \<and> i mod Nk = 4 then sub_word temp else temp))"

declare key_expansion.simps [simp del]

subsection \<open>Words and bytes\<close>

lemma be32_inject [simp]:
  "be32 a b c d = be32 a' b' c' d' \<longleftrightarrow> a = a' \<and> b = b' \<and> c = c' \<and> d = d'"
  by (metis byte_at_be32)

lemma be32_xor [simp]:
  "be32 a b c d XOR be32 a' b' c' d' = be32 (a XOR a') (b XOR b') (c XOR c') (d XOR d')"
  by (rule bit_word_eqI) (auto simp: bit_be32 bit_simps)

lemma be32_cases:
  obtains a b c d where "(w :: u32) = be32 a b c d"
  by (metis be32_byte_at)

lemma unat_and_255: "unat ((w :: u32) AND 0xff) = unat (ucast w :: u8)"
proof -
  have "w AND 0xff = take_bit 8 w" by (simp add: take_bit_eq_mask mask_eq_exp_minus_1)
  then show ?thesis by (simp add: unsigned_ucast_eq unsigned_take_bit_eq)
qed

lemma ucast_drop_be32:
  "ucast (drop_bit 24 (be32 a b c d)) = a" "ucast (drop_bit 16 (be32 a b c d)) = b"
  "ucast (drop_bit 8 (be32 a b c d)) = c" "ucast (be32 a b c d) = d"
  by (auto simp: bit_be32 bit_simps intro!: bit_word_eqI)

lemma unat_select [simp]:
  "unat (drop_bit 24 (be32 a b c d) AND 0xff) = unat a"
  "unat (drop_bit 16 (be32 a b c d) AND 0xff) = unat b"
  "unat (drop_bit 8 (be32 a b c d) AND 0xff) = unat c"
  "unat (be32 a b c d AND 0xff) = unat d"
  by (simp_all only: unat_and_255 ucast_drop_be32)

lemma unat_high_byte [simp]: "unat (drop_bit 24 (be32 a b c d)) = unat a"
proof -
  have "drop_bit 24 (be32 a b c d) = drop_bit 24 (be32 a b c d) AND 0xff"
    by (rule bit_word_eqI) (auto simp: bit_be32 bit_simps bit_255_iff)
  then show ?thesis by (metis unat_select(1))
qed

lemma unat_low_byte [simp]: "unat (be32 0 0 0 d) = unat d"
proof -
  have "unat d < 2 ^ 32" by (rule less_trans [OF unat_byte_less]) simp
  then show ?thesis by (simp add: be32_def unsigned_ucast_eq take_bit_nat_eq_self)
qed

lemma GETU32_eq: "GETU32 pt i = be32 (pt i) (pt (i + 1)) (pt (i + 2)) (pt (i + 3))"
  by (rule bit_word_eqI) (auto simp: GETU32_def bit_be32 bit_simps dest: bit_imp_le_length)

lemma PUTU32_be32 [simp]: "PUTU32 (be32 a b c d) = [a, b, c, d]"
  by (simp add: PUTU32_def ucast_drop_be32)

lemma rotr8_be32 [simp]: "rotr8 (be32 a b c d) = be32 d a b c"
  by (rule bit_word_eqI) (auto simp: rotr8_def bit_be32 bit_simps dest: bit_imp_le_length)

subsection \<open>Table lookups\<close>

lemma nth_table:
  assumes "map f xs = tab" and "length xs = 256"
  shows "tab ! unat (x :: u8) = f (xs ! unat x)"
  using assms by (auto simp flip: assms(1))

lemma Te_lookup:
  "Te0 ! unat x = mix_byte (sub_byte x)"
  "Te1 ! unat x = rotr8 (mix_byte (sub_byte x))"
  "Te2 ! unat x = rotr8 (rotr8 (mix_byte (sub_byte x)))"
  "Te3 ! unat x = rotr8 (rotr8 (rotr8 (mix_byte (sub_byte x))))"
  "Te4 ! unat x = be32 (sub_byte x) (sub_byte x) (sub_byte x) (sub_byte x)"
  by (simp_all add: sub_byte_def flip: Te3_contents Te2_contents Te1_contents Te0_contents Te4_contents)

lemma Td_lookup:
  "Td0 ! unat x = inv_mix_byte (inv_sub_byte x)"
  "Td1 ! unat x = rotr8 (inv_mix_byte (inv_sub_byte x))"
  "Td2 ! unat x = rotr8 (rotr8 (inv_mix_byte (inv_sub_byte x)))"
  "Td3 ! unat x = rotr8 (rotr8 (rotr8 (inv_mix_byte (inv_sub_byte x))))"
  "Td4 ! unat x = be32 (inv_sub_byte x) (inv_sub_byte x) (inv_sub_byte x) (inv_sub_byte x)"
  by (simp_all add: inv_sub_byte_def flip: Td3_contents Td2_contents Td1_contents Td0_contents Td4_contents)

lemma be32_masks:
  "be32 a b c d AND 0xff000000 = be32 a 0 0 0" "be32 a b c d AND 0x00ff0000 = be32 0 b 0 0"
  "be32 a b c d AND 0x0000ff00 = be32 0 0 c 0" "be32 a b c d AND 0x000000ff = be32 0 0 0 d"
proof -
  have m: "0xff000000 = be32 0xff 0 0 0" "0x00ff0000 = be32 0 0xff 0 0" "0x0000ff00 = be32 0 0 0xff 0"
    "0x000000ff = be32 0 0 0 0xff"
    by (simp_all add: be32_def)
  have a: "be32 a b c d AND be32 a' b' c' d' = be32 (a AND a') (b AND b') (c AND c') (d AND d')" for a' b' c' d'
    by (rule bit_word_eqI) (auto simp: bit_be32 bit_simps)
  have f: "x AND 0xff = x" for x :: u8
    by (rule bit_word_eqI) (auto simp: bit_simps bit_255_iff)
  show "be32 a b c d AND 0xff000000 = be32 a 0 0 0" "be32 a b c d AND 0x00ff0000 = be32 0 b 0 0"
    "be32 a b c d AND 0x0000ff00 = be32 0 0 c 0" "be32 a b c d AND 0x000000ff = be32 0 0 0 d"
    by (simp_all only: m a f and_zero_eq and.right_neutral)
qed

named_theorems aes_lookups \<open>what the macros return on a word given by its bytes\<close>

lemma TE_be32 [aes_lookups]:
  "TE0 (be32 a b c d) = be32 (xtime (sub_byte a)) (sub_byte a) (sub_byte a) (mul3 (sub_byte a))"
  "TE1 (be32 a b c d) = be32 (mul3 (sub_byte b)) (xtime (sub_byte b)) (sub_byte b) (sub_byte b)"
  "TE2 (be32 a b c d) = be32 (sub_byte c) (mul3 (sub_byte c)) (xtime (sub_byte c)) (sub_byte c)"
  "TE3 (be32 a b c d) = be32 (sub_byte d) (sub_byte d) (mul3 (sub_byte d)) (xtime (sub_byte d))"
  by (simp_all add: TE0_def TE1_def TE2_def TE3_def Te_lookup mix_byte_def mul3_def)

lemma TE4_be32 [aes_lookups]:
  "TE41 (be32 a b c d) = be32 (sub_byte a) 0 0 0" "TE42 (be32 a b c d) = be32 0 (sub_byte b) 0 0"
  "TE43 (be32 a b c d) = be32 0 0 (sub_byte c) 0" "TE44 (be32 a b c d) = be32 0 0 0 (sub_byte d)"
  "TE421 (be32 a b c d) = be32 (sub_byte b) 0 0 0" "TE432 (be32 a b c d) = be32 0 (sub_byte c) 0 0"
  "TE443 (be32 a b c d) = be32 0 0 (sub_byte d) 0" "TE414 (be32 a b c d) = be32 0 0 0 (sub_byte a)"
  "TE411 (be32 a b c d) = be32 (sub_byte a) 0 0 0" "TE422 (be32 a b c d) = be32 0 (sub_byte b) 0 0"
  "TE433 (be32 a b c d) = be32 0 0 (sub_byte c) 0" "TE444 (be32 a b c d) = be32 0 0 0 (sub_byte d)"
  by (simp_all add: TE41_def TE42_def TE43_def TE44_def TE421_def TE432_def TE443_def TE414_def
      TE411_def TE422_def TE433_def TE444_def Te_lookup be32_masks)

lemma TD_be32 [aes_lookups]:
  "TD0 (be32 a b c d) = be32 (mule (inv_sub_byte a)) (mul9 (inv_sub_byte a)) (muld (inv_sub_byte a)) (mulb (inv_sub_byte a))"
  "TD1 (be32 a b c d) = be32 (mulb (inv_sub_byte b)) (mule (inv_sub_byte b)) (mul9 (inv_sub_byte b)) (muld (inv_sub_byte b))"
  "TD2 (be32 a b c d) = be32 (muld (inv_sub_byte c)) (mulb (inv_sub_byte c)) (mule (inv_sub_byte c)) (mul9 (inv_sub_byte c))"
  "TD3 (be32 a b c d) = be32 (mul9 (inv_sub_byte d)) (muld (inv_sub_byte d)) (mulb (inv_sub_byte d)) (mule (inv_sub_byte d))"
  by (simp_all add: TD0_def TD1_def TD2_def TD3_def Td_lookup inv_mix_byte_def Let_def mul9_def mulb_def muld_def mule_def)

lemma TD4_be32 [aes_lookups]:
  "TD41 (be32 a b c d) = be32 (inv_sub_byte a) 0 0 0" "TD42 (be32 a b c d) = be32 0 (inv_sub_byte b) 0 0"
  "TD43 (be32 a b c d) = be32 0 0 (inv_sub_byte c) 0" "TD44 (be32 a b c d) = be32 0 0 0 (inv_sub_byte d)"
  by (simp_all add: TD41_def TD42_def TD43_def TD44_def Td_lookup be32_masks)

text \<open>The inverse mixing of a word of the key schedule.\<close>

lemma TE4_select:
  "TE4 (drop_bit 24 (be32 a b c d)) = be32 0 0 0 (sub_byte a)"
  "TE4 (drop_bit 16 (be32 a b c d) AND 0xff) = be32 0 0 0 (sub_byte b)"
  "TE4 (drop_bit 8 (be32 a b c d) AND 0xff) = be32 0 0 0 (sub_byte c)"
  "TE4 (be32 a b c d AND 0xff) = be32 0 0 0 (sub_byte d)"
  by (simp_all add: TE4_def Te_lookup be32_masks)

lemma inv_mix_word_be32:
  "inv_mix_word (be32 a b c d) =
    be32 (mule a XOR mulb b XOR muld c XOR mul9 d) (mul9 a XOR mule b XOR mulb c XOR muld d)
      (muld a XOR mul9 b XOR mule c XOR mulb d) (mulb a XOR muld b XOR mul9 c XOR mule d)"
  unfolding inv_mix_word_def TE4_select TD0_low_def TD1_low_def TD2_low_def TD3_low_def
  by (simp add: be32_masks Td_lookup inv_mix_byte_def Let_def mul9_def mulb_def muld_def mule_def)

subsection \<open>The transformations of the state\<close>

lemmas xor_ac = xor.assoc xor.commute xor.left_commute

lemma length_transforms [simp]:
  "length (fips_sub_bytes st) = length st" "length (fips_inv_sub_bytes st) = length st"
  "length (fips_shift_rows st) = 16" "length (fips_inv_shift_rows st) = 16"
  "length (on_columns mix_column st) = 16" "length (on_columns inv_mix_column st) = 16"
  "length (word_bytes u) = 4" "length (round_key w r) = 16"
  "length (add_round_key k st) = min (length st) (length k)"
  by (simp_all add: fips_sub_bytes_def fips_inv_sub_bytes_def fips_shift_rows_def fips_inv_shift_rows_def
      on_columns_def mix_column_def inv_mix_column_def word_bytes_def round_key_def add_round_key_def)

lemma upt_16: "[0..<16] = [0, 1, 2, 3, 4, 5, 6, 7, 8, 9, 10, 11, 12, 13, 14, 15]"
  by code_simp

lemma xtime_xor [simp]: "xtime (a XOR b) = xtime a XOR xtime b"
  by (rule bit_word_eqI) (auto simp: xtime_def bit_simps)

lemma inv_mix_mix:
  assumes "length st = 16"
  shows "on_columns inv_mix_column (on_columns mix_column st) = st"
  using assms
  by (elim list16_cases)
    (simp add: on_columns_def mix_column_def inv_mix_column_def mul3_def mul9_def mulb_def muld_def mule_def xor_ac)

lemma inv_mix_add:
  assumes "length st = 16" and "length k = 16"
  shows "on_columns inv_mix_column (add_round_key k st) =
    add_round_key (on_columns inv_mix_column k) (on_columns inv_mix_column st)"
  using assms
  by (elim list16_cases)
    (simp add: on_columns_def inv_mix_column_def add_round_key_def mul9_def mulb_def muld_def mule_def xor_ac)

lemma inv_shift_shift: "length st = 16 \<Longrightarrow> fips_inv_shift_rows (fips_shift_rows st) = st"
  by (elim list16_cases) (simp add: fips_inv_shift_rows_def fips_shift_rows_def upt_16)

lemma inv_sub_shift: "fips_inv_sub_bytes (fips_inv_shift_rows (fips_shift_rows (fips_sub_bytes st))) = st"
  if "length st = 16"
proof -
  have "map inv_sub_byte (map sub_byte st) = st" by (simp add: comp_def)
  then show ?thesis using that by (simp add: inv_shift_shift fips_inv_sub_bytes_def fips_sub_bytes_def)
qed

lemma add_round_key_twice: "length st = length k \<Longrightarrow> add_round_key k (add_round_key k st) = st"
  unfolding add_round_key_def by (rule nth_equalityI) simp_all

text \<open>Decryption of the standard inverts its encryption, whatever the key schedule holds.\<close>

lemma inv_rounds:
  assumes "length s = 16"
  shows "fold (\<lambda>r st. on_columns inv_mix_column (add_round_key (round_key w r)
           (fips_inv_sub_bytes (fips_inv_shift_rows st)))) (rev rs)
         (fips_shift_rows (fips_sub_bytes (fold (\<lambda>r st. add_round_key (round_key w r)
           (on_columns mix_column (fips_shift_rows (fips_sub_bytes st)))) rs s))) =
       fips_shift_rows (fips_sub_bytes s)"
  using assms
proof (induction rs arbitrary: s)
  case (Cons r rs)
  then show ?case
    by (simp add: inv_sub_shift add_round_key_twice inv_mix_mix)
qed simp

lemma length_fold_rounds [simp]:
  "length s = 16 \<Longrightarrow> length (fold (\<lambda>r st. add_round_key (round_key w r)
     (on_columns mix_column (fips_shift_rows (fips_sub_bytes st)))) rs s) = 16"
  by (induction rs arbitrary: s) simp_all

lemma fips_inverse:
  assumes "length b = 16"
  shows "fips_inv_cipher Nr w (fips_cipher Nr w b) = b"
  using assms
  by (simp add: fips_inv_cipher_def fips_cipher_def Let_def add_round_key_twice inv_rounds inv_sub_shift)

subsection \<open>Rounds by tables\<close>

definition columns_of :: "bytes \<Rightarrow> columns" where
  "columns_of st =
     (be32 (st ! 0) (st ! 1) (st ! 2) (st ! 3), be32 (st ! 4) (st ! 5) (st ! 6) (st ! 7),
      be32 (st ! 8) (st ! 9) (st ! 10) (st ! 11), be32 (st ! 12) (st ! 13) (st ! 14) (st ! 15))"

text \<open>The schedule in the block \<open>rk\<close> holds the words \<open>w\<close> of round \<open>r\<close> at the offset \<open>k\<close>.\<close>

definition holds_key :: "u32 list \<Rightarrow> nat \<Rightarrow> bytes \<Rightarrow> bool" where
  "holds_key rk k b \<longleftrightarrow> length b = 16 \<and> (rk ! k, rk ! (k + 1), rk ! (k + 2), rk ! (k + 3)) = columns_of b"

lemma enc_ROUND_eq:
  assumes "length st = 16" and "holds_key rk k b"
  shows "enc_ROUND rk k (columns_of st) =
    columns_of (add_round_key b (on_columns mix_column (fips_shift_rows (fips_sub_bytes st))))"
proof -
  have "length b = 16" using assms(2) by (simp add: holds_key_def)
  with assms show ?thesis
    by (elim list16_cases)
      (simp add: holds_key_def enc_ROUND_def columns_of_def add_round_key_def on_columns_def mix_column_def
        fips_shift_rows_def fips_sub_bytes_def upt_16 aes_lookups xor_ac)
qed

lemma enc_last_eq:
  assumes "length st = 16" and "holds_key rk k b"
  shows "enc_last rk k (columns_of st) = add_round_key b (fips_shift_rows (fips_sub_bytes st))"
proof -
  have "length b = 16" using assms(2) by (simp add: holds_key_def)
  with assms show ?thesis
    by (elim list16_cases)
      (simp add: holds_key_def enc_last_def columns_of_def add_round_key_def
        fips_shift_rows_def fips_sub_bytes_def upt_16 aes_lookups)
qed

lemma dec_ROUND_eq:
  assumes "length st = 16" and "holds_key rk k b"
  shows "dec_ROUND rk k (columns_of st) =
    columns_of (add_round_key b (on_columns inv_mix_column (fips_inv_sub_bytes (fips_inv_shift_rows st))))"
proof -
  have "length b = 16" using assms(2) by (simp add: holds_key_def)
  with assms show ?thesis
    by (elim list16_cases)
      (simp add: holds_key_def dec_ROUND_def columns_of_def add_round_key_def on_columns_def inv_mix_column_def
        fips_inv_shift_rows_def fips_inv_sub_bytes_def upt_16 aes_lookups xor_ac)
qed

lemma dec_last_eq:
  assumes "length st = 16" and "holds_key rk k b"
  shows "dec_last rk k (columns_of st) = add_round_key b (fips_inv_sub_bytes (fips_inv_shift_rows st))"
proof -
  have "length b = 16" using assms(2) by (simp add: holds_key_def)
  with assms show ?thesis
    by (elim list16_cases)
      (simp add: holds_key_def dec_last_def columns_of_def add_round_key_def
        fips_inv_shift_rows_def fips_inv_sub_bytes_def upt_16 aes_lookups)
qed

lemma load_block_eq:
  assumes "holds_key rk 0 b"
  shows "load_block rk pt = columns_of (add_round_key b (map pt [0..<16]))"
proof -
  have "length b = 16" using assms by (simp add: holds_key_def)
  with assms show ?thesis
    by (elim list16_cases)
      (simp add: holds_key_def load_block_def columns_of_def add_round_key_def GETU32_eq upt_16
        del: add_2_eq_Suc add_2_eq_Suc')
qed

text \<open>The loop runs the rounds \<open>1\<close> to \<open>2 * r - 1\<close>, with the key of round \<open>j\<close> at the offset \<open>4 * j\<close>.\<close>

lemma upt_shift_2: "0 < n \<Longrightarrow> [1..<n + 2] = 1 # 2 # map (\<lambda>j. j + 2) [1..<n]"
  by (rule nth_equalityI) (auto simp: nth_Cons simp del: upt_Suc split: nat.split)

lemma round_loop_eq:
  "round_loop R p (Suc r) s = Some (p + 8 * Suc r, fold (\<lambda>j. R (p + 4 * j)) [1..<2 * Suc r] s)"
proof (induction r arbitrary: p s)
  case 0
  show ?case by (simp add: Let_def numeral_2_eq_2)
next
  case (Suc r)
  let ?f = "\<lambda>j. R (p + 4 * j)"
  have u: "[1..<2 * Suc (Suc r)] = 1 # 2 # map (\<lambda>j. j + 2) [1..<2 * Suc r]"
    using upt_shift_2 [of "2 * Suc r"] by (simp del: upt_Suc)
  have "fold ?f [1..<2 * Suc (Suc r)] s = fold (\<lambda>j. R (p + 8 + 4 * j)) [1..<2 * Suc r] (R (p + 8) (R (p + 4) s))"
    unfolding u by (simp add: fold_map comp_def add.assoc del: upt_Suc)
  moreover have "round_loop R p (Suc (Suc r)) s = round_loop R (p + 8) (Suc r) (R (p + 8) (R (p + 4) s))"
    by (subst round_loop.simps(2)) (simp only: Let_def nat.simps if_False)
  ultimately show ?case
    unfolding Suc.IH by (simp only: mult_Suc_right option.inject prod.inject) simp
qed

lemma round_loop_states:
  assumes step: "\<And>j st. 1 \<le> j \<Longrightarrow> j < n \<Longrightarrow> length st = 16 \<Longrightarrow>
      R (4 * j) (columns_of st) = columns_of (F j st) \<and> length (F j st) = 16"
    and n: "n = 2 * Suc r" and s: "length s = 16"
  shows "\<exists>st. round_loop R 0 (Suc r) (columns_of s) = Some (4 * n, columns_of st) \<and>
    st = fold F [1..<n] s \<and> length st = 16"
proof -
  have "set js \<subseteq> {1..<n} \<Longrightarrow> length s = 16 \<Longrightarrow>
      fold (\<lambda>j. R (4 * j)) js (columns_of s) = columns_of (fold F js s) \<and> length (fold F js s) = 16" for js s
    by (induction js arbitrary: s) (simp_all add: step)
  from this [of "[1..<n]"] s
  have "fold (\<lambda>j. R (4 * j)) [1..<n] (columns_of s) = columns_of (fold F [1..<n] s)" "length (fold F [1..<n] s) = 16"
    by auto
  then show ?thesis using round_loop_eq [of R 0 r "columns_of s"] n by (simp del: upt_Suc)
qed

definition holds_schedule :: "u32 list \<Rightarrow> nat \<Rightarrow> (nat \<Rightarrow> bytes) \<Rightarrow> bool" where
  "holds_schedule rk Nr K \<longleftrightarrow> (\<forall>r \<le> Nr. holds_key rk (4 * r) (K r))"

lemma holds_scheduleD: "holds_schedule rk Nr K \<Longrightarrow> r \<le> Nr \<Longrightarrow> holds_key rk (4 * r) (K r)"
  by (simp add: holds_schedule_def)

lemma rijndael_encrypt_eq:
  assumes "holds_schedule rk Nr (round_key w)" and "Nr = 2 * Suc r"
  shows "aes_rijndael_encrypt rk (int Nr) pt = Some (fips_cipher Nr w (map pt [0..<16]))"
proof -
  let ?F = "\<lambda>r st. add_round_key (round_key w r) (on_columns mix_column (fips_shift_rows (fips_sub_bytes st)))"
  let ?s = "add_round_key (round_key w 0) (map pt [0..<16])"
  note key = holds_scheduleD [OF assms(1)]
  obtain st where st: "round_loop (enc_ROUND rk) 0 (Suc r) (columns_of ?s) = Some (4 * Nr, columns_of st)"
    "st = fold ?F [1..<Nr] ?s" "length st = 16"
    using round_loop_states [where R = "enc_ROUND rk" and F = ?F and n = Nr and s = ?s, OF _ assms(2)]
    by (auto simp: enc_ROUND_eq key)
  have "nat (int Nr div 2) = Suc r" using assms(2) by simp
  then show ?thesis
    using st key [of 0] key [of Nr]
    by (simp add: aes_rijndael_encrypt_def load_block_eq enc_last_eq fips_cipher_def Let_def)
qed

text \<open>The schedule for decryption: reversed, and mixed except for the first and the last key.\<close>

definition dec_round_key :: "nat \<Rightarrow> (nat \<Rightarrow> u32) \<Rightarrow> nat \<Rightarrow> bytes" where
  "dec_round_key Nr w r =
     (if 0 < r \<and> r < Nr then on_columns inv_mix_column (round_key w (Nr - r)) else round_key w (Nr - r))"

lemma length_dec_round_key [simp]: "length (dec_round_key Nr w r) = 16"
  by (simp add: dec_round_key_def)

lemma rev_upt_diff: "map (\<lambda>j. n - j) [1..<n] = rev [1..<n]"
  by (rule nth_equalityI) (auto simp: rev_nth)

lemma rijndael_decrypt_eq:
  assumes "holds_schedule rk Nr (dec_round_key Nr w)" and "Nr = 2 * Suc r"
  shows "aes_rijndael_decrypt rk (int Nr) ct = Some (fips_inv_cipher Nr w (map ct [0..<16]))"
proof -
  let ?G = "\<lambda>r st. on_columns inv_mix_column (add_round_key (round_key w r) (fips_inv_sub_bytes (fips_inv_shift_rows st)))"
  let ?F = "\<lambda>j. ?G (Nr - j)"
  let ?s = "add_round_key (round_key w Nr) (map ct [0..<16])"
  note key = holds_scheduleD [OF assms(1)]
  have k0: "holds_key rk 0 (round_key w Nr)" using key [of 0] by (simp add: dec_round_key_def)
  have kN: "holds_key rk (4 * Nr) (round_key w 0)" using key [of Nr] by (simp add: dec_round_key_def)
  have step: "dec_ROUND rk (4 * j) (columns_of st) = columns_of (?F j st)"
    if "1 \<le> j" "j < Nr" "length st = 16" for j st
    using that key [of j] by (simp add: dec_ROUND_eq inv_mix_add dec_round_key_def)
  obtain st where st: "round_loop (dec_ROUND rk) 0 (Suc r) (columns_of ?s) = Some (4 * Nr, columns_of st)"
    "st = fold ?F [1..<Nr] ?s" "length st = 16"
    using round_loop_states [where R = "dec_ROUND rk" and F = ?F and n = Nr and s = ?s, OF _ assms(2)]
    by (auto simp: step)
  have "fold ?F [1..<Nr] ?s = fold ?G (rev [1..<Nr]) ?s"
    unfolding rev_upt_diff [symmetric] by (simp add: fold_map comp_def)
  moreover have "nat (int Nr div 2) = Suc r" using assms(2) by simp
  ultimately show ?thesis
    using st k0 kN by (simp add: aes_rijndael_decrypt_def load_block_eq dec_last_eq fips_inv_cipher_def Let_def)
qed

subsection \<open>Key schedules\<close>

lemma sub_rot_word:
  "x XOR TE421 t XOR TE432 t XOR TE443 t XOR TE414 t XOR y = x XOR sub_word (rot_word t) XOR y"
  by (rule be32_cases [of t]; rule be32_cases [of x]; rule be32_cases [of y])
    (simp add: aes_lookups sub_word_def rot_word_def)

lemma sub_word_eq: "x XOR TE411 t XOR TE422 t XOR TE433 t XOR TE444 t = x XOR sub_word t"
  by (rule be32_cases [of t]; rule be32_cases [of x]) (simp add: aes_lookups sub_word_def)

lemma rcon_contents: "map (\<lambda>i. fips_rcon (Suc i)) [0..<10] = rcon"
  by code_simp

lemma RCON_eq: "i < 10 \<Longrightarrow> RCON i = fips_rcon (Suc i)"
  by (simp add: RCON_def flip: rcon_contents)

text \<open>The first \<open>n\<close> words of the block are words of the standard's schedule.\<close>

definition filled :: "(nat \<Rightarrow> u32) \<Rightarrow> nat \<Rightarrow> u32 list \<Rightarrow> bool" where
  "filled w n rk \<longleftrightarrow> length rk = 61 \<and> (\<forall>j < n. rk ! j = w j)"

lemma filled_nth: "filled w n rk \<Longrightarrow> j < n \<Longrightarrow> rk ! j = w j"
  by (simp add: filled_def)

lemma filled_update: "filled w n rk \<Longrightarrow> v = w n \<Longrightarrow> n < 61 \<Longrightarrow> filled w (Suc n) (rk[n := v])"
  unfolding filled_def by (simp add: nth_list_update less_Suc_eq)

text \<open>Assigning the next word in a sequence of assignments, as the bodies of the loops do.\<close>

lemma filled_let:
  assumes "filled w n' rk" and "n = n'" and "n < 61" and "v = w n" and "\<And>rk'. filled w (Suc n) rk' \<Longrightarrow> filled w m (f rk')"
  shows "filled w m (let rk' = rk[n := v] in f rk')"
  using assms filled_update by (auto simp: Let_def)

lemma filled_last:
  "filled w n' rk \<Longrightarrow> n = n' \<Longrightarrow> n < 61 \<Longrightarrow> v = w n \<Longrightarrow> m = Suc n \<Longrightarrow> filled w m (rk[n := v])"
  using filled_update by auto

lemma filled_let_value: "filled w m (f v) \<Longrightarrow> filled w m (let x = v in f x)"
  by simp

lemma key_index:
  assumes "k < Nk"
  shows "(Nk * i + (Nk + k)) mod Nk = (k :: nat)" and "(Nk * i + (Nk + k)) div Nk = Suc i"
proof -
  have "Nk * i + (Nk + k) = k + Nk * Suc i" by simp
  then show "(Nk * i + (Nk + k)) mod Nk = k" "(Nk * i + (Nk + k)) div Nk = Suc i"
    using assms by (simp_all only: mod_mult_self2 div_mult_self2 mod_less div_less)
qed

text \<open>The word \<open>n\<close> places after the word \<open>Nk * i\<close>, for \<open>n\<close> from \<open>Nk\<close> to \<open>2 * Nk - 1\<close>.\<close>

lemma key_expansion_at:
  assumes "Nk \<le> n" and "n < 2 * Nk"
  shows "key_expansion Nk key (Nk * i + n) = key_expansion Nk key (Nk * i + (n - Nk)) XOR
    (let temp = key_expansion Nk key (Nk * i + (n - 1))
     in if n = Nk then sub_word (rot_word temp) XOR fips_rcon (Suc i)
        else if 6 < Nk \<and> n = Nk + 4 then sub_word temp else temp)"
proof -
  obtain k where n: "n = Nk + k" "k < Nk" using assms by (metis add_less_cancel_left le_iff_add mult_2)
  have s: "Nk * i + n - 1 = Nk * i + (n - 1)" "Nk * i + n - Nk = Nk * i + (n - Nk)" using n by auto
  show ?thesis
    using n(2) by (subst key_expansion.simps) (simp add: Let_def key_index s n(1))
qed

lemmas expand_steps = filled_nth sub_rot_word sub_word_eq RCON_eq key_expansion_at Let_def [of "key_expansion _ _ _"]

lemma expand_128_filled:
  assumes "filled (key_expansion 4 key) (4 * i + 4) rk" and "i < 10"
  shows "filled (key_expansion 4 key) (4 * Suc i + 4) (expand_128 i rk)"
  unfolding expand_128_def using assms
  by - (rule filled_let_value, rule filled_let_value,
      (rule filled_let, assumption, simp, simp, simp add: expand_steps)+,
      rule filled_last, assumption, simp, simp, simp add: expand_steps, simp)

lemma expand_192_filled:
  assumes "filled (key_expansion 6 key) (6 * i + 6) rk" and "i < 7"
  shows "filled (key_expansion 6 key) (6 * Suc i + 6) (expand_192 i rk)"
proof -
  have "i \<noteq> 7" using assms(2) by simp
  then show ?thesis
    unfolding expand_192_def if_not_P [OF \<open>i \<noteq> 7\<close>] using assms
    by - (rule filled_let_value, rule filled_let_value,
        (rule filled_let, assumption, simp, simp, simp add: expand_steps)+,
        rule filled_last, assumption, simp, simp, simp add: expand_steps, simp)
qed

lemma expand_192_last:
  assumes "filled (key_expansion 6 key) (6 * i + 6) rk" and "i = 7"
  shows "filled (key_expansion 6 key) (6 * i + 10) (expand_192 i rk)"
  unfolding expand_192_def if_P [OF assms(2)] using assms(1) eq_imp_le [OF assms(2)]
  by - (rule filled_let_value, rule filled_let_value,
      (rule filled_let, assumption, simp, simp, simp add: expand_steps)+, simp add: add.commute)

lemma expand_256_filled:
  assumes "filled (key_expansion 8 key) (8 * i + 8) rk" and "i < 6"
  shows "filled (key_expansion 8 key) (8 * Suc i + 8) (expand_256 i rk)"
proof -
  have "i \<noteq> 6" using assms(2) by simp
  then show ?thesis
    unfolding expand_256_def if_not_P [OF \<open>i \<noteq> 6\<close>] using assms
    by - (rule filled_let_value, rule filled_let_value,
        (rule filled_let, assumption, simp, simp, simp add: expand_steps)+,
        rule filled_let_value,
        (rule filled_let, assumption, simp, simp, simp add: expand_steps)+,
        rule filled_last, assumption, simp, simp, simp add: expand_steps, simp)
qed

lemma expand_256_last:
  assumes "filled (key_expansion 8 key) (8 * i + 8) rk" and "i = 6"
  shows "filled (key_expansion 8 key) (8 * i + 12) (expand_256 i rk)"
  unfolding expand_256_def if_P [OF assms(2)] using assms(1) eq_imp_le [OF assms(2)]
  by - (rule filled_let_value, rule filled_let_value,
      (rule filled_let, assumption, simp, simp, simp add: expand_steps)+, simp add: add.commute)

lemma fold_filled:
  assumes "\<And>i rk. filled w (a * i + a) rk \<Longrightarrow> i < n \<Longrightarrow> filled w (a * Suc i + a) (f i rk)" and "filled w a rk"
  shows "filled w (a * n + a) (fold f [0..<n] rk)"
  using assms(1)
proof (induction n)
  case 0
  then show ?case using assms(2) by simp
next
  case (Suc n)
  then have "filled w (a * Suc n + a) (f n (fold f [0..<n] rk))" by simp
  then show ?case by simp
qed

lemma key_words: "i < Nk \<Longrightarrow> key_expansion Nk key i = GETU32 key (4 * i)"
  by (subst key_expansion.simps) (simp add: GETU32_eq)

lemma filled_key:
  assumes "length rk = 61"
  shows "filled (key_expansion 4 key) 4 (rk[0 := GETU32 key 0, 1 := GETU32 key 4, 2 := GETU32 key 8, 3 := GETU32 key 12])"
    and "filled (key_expansion 6 key) 6 (rk[0 := GETU32 key 0, 1 := GETU32 key 4, 2 := GETU32 key 8, 3 := GETU32 key 12,
      4 := GETU32 key 16, 5 := GETU32 key 20])"
    and "filled (key_expansion 8 key) 8 (rk[0 := GETU32 key 0, 1 := GETU32 key 4, 2 := GETU32 key 8, 3 := GETU32 key 12,
      4 := GETU32 key 16, 5 := GETU32 key 20, 6 := GETU32 key 24, 7 := GETU32 key 28])"
  using assms by (auto simp: filled_def key_words nth_list_update eval_nat_numeral less_Suc_eq)

text \<open>The number of words of the key that the three key sizes have, and the schedule for each.\<close>

lemma key_setup_enc_filled:
  assumes "length rk = 61" and "Nk \<in> {4, 6, 8}"
  shows "\<exists>rk'. aes_rijndael_key_setup_enc rk key (of_nat (32 * Nk)) = (int (Nk + 6), rk') \<and>
    filled (key_expansion Nk key) (4 * (Nk + 6) + 4) rk'"
proof -
  note k = filled_key [OF assms(1), of key]
  consider "Nk = 4" | "Nk = 6" | "Nk = 8" using assms(2) by auto
  then show ?thesis
  proof cases
    case 1
    then show ?thesis
      using fold_filled [where n = 10, OF expand_128_filled k(1)] by (simp add: aes_rijndael_key_setup_enc_def Let_def)
  next
    case 2
    have u: "[0..<8] = [0..<7] @ [7 :: nat]" by (simp add: upt_rec)
    show ?thesis
      using expand_192_last [OF fold_filled [where n = 7, OF expand_192_filled k(2)]] 2 u
      by (simp add: aes_rijndael_key_setup_enc_def Let_def)
  next
    case 3
    have u: "[0..<7] = [0..<6] @ [6 :: nat]" by (simp add: upt_rec)
    show ?thesis
      using expand_256_last [OF fold_filled [where n = 6, OF expand_256_filled k(3)]] 3 u
      by (simp add: aes_rijndael_key_setup_enc_def Let_def)
  qed
qed

lemma filled_schedule:
  assumes "filled w (4 * Nr + 4) rk"
  shows "holds_schedule rk Nr (round_key w)"
  unfolding holds_schedule_def holds_key_def using assms
  by (auto simp: columns_of_def round_key_def word_bytes_def filled_nth)

text \<open>Reversing the order of the round keys.\<close>

lemma length_swap_words [simp]: "length (swap_words i j rk) = length rk"
  by (simp add: swap_words_def Let_def)

lemma nth_swap_words:
  assumes "i < length rk" and "j < length rk"
  shows "swap_words i j rk ! k = (if k = j then rk ! i else if k = i then rk ! j else rk ! k)"
  using assms by (simp add: swap_words_def Let_def nth_list_update)

lemma length_invert_order [simp]: "length (invert_order i j rk) = length rk"
  by (induction i j rk rule: invert_order.induct) (subst invert_order.simps, simp)

lemma nth_invert_order:
  assumes "a \<le> Suc b" and "4 * b + 3 < length rk" and "d < 4"
  shows "invert_order (4 * a) (4 * b) rk ! (4 * r + d) =
    (if a \<le> r \<and> r \<le> b then rk ! (4 * (a + b - r) + d) else rk ! (4 * r + d))"
  using assms
proof (induction "b - a" arbitrary: a b rk rule: less_induct)
  case less
  show ?case
  proof (cases "a < b")
    case False
    then have "a + b - r = r" if "a \<le> r" "r \<le> b" using that by simp
    then show ?thesis using False by (subst invert_order.simps) auto
  next
    case True
    define rk' where "rk' = swap_words (4 * a + 3) (4 * b + 3) (swap_words (4 * a + 2) (4 * b + 2)
      (swap_words (4 * a + 1) (4 * b + 1) (swap_words (4 * a) (4 * b) rk)))"
    have swapped: "rk' ! (4 * q + d) = (if q = a then rk ! (4 * b + d) else if q = b then rk ! (4 * a + d) else rk ! (4 * q + d))" for q
    proof -
      have "d = 0 \<or> d = 1 \<or> d = 2 \<or> d = 3" using less.prems(3) by auto
      then show ?thesis
        using True less.prems(2) unfolding rk'_def by (elim disjE; auto simp: nth_swap_words; presburger)
    qed
    have "invert_order (4 * a) (4 * b) rk = invert_order (4 * Suc a) (4 * (b - 1)) rk'"
      using True by (subst invert_order.simps) (simp add: rk'_def diff_mult_distrib2 add.commute)
    also have "\<dots> ! (4 * r + d) = (if Suc a \<le> r \<and> r \<le> b - 1 then rk' ! (4 * (a + b - r) + d) else rk' ! (4 * r + d))"
      using True less.prems less.hyps [of "b - 1" "Suc a" rk'] by (simp add: rk'_def)
    also have "\<dots> = (if a \<le> r \<and> r \<le> b then rk ! (4 * (a + b - r) + d) else rk ! (4 * r + d))"
      using True by (auto simp: swapped)
    finally show ?thesis .
  qed
qed

lemma length_fold_update [simp]: "length (fold (\<lambda>k rk. rk[k := f (rk ! k)]) ks rk) = length rk"
  by (induction ks arbitrary: rk) simp_all

lemma nth_fold_update:
  assumes "k < length rk"
  shows "fold (\<lambda>k rk. rk[k := f (rk ! k)]) [a..<b] rk ! k = (if a \<le> k \<and> k < b then f (rk ! k) else rk ! k)"
  using assms by (induction b) (auto simp: nth_list_update less_Suc_eq)

lemma nth_dec_schedule:
  assumes "4 * Nr + 3 < length rk" and "r \<le> Nr" and "d < 4"
  shows "inv_mix_keys Nr (invert_order 0 (4 * Nr) rk) ! (4 * r + d) =
    (if 0 < r \<and> r < Nr then inv_mix_word (rk ! (4 * (Nr - r) + d)) else rk ! (4 * (Nr - r) + d))"
  using assms nth_invert_order [of 0 Nr rk d r] unfolding inv_mix_keys_def
  by (auto simp: nth_fold_update)

lemma columns_inv_mix:
  assumes "length b = 16" and "columns_of b = (w0, w1, w2, w3)"
  shows "columns_of (on_columns inv_mix_column b) = (inv_mix_word w0, inv_mix_word w1, inv_mix_word w2, inv_mix_word w3)"
  using assms
  by (elim list16_cases) (auto simp: columns_of_def on_columns_def inv_mix_column_def inv_mix_word_be32)

lemma filled_dec_schedule:
  assumes "filled w (4 * Nr + 4) rk" and "Nr < 15"
  shows "holds_schedule (inv_mix_keys Nr (invert_order 0 (4 * Nr) rk)) Nr (dec_round_key Nr w)"
  unfolding holds_schedule_def
proof (intro allI impI)
  fix r assume r: "r \<le> Nr"
  let ?dk = "inv_mix_keys Nr (invert_order 0 (4 * Nr) rk)"
  have len: "4 * Nr + 3 < length rk" using assms by (simp add: filled_def)
  have k: "holds_key rk (4 * (Nr - r)) (round_key w (Nr - r))"
    using holds_scheduleD [OF filled_schedule [OF assms(1)], of "Nr - r"] by simp
  show "holds_key ?dk (4 * r) (dec_round_key Nr w r)"
  proof (cases "0 < r \<and> r < Nr")
    case True
    then have "?dk ! (4 * r + d) = inv_mix_word (rk ! (4 * (Nr - r) + d))" if "d < 4" for d
      using nth_dec_schedule [OF len r that] by auto
    from this [of 0] this [of 1] this [of 2] this [of 3] True show ?thesis
      using k columns_inv_mix [OF length_transforms(8), OF sym, of _ _ _ _ w "Nr - r"]
      unfolding holds_key_def dec_round_key_def by (simp del: add_2_eq_Suc add_2_eq_Suc' One_nat_def)
  next
    case False
    then have "?dk ! (4 * r + d) = rk ! (4 * (Nr - r) + d)" if "d < 4" for d
      using nth_dec_schedule [OF len r that] by auto
    from this [of 0] this [of 1] this [of 2] this [of 3] False show ?thesis
      using k unfolding holds_key_def dec_round_key_def if_not_P [OF False]
      by (simp del: add_2_eq_Suc add_2_eq_Suc')
  qed
qed

subsection \<open>The interface implements the standard\<close>

lemma filled_private: "filled w n rk \<Longrightarrow> n \<le> 60 \<Longrightarrow> filled w n (rk[AES_PRIV_NR_POS := v])"
  by (simp add: filled_def AES_PRIV_NR_POS_def)

lemma key_bits: "Nk \<in> {4, 6, 8} \<Longrightarrow> of_nat (4 * Nk) * 8 = (of_nat (32 * Nk) :: u64)"
  by auto

text \<open>
  A block that \<open>malloc\<close> returned has \<open>AES_PRIV_SIZE\<close> bytes. A key has \<open>4 * Nk\<close> bytes; the
  context that \<open>aes_encrypt_init\<close> returns encrypts with \<open>Nk + 6\<close> rounds.
\<close>

lemma aes_encrypt_fips:
  assumes "length mem = 61" and "Nk \<in> {4, 6, 8}"
  shows "\<exists>rk. aes_encrypt_init (Some mem) key (of_nat (4 * Nk)) live = (Some rk, Suc live) \<and> length rk = 61 \<and>
    (\<forall>pt. aes_encrypt (Some rk) pt = Inr (fips_cipher (Nk + 6) (key_expansion Nk key) (map pt [0..<16])))"
proof -
  obtain rk where rk: "aes_rijndael_key_setup_enc mem key (of_nat (32 * Nk)) = (int (Nk + 6), rk)"
    "filled (key_expansion Nk key) (4 * (Nk + 6) + 4) rk"
    using key_setup_enc_filled [OF assms] by blast
  let ?rk = "rk[AES_PRIV_NR_POS := word_of_int (int (Nk + 6))]"
  have f: "filled (key_expansion Nk key) (4 * (Nk + 6) + 4) ?rk" using filled_private rk(2) assms(2) by auto
  have nr: "sint (?rk ! AES_PRIV_NR_POS) = int (Nk + 6)"
    using rk(2) assms(2) by (auto simp: filled_def AES_PRIV_NR_POS_def)
  obtain r where "Nk + 6 = 2 * Suc r" using assms(2) by (auto intro: that [of 4] that [of 5] that [of 6])
  then have "aes_encrypt (Some ?rk) pt = Inr (fips_cipher (Nk + 6) (key_expansion Nk key) (map pt [0..<16]))" for pt
    using rijndael_encrypt_eq [OF filled_schedule [OF f]] nr by (simp add: aes_encrypt_def)
  moreover have "aes_encrypt_init (Some mem) key (of_nat (4 * Nk)) live = (Some ?rk, Suc live)"
    unfolding aes_encrypt_init_def using rk(1) by (simp only: key_bits [OF assms(2)]) simp
  ultimately show ?thesis using f by (auto simp: filled_def)
qed

lemma aes_decrypt_fips:
  assumes "length mem = 61" and "Nk \<in> {4, 6, 8}"
  shows "\<exists>rk. aes_decrypt_init (Some mem) key (of_nat (4 * Nk)) live = (Some rk, Suc live) \<and> length rk = 61 \<and>
    (\<forall>ct. aes_decrypt (Some rk) ct = Inr (fips_inv_cipher (Nk + 6) (key_expansion Nk key) (map ct [0..<16])))"
proof -
  obtain rk where rk: "aes_rijndael_key_setup_enc mem key (of_nat (32 * Nk)) = (int (Nk + 6), rk)"
    "filled (key_expansion Nk key) (4 * (Nk + 6) + 4) rk"
    using key_setup_enc_filled [OF assms] by blast
  let ?dk = "inv_mix_keys (Nk + 6) (invert_order 0 (4 * (Nk + 6)) rk)"
  let ?rk = "?dk[AES_PRIV_NR_POS := word_of_int (int (Nk + 6))]"
  have len: "length ?dk = 61" using rk(2) by (simp add: filled_def inv_mix_keys_def length_fold_update)
  have "holds_schedule ?dk (Nk + 6) (dec_round_key (Nk + 6) (key_expansion Nk key))"
    using assms(2) by (intro filled_dec_schedule [OF rk(2)]) auto
  then have f: "holds_schedule ?rk (Nk + 6) (dec_round_key (Nk + 6) (key_expansion Nk key))"
    using assms(2) by (auto simp: holds_schedule_def holds_key_def AES_PRIV_NR_POS_def)
  have nr: "sint (?rk ! AES_PRIV_NR_POS) = int (Nk + 6)"
    using len assms(2) by (auto simp: AES_PRIV_NR_POS_def)
  obtain r where "Nk + 6 = 2 * Suc r" using assms(2) by (auto intro: that [of 4] that [of 5] that [of 6])
  then have "aes_decrypt (Some ?rk) ct = Inr (fips_inv_cipher (Nk + 6) (key_expansion Nk key) (map ct [0..<16]))" for ct
    using rijndael_decrypt_eq [OF f] nr by (simp add: aes_decrypt_def)
  moreover have "aes_decrypt_init (Some mem) key (of_nat (4 * Nk)) live = (Some ?rk, Suc live)"
    unfolding aes_decrypt_init_def aes_rijndael_key_setup_dec_def using rk(1)
    by (simp only: key_bits [OF assms(2)]) (simp add: nat_add_distrib)
  ultimately show ?thesis using len by auto
qed

lemma map_nth_16: "length b = 16 \<Longrightarrow> map ((!) b) [0..<16] = b"
  using map_nth [of b] by simp

lemma finite_left_inverse:
  assumes "finite A" and "\<And>x. x \<in> A \<Longrightarrow> f x \<in> A" and "\<And>x. x \<in> A \<Longrightarrow> g (f x) = x" and "x \<in> A"
  shows "f (g x) = x"
proof -
  have "inj_on f A" using assms(3) by (metis inj_onI)
  then have "f ` A = A" using assms(1,2) by (intro endo_inj_surj) auto
  then show ?thesis using assms(3,4) by (metis imageE)
qed

text \<open>
  The cipher as a client sees it, on keys and blocks given as lists: a context from any block
  of memory, and the call on it.
\<close>

definition aes_enc :: "nat \<Rightarrow> u32 list \<Rightarrow> bytes \<Rightarrow> bytes \<Rightarrow> bytes" where
  "aes_enc len mem k b = projr (aes_encrypt (fst (aes_encrypt_init (Some mem) ((!) k) (of_nat len) 0)) ((!) b))"

definition aes_dec :: "nat \<Rightarrow> u32 list \<Rightarrow> bytes \<Rightarrow> bytes \<Rightarrow> bytes" where
  "aes_dec len mem k b = projr (aes_decrypt (fst (aes_decrypt_init (Some mem) ((!) k) (of_nat len) 0)) ((!) b))"

lemma aes_enc_fips:
  assumes "length mem = 61" and "Nk \<in> {4, 6, 8}"
  shows "aes_enc (4 * Nk) mem k b = fips_cipher (Nk + 6) (key_expansion Nk ((!) k)) (map ((!) b) [0..<16])"
  using aes_encrypt_fips [OF assms, of "(!) k" 0] by (auto simp: aes_enc_def)

lemma aes_dec_fips:
  assumes "length mem = 61" and "Nk \<in> {4, 6, 8}"
  shows "aes_dec (4 * Nk) mem k b = fips_inv_cipher (Nk + 6) (key_expansion Nk ((!) k)) (map ((!) b) [0..<16])"
  using aes_decrypt_fips [OF assms, of "(!) k" 0] by (auto simp: aes_dec_def)

lemma length_fips_cipher [simp]: "length (fips_cipher Nr w b) = 16"
  by (simp add: fips_cipher_def Let_def)

lemma length_fips_inv_cipher [simp]: "length b = 16 \<Longrightarrow> length (fips_inv_cipher Nr w b) = 16"
  by (simp add: fips_inv_cipher_def Let_def)

lemma aes_is_block_cipher:
  assumes "length mem = 61" and "length mem' = 61" and "Nk \<in> {4, 6, 8}"
  shows "block_cipher (aes_enc (4 * Nk) mem) (aes_dec (4 * Nk) mem')"
proof
  note enc = aes_enc_fips [OF assms(1,3)] and dec = aes_dec_fips [OF assms(2,3)]
  fix k b
  show len: "length (aes_enc (4 * Nk) mem k b) = 16" "length (aes_dec (4 * Nk) mem' k b) = 16" for b
    by (simp_all add: enc dec)
  show dec_enc: "aes_dec (4 * Nk) mem' k (aes_enc (4 * Nk) mem k b) = b" if "length b = 16" for b
    using that by (simp add: enc dec map_nth_16 fips_inverse)
  have fin: "finite {b :: bytes. length b = 16}"
    using finite_lists_length_eq [of "UNIV :: u8 set" 16] by simp
  show "aes_enc (4 * Nk) mem k (aes_dec (4 * Nk) mem' k b) = b" if "length b = 16"
    by (rule finite_left_inverse [OF fin]) (simp_all add: that dec_enc len)
qed

interpretation aes128: block_cipher "aes_enc 16 (replicate 61 0)" "aes_dec 16 (replicate 61 0)"
  using aes_is_block_cipher [of "replicate 61 0" "replicate 61 0" 4] by simp

interpretation aes192: block_cipher "aes_enc 24 (replicate 61 0)" "aes_dec 24 (replicate 61 0)"
  using aes_is_block_cipher [of "replicate 61 0" "replicate 61 0" 6] by simp

interpretation aes256: block_cipher "aes_enc 32 (replicate 61 0)" "aes_dec 32 (replicate 61 0)"
  using aes_is_block_cipher [of "replicate 61 0" "replicate 61 0" 8] by simp

lemma key_setup_enc_refuses:
  "keyBits \<notin> {128, 192, 256} \<Longrightarrow> fst (aes_rijndael_key_setup_enc rk key keyBits) = -1"
  by (simp add: aes_rijndael_key_setup_enc_def Let_def)

lemma length_test_pattern [simp]: "length (test_pattern b) = length b"
  by (simp add: test_pattern_def Let_def)

subsection \<open>Properties\<close>

text \<open>
  C18: For keys of 16, 24 and 32 bytes the context that \<open>aes_encrypt_init\<close> makes out of any
  block of memory encrypts as FIPS 197 says, with 10, 12 and 14 rounds.
\<close>

theorem aes_encrypt_is_fips_197:
  assumes "length mem = AES_PRIV_SIZE div 4" and "Nk \<in> {4, 6, 8}" and "length pt = 16"
  shows "\<exists>rk. aes_encrypt_init (Some mem) key (of_nat (4 * Nk)) live = (Some rk, Suc live) \<and>
    aes_encrypt (Some rk) ((!) pt) = Inr (fips_cipher (Nk + 6) (key_expansion Nk key) pt)"
proof -
  have "length mem = 61" using assms(1) by (simp add: AES_PRIV_SIZE_def)
  from aes_encrypt_fips [OF this assms(2), of key live] show ?thesis
    using assms(3) by (auto simp: map_nth_16)
qed

theorem aes_encrypt_is_fips_197_witness:
  "\<exists>rk. aes_encrypt_init (Some (replicate 61 7)) (\<lambda>_. 1) 32 0 = (Some rk, 1) \<and>
    aes_encrypt (Some rk) ((!) (replicate 16 2)) = Inr (fips_cipher 14 (key_expansion 8 (\<lambda>_. 1)) (replicate 16 2))"
  using aes_encrypt_is_fips_197 [of "replicate 61 7" 8 "replicate 16 2" "\<lambda>_. 1" 0] by (simp add: AES_PRIV_SIZE_def)

text \<open>
  C19: Decryption inverts encryption and encryption decryption, for every key size and key,
  and whatever the two blocks of memory held before.
\<close>

theorem aes_roundtrip:
  assumes "length mem = 61" and "length mem' = 61" and "len \<in> {16, 24, 32}" and "length b = 16"
  shows "aes_dec len mem' k (aes_enc len mem k b) = b \<and> aes_enc len mem k (aes_dec len mem' k b) = b"
proof -
  obtain Nk where Nk: "len = 4 * Nk" "Nk \<in> {4, 6, 8}"
    using assms(3) by (auto intro: that [of 4] that [of 6] that [of 8])
  show ?thesis
    using block_cipher.dec_enc [OF aes_is_block_cipher [OF assms(1,2) Nk(2)] assms(4)]
      block_cipher.enc_dec [OF aes_is_block_cipher [OF assms(1,2) Nk(2)] assms(4)] Nk(1) by simp
qed

theorem aes_roundtrip_witness:
  "aes_dec 24 (replicate 61 5) aes_key (aes_enc 24 (replicate 61 9) aes_key (replicate 16 3)) = replicate 16 3"
  using aes_roundtrip [of "replicate 61 9" "replicate 61 5" 24 "replicate 16 3" aes_key] by simp

text \<open>
  C20: When all allocations succeed, the enclave runs to its return with 0, the decrypted
  buffer is the test pattern again, and every block has been freed.
\<close>

theorem aes_runs:
  assumes "length p1 = 16" and "length c = 16" and "length p2 = 16" and "length m1 = 61" and "length m2 = 61"
  shows "\<exists>ct. aes (Some p1) (Some c) (Some p2) (Some m1) (Some m2) = Inr (test_pattern p1, ct, test_pattern p1, 0, 0)"
proof -
  have four: "(4 :: nat) \<in> {4, 6, 8}" by simp
  let ?w = "key_expansion 4 ((!) aes_key)" and ?pt = "test_pattern p1"
  obtain rk where rk: "aes_encrypt_init (Some m1) ((!) aes_key) 16 3 = (Some rk, 4)" "length rk = 61"
    "\<And>pt. aes_encrypt (Some rk) pt = Inr (fips_cipher 10 ?w (map pt [0..<16]))"
    using aes_encrypt_fips [OF assms(4) four, of "(!) aes_key" 3] by auto
  obtain dk where dk: "aes_decrypt_init (Some m2) ((!) aes_key) 16 3 = (Some dk, 4)" "length dk = 61"
    "\<And>ct. aes_decrypt (Some dk) ct = Inr (fips_inv_cipher 10 ?w (map ct [0..<16]))"
    using aes_decrypt_fips [OF assms(5) four, of "(!) aes_key" 3] by auto
  have pt: "length ?pt = 16" by (simp add: assms(1))
  let ?ct = "fips_cipher 10 ?w ?pt"
  have w: "buf_write c 0 ?ct = ?ct" "buf_write p2 0 ?pt = ?pt" using assms pt by (simp_all add: buf_write_0)
  show ?thesis
    unfolding aes_def using assms rk dk pt w
    by (simp add: map_nth_16 fips_inverse aes_encrypt_deinit_def aes_decrypt_deinit_def Let_def flip: numeral_3_eq_3)
qed

theorem aes_runs_witness:
  "\<exists>ct. aes (Some (replicate 16 0)) (Some (replicate 16 0)) (Some (replicate 16 0)) (Some (replicate 61 0)) (Some (replicate 61 0)) =
    Inr (test_pattern (replicate 16 0), ct, test_pattern (replicate 16 0), 0, 0)"
  using aes_runs [of "replicate 16 0" "replicate 16 0" "replicate 16 0" "replicate 61 0" "replicate 61 0"] by simp

text \<open>
  Other lengths are refused and the block is given back, up to the wrap-around of the length
  in bits; a length \<open>2 ^ 61\<close> bytes longer is taken for the same key size.
\<close>

lemma aes_init_refuses:
  assumes "len * 8 \<notin> {128, 192, 256}"
  shows "aes_encrypt_init (Some mem) key len live = (None, live)"
    and "aes_decrypt_init (Some mem) key len live = (None, live)"
  using key_setup_enc_refuses [OF assms, of mem key]
  by (auto simp: aes_encrypt_init_def aes_decrypt_init_def aes_rijndael_key_setup_dec_def Let_def split: prod.split)

lemma aes_init_length_wraps: "aes_encrypt_init mem key (len + 2 ^ 61) live = aes_encrypt_init mem key len live"
proof -
  have "(len + 2 ^ 61) * 8 = len * 8" by (simp add: distrib_right)
  then show ?thesis unfolding aes_encrypt_init_def by (simp only:)
qed

text \<open>Without memory the test enclave dereferences a null pointer.\<close>

lemma aes_no_memory:
  "aes None m_ct m_pt2 m_rk1 m_rk2 = Inl (NullDeref ''pt1'')"
  "aes (Some p1) m_ct m_pt2 None m_rk2 = Inl (NullDeref ''ctx'')"
  by (simp_all add: aes_def aes_encrypt_init_def aes_encrypt_def)

end
