(* ===== verification/Test_Enclaves.thy ===== *)
theory Test_Enclaves
  imports SM4_CBC SM2 Seal Print
begin

text \<open>
  The test enclaves of the SDK, \<^verbatim>\<open>demo/seal_data\<close>, \<^verbatim>\<open>demo/gm_test_enclaves\<close>, and the small ones
  \<^verbatim>\<open>demo/prime\<close> and \<^verbatim>\<open>demo/count\<close>: the programs that put the libraries together. The theorems
  compose those of the libraries: the sealing test passes, the tests of the cipher modes see
  no difference, and the test of SM2 never sees a signature refused.

  A call of \<open>eapp_print\<close> is recorded with its format and arguments, in order; the theory
  \<open>Print\<close> says what it writes. What an uninitialised array of \<open>n\<close> bytes holds is \<open>junk n\<close>.
  A run gives the stores outside arrays it made, what it printed, and its result.
\<close>

type_synonym prints = "(string \<times> varg list) list"

definition say :: "string \<Rightarrow> prints" where
  "say s = [(s, [])]"

definition hex_line :: string where
  "hex_line = ''%d, %d, %d, %d, %d, %d, %d, %d, %d, %d, %d, %d, %d, %d, %d, %d'' @ [CHR 0x0A]"

definition printHex :: "bytes \<Rightarrow> int \<Rightarrow> prints" where
  "printHex c n =
     (let rounds = cdiv n 16
      in map (\<lambda>i. (hex_line, map (\<lambda>k. VNum (ucast (c ! (i * 16 + k)))) [0..<16])) [0..<nat rounds])"

definition newline :: "string \<Rightarrow> string" where
  "newline s = s @ [CHR 0x0A]"

definition c_string :: "string \<Rightarrow> bytes" where
  "c_string s = map of_char s"

text \<open>\<open>strncmp\<close>, on arrays that hold the characters it reads.\<close>

fun strncmp :: "bytes \<Rightarrow> bytes \<Rightarrow> nat \<Rightarrow> int" where
  "strncmp l r n =
     (if n = 0 then 0
      else if hd l \<noteq> 0 \<and> hd r \<noteq> 0 \<and> n - 1 \<noteq> 0 \<and> hd l = hd r then strncmp (tl l) (tl r) (n - 1)
      else uint (hd l) - uint (hd r))"

declare strncmp.simps [simp del]

subsection \<open>Sealing\<close>

definition seal_data :: string where "seal_data = ''Data to encrypt, Hello penglai''"
definition additional_text :: string where "additional_text = ''add mac text''"

definition test_salt :: bytes where
  "test_salt = [0x2d, 0xfb, 0x42, 0x9a, 0x48, 0x69, 0x7c, 0x34, 0x00, 0x6d, 0xa8, 0x86, 0x9a, 0xf6, 0xd0, 0x12]"

text \<open>The first two tests derive a key, and one from another salt.\<close>

definition derive_test :: "key_service \<Rightarrow> bytes \<Rightarrow> prints" where
  "derive_test EAPP_GET_KEY salt =
     (let (ret, seal_key) = DeriveSealingKey EAPP_GET_KEY salt SEAL_KEY_SALT_LEN SEAL_KEY_LEN
      in (if ret \<noteq> 0 then say (newline ''DeriveSealingKey() failed'') else []) @ printHex seal_key (int SEAL_KEY_LEN))"

definition sealed_buffer :: "(nat \<Rightarrow> bytes) \<Rightarrow> u32 \<Rightarrow> penglai_sealed_data_t" where
  "sealed_buffer junk sealed_data_len =
     \<lparr>sd_nonce = junk 16, sd_salt = junk 16, txt_encrypt_size = 0, add_mac_txt_size = 0,
      payload_data = junk (unat sealed_data_len - unat sizeof_sealed_data)\<rparr>"

definition unseal_checks :: "u32 \<Rightarrow> u32 \<Rightarrow> unseal_result \<Rightarrow> prints \<times> int" where
  "unseal_checks add_len data_len u =
     (if us_ret u \<noteq> 0 then (say (newline ''seal_data decrypt authenticate Fail''), -1)
      else let out = say (newline ''seal_data decrypt authenticate Success'')
           in if us_mac_len u \<noteq> add_len \<or> strncmp (us_mac u) (c_string additional_text) (unat add_len) \<noteq> 0
              then (out @ say (newline ''demac_data from sealed_data is not equal to initial additional_text''), -1)
              else if us_text_len u \<noteq> data_len \<or> strncmp (us_text u) (c_string seal_data) (unat data_len) \<noteq> 0
              then (out @ say (newline ''decrypted_data from sealed_data is not equal to initial seal_data''), -1)
              else (out @ say (newline ''penglai_seal test finished --- ALL TEST SUCCESS!''), us_ret u))"

definition seal_test_func ::
  "key_service \<Rightarrow> 'g random_service \<Rightarrow> 'g \<Rightarrow> (nat \<Rightarrow> bytes) \<Rightarrow> fault + fault list \<times> prints \<times> int" where
  "seal_test_func EAPP_GET_KEY read_rand g junk =
     (let out = say (newline ''[TEST 1]: Can DeriveSealingKey() derive the same key on same salt between multiple setup times?'') @
                derive_test EAPP_GET_KEY test_salt @
                say (newline ''[TEST 2]: If change salt, can DeriveSealingKey() derive different keys?'') @
                derive_test EAPP_GET_KEY (test_salt[0 := 0xff]) @
                say (newline ''[TEST 3]: Can seal output cypher text and unseal get the correct plaintext'') @
                [(newline ''plaintext: %s, add_text: %s'', [VStr seal_data, VStr additional_text])];
          data_len = of_nat (length seal_data);
          add_len = of_nat (length additional_text);
          sealed_data_len = penglai_calc_sealed_data_size add_len data_len
      in if sealed_data_len = UINT32_MAX
         then Inr ([], out @ say (newline ''seal_data_len is too large, ERROR_OUT_OF_MEMORY''), -1)
         else
           let (fs, ret, sealed_data, g) = penglai_seal_data EAPP_GET_KEY read_rand g add_len
                 (Some (c_string additional_text)) data_len (c_string seal_data) sealed_data_len
                 (sealed_buffer junk sealed_data_len)
           in if ret \<noteq> 0 then Inr (fs, out @ say (newline ''seal_data encrypt failed''), -1)
              else
                let out = out @ say (newline ''seal_data encrypt success'');
                    encrypt_add_len = penglai_get_add_mac_txt_len (Some sealed_data);
                    encrypt_data_len = penglai_get_encrypt_txt_len (Some sealed_data)
                in case penglai_unseal_data EAPP_GET_KEY (Some sealed_data) (junk (unat encrypt_add_len)) encrypt_add_len
                          (junk (unat encrypt_data_len)) encrypt_data_len of
                     Inl f \<Rightarrow> Inl f
                   | Inr u \<Rightarrow>
                       let (out', ret) = unseal_checks add_len data_len u
                       in Inr (fs @ us_faults u, out @ out', ret))"

lemma strncmp_same: "n \<le> length a \<Longrightarrow> n \<le> length b \<Longrightarrow> take n a = take n b \<Longrightarrow> strncmp a b n = 0"
proof (induction n arbitrary: a b)
  case (Suc n)
  then obtain x a' b' where "a = x # a'" "b = x # b'" "take n a' = take n b'"
    by (cases a; cases b) auto
  then show ?case using Suc by (subst strncmp.simps) simp
qed (simp add: strncmp.simps)

text \<open>
  When the monitor delivers keys, the sealing test passes, whatever the random bytes are and
  whatever the arrays held.
\<close>

lemma seal_test_ok:
  assumes key: "\<And>salt n m. fst (DeriveSealingKey get_key salt n m) = 0"
    and rand: "\<And>g n. length (fst (rand g n)) = n" and junk: "\<And>n. length (junk n) = n"
  shows "\<exists>out. seal_test_func get_key rand g junk =
    Inr (replicate 2 (OutOfBounds ''offset'' (-1)), out @ say (newline ''penglai_seal test finished --- ALL TEST SUCCESS!''), 0)"
proof -
  let ?sd = "sealed_buffer junk 98"
  have sz: "penglai_calc_sealed_data_size 12 30 = 98"
    by (simp add: word_unat_eq_iff calc_size_eq)
  have ready: "seal_ready get_key rand g 12 (Some (c_string additional_text)) 30 (c_string seal_data) 98 ?sd"
    using key junk by (simp add: seal_ready_def sz UINT32_MAX_def sealed_buffer_def sizeof_sealed_data_def mac_bytes_def
        c_string_def additional_text_def seal_data_def)
  obtain fs ret sd' g' where seal: "penglai_seal_data get_key rand g 12 (Some (c_string additional_text)) 30 (c_string seal_data) 98 ?sd = (fs, ret, sd', g')"
    by (metis prod.exhaust)
  obtain salt g1 where r1: "rand g SEAL_KEY_SALT_LEN = (salt, g1)" by fastforce
  obtain nonce g2 where r2: "rand g1 SEAL_DATA_NONCE_LEN = (nonce, g2)" by fastforce
  obtain r k where k: "DeriveSealingKey get_key salt SEAL_KEY_SALT_LEN SEAL_KEY_LEN = (r, k)" by fastforce
  have sizes: "add_mac_txt_size sd' = 12" "txt_encrypt_size sd' = 30" "fs = [OutOfBounds ''offset'' (-1)]"
    using seal seal_data_eq [OF ready r1 r2 k] ocb_faults(1) [of 16] by (auto simp: SM4_OCB_Encrypt_def)
  have unseal: "ret = 0" "penglai_unseal_data get_key (Some sd') (junk 12) 12 (junk 30) 30 =
    Inr \<lparr>us_faults = fs, us_ret = 0, us_mac = c_string additional_text, us_mac_len = 12,
         us_text = c_string seal_data, us_text_len = 30\<rparr>"
    using seal_unseal [OF ready _ rand seal, of 30 12 "junk 30" "junk 12"] junk [of 12] junk [of 30]
    by (simp_all add: mac_bytes_def c_string_def additional_text_def seal_data_def buf_write_0)
  have len: "length seal_data = 30" "length additional_text = 12"
    by (simp_all add: seal_data_def additional_text_def)
  have two: "replicate 2 x = [x, x]" for x :: fault by (simp add: numeral_2_eq_2)
  show ?thesis
    using seal unseal sizes sz strncmp_same
    by (simp add: seal_test_func_def Let_def len UINT32_MAX_def penglai_get_add_mac_txt_len_def
        penglai_get_encrypt_txt_len_def unseal_checks_def c_string_def two)
qed

text \<open>The generator of the library as the source of random bytes, where it returns.\<close>

definition generator :: "(nat \<Rightarrow> bytes) \<Rightarrow> 'a rand_state_scheme random_service" where
  "generator junk s n = (case penglai_read_rand (junk n) (int n) s of None \<Rightarrow> (junk n, s) | Some r \<Rightarrow> r)"

lemma length_generator:
  assumes "\<And>n. length (junk n) = n"
  shows "length (fst (generator junk s n)) = n"
proof (cases "n = 0")
  case True
  then show ?thesis using assms [of 0] by (simp add: generator_def penglai_read_rand_def cdiv_def Let_def)
next
  case False
  then show ?thesis using assms [of n] read_rand_bytes [of "junk n" n s]
    by (auto simp: generator_def split: option.split)
qed

subsection \<open>The CBC mode\<close>

text \<open>
  One pass of the loop: a random length, a random text of that length, its encryption and
  decryption, and the comparison. The arrays are those of the enclave; the loops that read
  random numbers need not return.
\<close>

type_synonym cbc_arrays = "bytes \<times> bytes \<times> bytes"

definition test_cbc_time ::
  "bytes \<Rightarrow> bytes \<Rightarrow> (nat \<Rightarrow> bytes) \<Rightarrow> nat \<Rightarrow> cbc_arrays \<times> 'a rand_state_scheme \<Rightarrow> (prints \<times> cbc_arrays \<times> 'a rand_state_scheme) option" where
  "test_cbc_time key iv junk t = (\<lambda>((plaintext, ciphertext, decrypttext), s).
     case penglai_read_rand (junk 1) 1 s of None \<Rightarrow> None | Some (randomLen, s) \<Rightarrow>
     (let plaintextLen = uint (randomLen ! 0);
          out1 = [([CHR 0x0A, CHR 0x0A] @ newline ''Time %d, plaintext len: %d'', [VNum (of_nat t), VNum (of_int plaintextLen)])];
          ciphertextLen = CBC_CipherText_Len plaintextLen
      in case penglai_read_rand plaintext plaintextLen s of None \<Rightarrow> None | Some (plaintext, s) \<Rightarrow>
     (let out2 = (newline ''plaintext, len = %d'', [VNum (of_int plaintextLen)]) # printHex plaintext plaintextLen;
          (len, ciphertext) = SM4_CBC_Encrypt key iv plaintext plaintextLen ciphertext ciphertextLen;
          out3 = (newline ''Eecrypt----------'', []) # (newline ''ciphertext, len = %d'', [VNum (of_int len)]) # printHex ciphertext len;
          (len, decrypttext) = SM4_CBC_Decrypt key iv ciphertext ciphertextLen decrypttext plaintextLen;
          out4 = (newline ''Decrypt----------'', []) # (newline ''decrypttext, len = %d'', [VNum (of_int len)]) # printHex decrypttext len;
          out5 = map (\<lambda>i. (newline ''[ERROR] Time %d, index %d diff'', [VNum (of_nat t), VNum (of_nat i)]))
                   (filter (\<lambda>i. plaintext ! i \<noteq> decrypttext ! i) [0..<nat plaintextLen])
      in Some (out1 @ out2 @ out3 @ out4 @ out5, (plaintext, ciphertext, decrypttext), s))))"

fun test_cbc_times ::
  "bytes \<Rightarrow> bytes \<Rightarrow> (nat \<Rightarrow> bytes) \<Rightarrow> nat list \<Rightarrow> cbc_arrays \<times> 'a rand_state_scheme \<Rightarrow> (prints \<times> 'a rand_state_scheme) option" where
  "test_cbc_times key iv junk [] (b, s) = Some ([], s)"
| "test_cbc_times key iv junk (t # ts) (b, s) =
     (case test_cbc_time key iv junk t (b, s) of None \<Rightarrow> None | Some (out, b, s) \<Rightarrow>
      (case test_cbc_times key iv junk ts (b, s) of None \<Rightarrow> None | Some (out', s) \<Rightarrow> Some (out @ out', s)))"

definition test_sm4_cbc :: "(nat \<Rightarrow> bytes) \<Rightarrow> 'a rand_state_scheme \<Rightarrow> (prints \<times> int \<times> 'a rand_state_scheme) option" where
  "test_sm4_cbc junk s =
     (case penglai_read_rand (junk 16) 16 s of None \<Rightarrow> None | Some (iv, s) \<Rightarrow>
     (case penglai_read_rand (junk 16) 16 s of None \<Rightarrow> None | Some (key, s) \<Rightarrow>
     (let out = say (newline ''random initialized IV :'') @ printHex iv 16 @ say (newline ''random initialized Key :'') @ printHex key 16
      in case test_cbc_times key iv junk [0..<10] ((junk 256, junk 256, junk 256), s) of None \<Rightarrow> None
         | Some (out', s) \<Rightarrow> Some (out @ out', 0, s))))"

definition error_line :: "string \<times> varg list \<Rightarrow> bool" where
  "error_line p \<longleftrightarrow> take 7 (fst p) = ''[ERROR]''"

lemma no_error_printHex [simp]: "\<not> list_ex error_line (printHex c n)"
  by (auto simp: list_ex_iff printHex_def error_line_def hex_line_def Let_def)

lemma test_cbc_time_ok:
  assumes "test_cbc_time key iv junk t ((p, c, d), s) = Some (out, (p', c', d'), s')"
    and junk: "\<And>n. length (junk n) = n" and len: "length p = 256" "length c = 256" "length d = 256"
  shows "\<not> list_ex error_line out \<and> length p' = 256 \<and> length c' = 256 \<and> length d' = 256"
proof -
  obtain r s1 where r: "penglai_read_rand (junk 1) 1 s = Some (r, s1)"
    using assms(1) by (auto simp: test_cbc_time_def split: option.splits)
  define n where "n = unat (r ! 0)"
  have n: "uint (r ! 0) = int n" "n < 256" using unsigned_less [of "r ! 0"] by (simp_all add: n_def)
  have pos: "0 < n"
    using read_rand_bytes [of "junk 1" 1 s r s1] r junk [of 1] by (auto simp: n_def word_le_nat_alt)
  obtain s2 where q: "penglai_read_rand p (int n) s1 = Some (p', s2)"
    using assms(1) r by (auto simp: test_cbc_time_def n(1) Let_def split: option.splits prod.splits)
  have p': "length p' = 256" using read_rand_bytes [OF q pos] n(2) len(1) by simp
  let ?m = "CBC_CipherText_Len (int n)"
  have m: "?m \<le> 256" using n(2) by (simp add: CBC_CipherText_Len_pos)
  have e: "SM4_CBC_Encrypt key iv p' (int n) c ?m = (?m, c')" and
    dec: "SM4_CBC_Decrypt key iv c' ?m d (int n) = (int n, take n p' @ drop n d)" "d' = take n p' @ drop n d"
    using assms(1) r q len p' n(2) m
      sm4.cbc_encrypt_eq [of "int n" ?m c key iv p'] sm4.cbc_decrypt_encrypt [of "int n" p' ?m c d key iv]
    by (auto simp: test_cbc_time_def n(1) Let_def SM4_CBC_Encrypt_def SM4_CBC_Decrypt_def split: prod.splits)
  have c': "length c' = 256" using SM4_CBC_Encrypt_length [OF _ _ _ e] m len(2) by simp
  have "filter (\<lambda>i. p' ! i \<noteq> d' ! i) [0..<n] = []"
    using p' n(2) by (simp add: dec(2) filter_empty_conv nth_append)
  then have "\<not> list_ex error_line out"
    using assms(1) r q e dec
    by (auto simp: test_cbc_time_def n(1) Let_def error_line_def newline_def)
  then show ?thesis using p' c' dec(2) n(2) len(3) by simp
qed

lemma test_cbc_times_ok:
  assumes "test_cbc_times key iv junk ts ((p, c, d), s) = Some (out, s')"
    and "\<And>n. length (junk n) = n" and "length p = 256" "length c = 256" "length d = 256"
  shows "\<not> list_ex error_line out"
  using assms
proof (induction ts arbitrary: p c d s out)
  case (Cons t ts)
  from Cons.prems(1) obtain out1 p' c' d' s1 out2
    where t: "test_cbc_time key iv junk t ((p, c, d), s) = Some (out1, (p', c', d'), s1)"
      and ts: "test_cbc_times key iv junk ts ((p', c', d'), s1) = Some (out2, s')" and out: "out = out1 @ out2"
    by (auto split: option.splits)
  show ?case
    using test_cbc_time_ok [OF t Cons.prems(2-5)] Cons.IH [OF ts Cons.prems(2)] out by simp
qed simp

lemma test_sm4_cbc_ok:
  assumes "\<And>n. length (junk n) = n" and "test_sm4_cbc junk s = Some (out, ret, s')"
  shows "ret = 0 \<and> \<not> list_ex error_line out"
proof -
  obtain key iv s2 out1 out2 where ts: "test_cbc_times key iv junk [0..<10] ((junk 256, junk 256, junk 256), s2) = Some (out2, s')"
    and out: "out = out1 @ out2" "ret = 0" "out1 = say (newline ''random initialized IV :'') @ printHex iv 16 @
      say (newline ''random initialized Key :'') @ printHex key 16"
    using assms(2) by (auto simp: test_sm4_cbc_def Let_def split: option.splits)
  show ?thesis using test_cbc_times_ok [OF ts assms(1)] assms(1) out
    by (simp add: say_def error_line_def newline_def)
qed

subsection \<open>The OCB mode\<close>

definition ocb_key :: bytes where
  "ocb_key = [0x98, 0xff, 0xf6, 0x7e, 0x64, 0xe4, 0x6b, 0xe5, 0xee, 0x2e, 0x05, 0xcc, 0x9a, 0xf6, 0xd0, 0x12]"

definition ocb_IV :: bytes where
  "ocb_IV = [0x2d, 0xfb, 0x42, 0x9a, 0x48, 0x69, 0x7c, 0x34, 0x00, 0x6d, 0xa8, 0x86, 0x9a, 0xf6, 0xd0, 0x12]"

definition ocb_plaintext :: bytes where
  "ocb_plaintext = [
    0x29, 0xb9, 0x1b, 0x4a, 0x68, 0xa9, 0x9f, 0x97, 0xc4, 0x1c, 0x75, 0x08, 0xf1, 0x7a, 0x5c, 0x7a,
    0x7a, 0xfc, 0x9e, 0x1a, 0xca, 0x83, 0xe1, 0x29, 0xb0, 0x85, 0xbd, 0x63, 0x7f, 0xf6, 0x7c, 0x01,
    0x29, 0xb9, 0x1b, 0x4a, 0x68, 0xa9, 0x9f, 0x97, 0xc4, 0x1c]"

definition ocb_add_data :: bytes where
  "ocb_add_data = [
    0xa0, 0xca, 0x58, 0x61, 0xc0, 0x22, 0x6c, 0x5b, 0x5a, 0x65, 0x14, 0xc8, 0x2b, 0x77, 0x81, 0x5a,
    0x9e, 0x0e, 0xb3, 0x59, 0xd0, 0xd4, 0x6d, 0x03, 0x33, 0xc3, 0xf2, 0xba, 0xe1, 0x4d, 0xa0, 0xc4,
    0x03, 0x30, 0xc0, 0x02, 0x16, 0xb4, 0xaa, 0x64, 0xb7, 0xc1, 0xed, 0xb8, 0x71, 0xc3, 0x28, 0xf6]"

definition authenticated :: "int \<Rightarrow> prints" where
  "authenticated ret =
     (if ret = 0 then say (newline ''Success Authenticate'') else say (newline ''Fail Assenticate''))"

definition test_sm4_ocb :: "(nat \<Rightarrow> bytes) \<Rightarrow> fault list \<times> prints \<times> int" where
  "test_sm4_ocb junk =
     (let plaintextLen = 42;
          ciphertextLen = plaintextLen;
          out1 = say (newline ''plaintext :'') @ printHex ocb_plaintext (int plaintextLen);
          (fs1, cipher_with_tag) = SM4_OCB_Encrypt ocb_key ocb_IV 16 ocb_plaintext plaintextLen ocb_add_data (3 * 16)
             (junk (ciphertextLen + 16));
          out2 = say (newline ''ciphertext with tag :'') @ printHex cipher_with_tag (int (ciphertextLen + 16));
          (fs2, ret, decrypttext) = SM4_OCB_Decrypt ocb_key ocb_IV 16 cipher_with_tag ciphertextLen ocb_add_data (3 * 16)
             (junk plaintextLen);
          out3 = authenticated ret @ say (newline ''decrypttext :'') @ printHex decrypttext (int plaintextLen) @
             map (\<lambda>i. (newline ''Decrypt diff at %d'', [VNum (of_nat i)]))
               (filter (\<lambda>i. decrypttext ! i \<noteq> ocb_plaintext ! i) [0..<plaintextLen]);
          demaged_ciphertext = cipher_with_tag[5 := of_char CHR ''a''];
          (fs3, ret, decrypttext) = SM4_OCB_Decrypt ocb_key ocb_IV 16 demaged_ciphertext ciphertextLen ocb_add_data (3 * 16)
             decrypttext;
          out4 = say (newline ''What if change ciphertext?'') @ authenticated ret;
          demaged_add_data = ocb_add_data[3 := 0x58];
          (fs4, ret, decrypttext) = SM4_OCB_Decrypt ocb_key ocb_IV 16 cipher_with_tag ciphertextLen demaged_add_data (3 * 16)
             decrypttext;
          out5 = say (newline ''What if change add_data?'') @ authenticated ret;
          (fs5, ret, decrypttext) = SM4_OCB_Decrypt ocb_key ocb_IV 16 demaged_ciphertext ciphertextLen demaged_add_data (3 * 16)
             decrypttext;
          out6 = say (newline ''What if change ciphertext and add_data?'') @ authenticated ret
      in (fs1 @ fs2 @ fs3 @ fs4 @ fs5, out1 @ out2 @ out3 @ out4 @ out5 @ out6, 0))"

lemma test_sm4_ocb_ok:
  assumes "\<And>n. length (junk n) = n"
  shows "\<exists>out out'. test_sm4_ocb junk = (replicate 5 (OutOfBounds ''offset'' (-1)),
    out @ say (newline ''Success Authenticate'') @ say (newline ''decrypttext :'') @ printHex ocb_plaintext 42 @
      say (newline ''What if change ciphertext?'') @ out', 0)"
proof -
  let ?f = "[OutOfBounds ''offset'' (-1)]"
  obtain c where e: "SM4_OCB_Encrypt ocb_key ocb_IV 16 ocb_plaintext 42 ocb_add_data 48 (junk 58) = (?f, c)"
    using ocb_faults(1) [of 16 "SM4_Encrypt ocb_key" ocb_IV ocb_plaintext 42 ocb_add_data 48 "junk 58"]
    by (cases "SM4_OCB_Encrypt ocb_key ocb_IV 16 ocb_plaintext 42 ocb_add_data 48 (junk 58)") (simp add: SM4_OCB_Encrypt_def)
  have len: "length ocb_plaintext = 42" by (simp add: ocb_plaintext_def)
  have d: "SM4_OCB_Decrypt ocb_key ocb_IV 16 c 42 ocb_add_data 48 (junk 42) = (?f, 0, ocb_plaintext)"
    using sm4.ocb_decrypt_encrypt [of 42 ocb_plaintext "junk 58" "junk 42" ocb_key ocb_IV 16 ocb_add_data 48] e
      assms [of 42] assms [of 58] len by (simp add: SM4_OCB_Encrypt_def SM4_OCB_Decrypt_def)
  have any: "\<exists>ret pt. SM4_OCB_Decrypt ocb_key ocb_IV 16 c' 42 ad 48 out = (?f, ret, pt)" for c' ad out
    using ocb_faults(2) [of 16 "SM4_Encrypt ocb_key" "SM4_Decrypt ocb_key" ocb_IV c' 42 ad 48 out]
    by (cases "SM4_OCB_Decrypt ocb_key ocb_IV 16 c' 42 ad 48 out") (simp add: SM4_OCB_Decrypt_def)
  obtain r3 p3 where d3: "SM4_OCB_Decrypt ocb_key ocb_IV 16 (c[5 := of_char CHR ''a'']) 42 ocb_add_data 48 ocb_plaintext = (?f, r3, p3)"
    using any by blast
  obtain r4 p4 where d4: "SM4_OCB_Decrypt ocb_key ocb_IV 16 c 42 (ocb_add_data[3 := 0x58]) 48 p3 = (?f, r4, p4)"
    using any by blast
  obtain r5 p5 where d5: "SM4_OCB_Decrypt ocb_key ocb_IV 16 (c[5 := of_char CHR ''a'']) 42 (ocb_add_data[3 := 0x58]) 48 p4 = (?f, r5, p5)"
    using any by blast
  have five: "replicate 5 x = [x, x, x, x, x]" for x :: fault by (simp add: eval_nat_numeral)
  have "authenticated 0 = say (newline ''Success Authenticate'')" by (simp add: authenticated_def)
  then show ?thesis
    unfolding test_sm4_ocb_def Let_def using e d d3 d4 d5
    by (intro exI [of _ "say (newline ''plaintext :'') @ printHex ocb_plaintext 42 @ say (newline ''ciphertext with tag :'') @ printHex c 58"]
          exI [of _ "authenticated r3 @ say (newline ''What if change add_data?'') @ authenticated r4 @
            say (newline ''What if change ciphertext and add_data?'') @ authenticated r5"]) (simp add: five)
qed

subsection \<open>Signatures\<close>

definition test_message :: bytes where
  "test_message = c_string ''message digest''"

text \<open>
  One signature and its verification in the inner loop, and the loops: a result other than 0
  ends the test. \<open>jk\<close> is what the arrays of the library held.
\<close>

definition sign_time ::
  "'p curve \<Rightarrow> sm2_junk \<Rightarrow> nat \<Rightarrow> nat \<Rightarrow> bytes \<Rightarrow> bytes \<Rightarrow> bytes \<Rightarrow> bytes \<Rightarrow> bytes \<Rightarrow> 'p sm2_state \<Rightarrow>
     fault + prints \<times> int \<times> bytes \<times> bytes \<times> 'p sm2_state" where
  "sign_time C jk i j dA xA yA r s st =
     (case SM2_Sign C jk test_message dA r s st of
        Inl f \<Rightarrow> Inl f
      | Inr (temp, r, s, st) \<Rightarrow>
          if temp \<noteq> 0
          then Inr ([(newline ''[ERROR] init_time %d, sign_time %d: SM2_Sign failed'', [VNum (of_nat i), VNum (of_nat j)])], temp, r, s, st)
          else (case SM2_Verify C jk test_message xA yA r s st of
                  Inl f \<Rightarrow> Inl f
                | Inr (temp, st) \<Rightarrow>
                    if temp \<noteq> 0
                    then Inr ([(newline ''[ERROR] init_time %d, sign_time %d: SM2_Verify failed'', [VNum (of_nat i), VNum (of_nat j)])], temp, r, s, st)
                    else Inr ([(''[TRACE] init_time %d, sign_time %d: SUCCESS'', [VNum (of_nat i), VNum (of_nat j)])], 0, r, s, st)))"

fun sign_times ::
  "'p curve \<Rightarrow> sm2_junk \<Rightarrow> nat \<Rightarrow> nat list \<Rightarrow> bytes \<Rightarrow> bytes \<Rightarrow> bytes \<Rightarrow> bytes \<Rightarrow> bytes \<Rightarrow> 'p sm2_state \<Rightarrow>
     fault + prints \<times> int \<times> bytes \<times> bytes \<times> 'p sm2_state" where
  "sign_times C jk i [] dA xA yA r s st = Inr ([], 0, r, s, st)"
| "sign_times C jk i (j # js) dA xA yA r s st =
     (case sign_time C jk i j dA xA yA r s st of
        Inl f \<Rightarrow> Inl f
      | Inr (out, temp, r, s, st) \<Rightarrow>
          if temp \<noteq> 0 then Inr (out, temp, r, s, st)
          else (case sign_times C jk i js dA xA yA r s st of
                  Inl f \<Rightarrow> Inl f
                | Inr (out', rest) \<Rightarrow> Inr (out @ out', rest)))"

fun init_times ::
  "'p curve \<Rightarrow> sm2_junk \<Rightarrow> nat list \<Rightarrow> bytes \<Rightarrow> bytes \<Rightarrow> bytes \<Rightarrow> bytes \<Rightarrow> bytes \<Rightarrow> 'p sm2_state \<Rightarrow> fault + prints \<times> int \<times> 'p sm2_state" where
  "init_times C jk [] dA xA yA r s st = Inr ([], 0, st)"
| "init_times C jk (i # is) dA xA yA r s st =
     (case SM2_KeyGeneration C dA xA yA st of
        Inl f \<Rightarrow> Inl f
      | Inr (temp, dA, xA, yA, st) \<Rightarrow>
          if temp \<noteq> 0 then Inr ([(newline ''[ERROR] init_time %d: SM2_KeyGeneration failed'', [VNum (of_nat i)])], temp, st)
          else let out = (newline ''[TRACE] init_time %d: random prikey:'', [VNum (of_nat i)]) # printHex dA 32
               in case sign_times C jk i [0..<10] dA xA yA r s st of
                    Inl f \<Rightarrow> Inl f
                  | Inr (out', temp, r, s, st) \<Rightarrow>
                      if temp \<noteq> 0 then Inr (out @ out', temp, st)
                      else (case init_times C jk is dA xA yA r s st of
                              Inl f \<Rightarrow> Inl f
                            | Inr (out'', rest) \<Rightarrow> Inr (out @ out' @ out'', rest)))"

definition test_random :: "'p curve \<Rightarrow> sm2_junk \<Rightarrow> (nat \<Rightarrow> bytes) \<Rightarrow> 'p sm2_state \<Rightarrow> fault + prints \<times> int \<times> 'p sm2_state" where
  "test_random C jk junk st = init_times C jk [0..<10] (junk 32) (junk 32) (junk 32) (junk 32) (junk 32) st"

text \<open>The comparison with OpenSSL, \<^verbatim>\<open>test_sm2.c\<close>.\<close>

definition openssl_dA :: bytes where
  "openssl_dA = [
    0x15, 0xea, 0x97, 0x3a, 0xd0, 0x4e, 0xcb, 0x28, 0x04, 0x06, 0xe2, 0x0a, 0x32, 0xf0, 0xcf, 0x51,
    0xf9, 0x21, 0x5a, 0x0f, 0x36, 0x60, 0x9a, 0x2b, 0x81, 0x2a, 0xcb, 0x7b, 0xb8, 0x89, 0x3d, 0xb1]"

definition openssl_message :: bytes where
  "openssl_message = [
    0x44, 0xcc, 0xcb, 0xdf, 0x1d, 0xfb, 0x04, 0x00, 0xf9, 0x0f, 0x38, 0xc6, 0x55, 0x7d, 0x15, 0xf5,
    0xcf, 0x2c, 0xd8, 0xd9, 0xc6, 0x6c, 0x81, 0x7b, 0xc3, 0x4a, 0x5b, 0x9e, 0xe3, 0xfd, 0xe1, 0xea]"

definition openssl_r :: bytes where
  "openssl_r = [
    0x14, 0x71, 0xB4, 0x0F, 0xB7, 0x71, 0xF7, 0xDF, 0xDA, 0xD4, 0x53, 0x1C, 0x53, 0xDE, 0xB5, 0xC3,
    0xAB, 0x1E, 0x6E, 0xF5, 0xE1, 0x0B, 0x89, 0x6E, 0xEB, 0x5F, 0x52, 0x7C, 0x92, 0x4F, 0xB8, 0x6C]"

definition openssl_s :: bytes where
  "openssl_s = [
    0x77, 0x7D, 0x5F, 0x91, 0x0E, 0xE3, 0xFA, 0x2A, 0xF4, 0x97, 0x81, 0x7A, 0xDB, 0xF5, 0x21, 0xA4,
    0xA6, 0x13, 0x8D, 0xF6, 0x58, 0x6E, 0x17, 0x53, 0x78, 0xC5, 0x09, 0x4E, 0xEC, 0xFB, 0x7E, 0x29]"

definition test_sm2 :: "'p curve \<Rightarrow> sm2_junk \<Rightarrow> (nat \<Rightarrow> bytes) \<Rightarrow> 'p sm2_state \<Rightarrow> fault + prints \<times> int \<times> 'p sm2_state" where
  "test_sm2 C jk junk st =
     (case SM2_SelfCheck C jk st of
        Inl f \<Rightarrow> Inl f
      | Inr (ret, st) \<Rightarrow>
          let out1 = [(newline ''result = %d'', [VNum (of_int ret)])] @
                (if ret \<noteq> 0 then say (newline ''fail selfcheck'') else [])
          in case SM2_make_pubkey C openssl_dA (junk 32) (junk 32) st of
               Inl f \<Rightarrow> Inl f
             | Inr (temp, xA, yA, st) \<Rightarrow>
                 if temp \<noteq> 0 then Inr (out1, temp, st)
                 else
                   let out2 = say (newline ''pubkey xA:'') @ printHex xA 32 @ say (CHR 0x0A # newline ''yA:'') @ printHex yA 32 @
                         say (CHR 0x0A # newline ''Check pub end'') @
                         [(newline ''hash_len: %d'', [VNum 32])] @ printHex openssl_message 32
                   in case SM2_Verify C jk openssl_message xA yA openssl_r openssl_s st of
                        Inl f \<Rightarrow> Inl f
                      | Inr (temp, st) \<Rightarrow>
                          Inr (out1 @ out2 @ say (newline (if temp \<noteq> 0 then ''Verify signature Fail'' else ''Verify successfully'')), 0, st))"

text \<open>
  What the SM2 test relies on beyond the laws of the curve: the coordinates of the base point
  give \<open>G\<close>, those of a valid public key give the key, coordinates are not negative, and \<open>n\<close>
  has no divisors.
\<close>

definition curve_ready :: "'p curve \<Rightarrow> 'p \<Rightarrow> bool" where
  "curve_ready C G \<longleftrightarrow> curve_laws C G \<and> epoint_set C (big_of SM2_Gx) (big_of SM2_Gy) = Some G \<and>
     (\<forall>P. 0 \<le> fst (epoint_get C P) \<and> 0 \<le> snd (epoint_get C P)) \<and>
     (\<forall>P. Test_PubKey C P = 0 \<longrightarrow> epoint_set C (fst (epoint_get C P)) (snd (epoint_get C P)) = Some P) \<and>
     (\<forall>d. 0 < d \<longrightarrow> d < big_n \<longrightarrow> coprime d big_n)"

definition verify_failed :: "string \<times> varg list \<Rightarrow> bool" where
  "verify_failed p \<longleftrightarrow> fst p = newline ''[ERROR] init_time %d, sign_time %d: SM2_Verify failed''"

lemma SM2_Sign_keeps:
  assumes "sm2_ready G s" and "SM2_Sign C jk m d R S s = Inr (i, R', S', s')" and "length R = 32" and "length S = 32"
  shows "sm2_ready G s' \<and> length R' = 32 \<and> length S' = 32"
proof -
  have g: "sm2_ready G s''" if "SM2_gen_random b s = Inr (b', s'')" for b b' s''
    using that assms(1) by (auto simp: SM2_gen_random_def sm2_ready_def split: option.splits)
  obtain j Px Py where pk: "SM2_make_pubkey C d (jk_x jk) (jk_y jk) s = Inr (j, Px, Py, s)"
    using make_pubkey_ready [OF assms(1), of C d "jk_x jk" "jk_y jk"] by (auto split: prod.splits)
  show ?thesis
    using assms(2-4) pk SM2_Init_ready [OF assms(1), of C]
    by (auto simp: SM2_Sign_def Let_def case_prod_beta dest: g split: sum.splits if_splits)
qed

text \<open>A key pair that \<open>SM2_KeyGeneration\<close> returned with success.\<close>

definition key_pair :: "'p curve \<Rightarrow> 'p \<Rightarrow> bytes \<Rightarrow> bytes \<Rightarrow> bytes \<Rightarrow> bool" where
  "key_pair C G d Px Py \<longleftrightarrow> length d = 32 \<and> length Px = 32 \<and> length Py = 32 \<and>
     1 \<le> big_of d \<and> big_of d \<le> big_n - 2 \<and> Test_PubKey C (ecurve_mult C (big_of d) G) = 0 \<and>
     (\<exists>x y. epoint_get C (ecurve_mult C (big_of d) G) = (x, y) \<and> Px = put_big x Px \<and> Py = put_big y Py)"

lemma sign_time_ok:
  assumes C: "curve_ready C G" and ready: "sm2_ready G st" and key: "key_pair C G d Px Py"
    and len: "length r = 32" "length s = 32" "length (jk_x jk) = 32" "length (jk_y jk) = 32" "length (md_buf (jk_md jk)) = 64"
    and run: "sign_time C jk i j d Px Py r s st = Inr (out, temp, r', s', st')"
  shows "\<not> list_ex verify_failed out \<and> sm2_ready G st' \<and> length r' = 32 \<and> length s' = 32"
proof -
  obtain t R S st1 where sign: "SM2_Sign C jk test_message d r s st = Inr (t, R, S, st1)"
    using run by (auto simp: sign_time_def split: sum.splits)
  note keeps = SM2_Sign_keeps [OF ready sign len(1,2)]
  show ?thesis
  proof (cases "t = 0")
    case False
    then show ?thesis using run sign keeps by (auto simp: sign_time_def verify_failed_def newline_def)
  next
    case True
    obtain x y where xy: "epoint_get C (ecurve_mult C (big_of d) G) = (x, y)" "Px = put_big x Px" "Py = put_big y Py"
      using key by (auto simp: key_pair_def)
    have "big_p < 256 ^ 32" unfolding big_p_def by (rule big_of_less)
    moreover have "x < big_p" "y < big_p" using key xy(1) by (auto simp: key_pair_def Test_PubKey_def sm2_errors split: if_splits)
    ultimately have small: "x < 256 ^ 32" "y < 256 ^ 32" by linarith+
    have pk: "SM2_make_pubkey C d Px Py st = Inr (0, Px, Py, st)"
      using make_pubkey_ready [OF ready, of C d Px Py] xy key by (simp add: key_pair_def)
    have "SM2_Verify C jk test_message Px Py R S st1 = Inr (0, st1)"
      using C key xy(1) small keeps len ready True sign pk
      by (intro sign_verifies [where G = G and s = st and d = d and x = x and y = y and R = r and S = s])
        (auto simp: curve_ready_def key_pair_def dest: spec [of _ "ecurve_mult C (big_of d) G"])
    then show ?thesis using run sign keeps True by (auto simp: sign_time_def verify_failed_def newline_def)
  qed
qed

lemma sign_times_ok:
  assumes C: "curve_ready C G" and key: "key_pair C G d Px Py"
    and jk: "length (jk_x jk) = 32" "length (jk_y jk) = 32" "length (md_buf (jk_md jk)) = 64"
    and "sm2_ready G st" and "length r = 32" and "length s = 32"
    and "sign_times C jk i js d Px Py r s st = Inr (out, temp, r', s', st')"
  shows "\<not> list_ex verify_failed out \<and> sm2_ready G st' \<and> length r' = 32 \<and> length s' = 32"
  using assms(6-9)
proof (induction js arbitrary: r s st out)
  case (Cons j js)
  from Cons.prems(4) obtain out1 t r1 s1 st1 where t: "sign_time C jk i j d Px Py r s st = Inr (out1, t, r1, s1, st1)"
    by (auto split: sum.splits)
  note ok = sign_time_ok [OF C Cons.prems(1) key Cons.prems(2,3) jk t]
  show ?case
  proof (cases "t = 0")
    case True
    then obtain out2 where ts: "sign_times C jk i js d Px Py r1 s1 st1 = Inr (out2, temp, r', s', st')" "out = out1 @ out2"
      using Cons.prems(4) t by (auto split: sum.splits prod.splits)
    then show ?thesis using Cons.IH [OF _ _ _ ts(1)] ok by auto
  next
    case False
    then show ?thesis using Cons.prems(4) t ok by auto
  qed
qed auto

lemma key_generation_pair:
  assumes C: "curve_ready C G" and ready: "sm2_ready G st" and len: "length d = 32" "length Px = 32" "length Py = 32"
    and gen: "SM2_KeyGeneration C d Px Py st = Inr (i, d', Px', Py', st')"
  shows "sm2_ready G st' \<and> length d' = 32 \<and> length Px' = 32 \<and> length Py' = 32 \<and> (i = 0 \<longrightarrow> key_pair C G d' Px' Py')"
proof -
  obtain s1 where pr: "SM2_make_prikey d st = Inr (d', s1)" and pu: "SM2_make_pubkey C d' Px Py s1 = Inr (i, Px', Py', st')"
    using gen SM2_Init_ready [OF ready, of C] by (auto simp: SM2_KeyGeneration_def split: sum.splits)
  have s1: "sm2_ready G s1" and d': "length d' = 32"
    using pr ready len(1) by (auto simp: SM2_make_prikey_def sm2_ready_def SM2_NUMWORD_def split: option.splits)
  obtain x y where xy: "epoint_get C (ecurve_mult C (big_of d') G) = (x, y)" by fastforce
  have pos: "0 \<le> x" "0 \<le> y" "\<forall>P. 0 \<le> fst (epoint_get C P)" using C xy by (auto simp: curve_ready_def dest: spec [of _ "ecurve_mult C (big_of d') G"])
  have p: "st' = s1" "i = Test_PubKey C (ecurve_mult C (big_of d') G)" "Px' = put_big x Px" "Py' = put_big y Py"
    using pu make_pubkey_ready [OF s1, of C d' Px Py] xy by auto
  have "key_pair C G d' Px' Py'" if "i = 0"
  proof -
    have range: "1 \<le> big_of d'" "big_of d' \<le> big_n - 2" "x < big_p" "y < big_p"
      using generated_keys [OF ready len(1) pos(3) gen [unfolded that]] xy by auto
    have "x < 256 ^ 32" "y < 256 ^ 32" using range(3,4) big_of_less [of SM2_p] unfolding big_p_def by linarith+
    then have "put_big x Px' = Px'" "put_big y Py' = Py'" using put_big_any pos p by metis+
    then show ?thesis using range xy d' len p that by (auto simp: key_pair_def)
  qed
  then show ?thesis using s1 d' p len by simp
qed

lemma init_times_ok:
  assumes C: "curve_ready C G"
    and jk: "length (jk_x jk) = 32" "length (jk_y jk) = 32" "length (md_buf (jk_md jk)) = 64"
    and "sm2_ready G st" and "length d = 32" "length Px = 32" "length Py = 32" "length r = 32" "length s = 32"
    and "init_times C jk is d Px Py r s st = Inr (out, temp, st')"
  shows "\<not> list_ex verify_failed out"
  using assms(5-11)
proof (induction "is" arbitrary: d Px Py r s st out)
  case (Cons i "is")
  from Cons.prems(7) obtain t d1 x1 y1 st1 where g: "SM2_KeyGeneration C d Px Py st = Inr (t, d1, x1, y1, st1)"
    by (auto split: sum.splits)
  note key = key_generation_pair [OF C Cons.prems(1-4) g]
  have hex: "\<not> list_ex verify_failed (printHex c n)" for c n
    by (auto simp: list_ex_iff printHex_def verify_failed_def hex_line_def newline_def Let_def)
  have trace: "\<not> verify_failed (newline ''[TRACE] init_time %d: random prikey:'', a)" for a
    by (simp add: verify_failed_def newline_def)
  show ?case
  proof (cases "t = 0")
    case True
    obtain out1 u r1 s1 st2 where ts: "sign_times C jk i [0..<10] d1 x1 y1 r s st1 = Inr (out1, u, r1, s1, st2)"
      using Cons.prems(7) g True by (auto simp: Let_def split: sum.splits)
    note ok = sign_times_ok [OF C _ jk _ Cons.prems(5,6) ts]
    show ?thesis
    proof (cases "u = 0")
      case u: True
      then obtain out2 where rest: "init_times C jk is d1 x1 y1 r1 s1 st2 = Inr (out2, temp, st')"
        and out: "out = (newline ''[TRACE] init_time %d: random prikey:'', [VNum (of_nat i)]) # printHex d1 32 @ out1 @ out2"
        using Cons.prems(7) g True ts by (auto simp: Let_def split: sum.splits prod.splits)
      show ?thesis using Cons.IH [OF _ _ _ _ _ _ rest] ok key True hex trace out by auto
    next
      case False
      then show ?thesis using Cons.prems(7) g True ts ok key hex trace by (auto simp: Let_def)
    qed
  next
    case False
    then show ?thesis using Cons.prems(7) g by (auto simp: verify_failed_def newline_def)
  qed
qed simp

lemma SM2_Init_makes_ready:
  assumes "epoint_set C (big_of SM2_Gx) (big_of SM2_Gy) = Some G" and "\<not> success_excuted s" and "SM2_Init C s = Inr (0, s')"
  shows "sm2_ready G s' \<and> SM2_KeyGeneration C d Px Py s = SM2_KeyGeneration C d Px Py s'"
proof -
  have "sm2_ready G s'"
    using assms by (auto simp: SM2_Init_def sm2_ready_def sm2_errors Let_def split: sum.splits option.splits if_splits)
  then show ?thesis using SM2_Init_ready [of G s' C] assms(3) by (simp add: SM2_KeyGeneration_def)
qed

text \<open>
  From the start of the enclave, in which the library is not initialised: whatever the test
  prints, it is never that a signature did not verify.
\<close>

lemma test_random_ok:
  assumes C: "curve_ready C G" and fresh: "\<not> success_excuted st" and junk: "\<And>n. length (junk n) = n"
    and jk: "length (jk_x jk) = 32" "length (jk_y jk) = 32" "length (md_buf (jk_md jk)) = 64"
    and run: "test_random C jk junk st = Inr (out, ret, st')"
  shows "\<not> list_ex verify_failed out"
proof -
  have ten: "[0..<10] = (0 :: nat) # [1..<10]" by (simp add: upt_rec)
  obtain i s1 where init: "SM2_Init C st = Inr (i, s1)"
    using run by (auto simp: test_random_def ten SM2_KeyGeneration_def split: sum.splits)
  show ?thesis
  proof (cases "i = 0")
    case True
    then have ready: "sm2_ready G s1" "SM2_KeyGeneration C d Px Py st = SM2_KeyGeneration C d Px Py s1" for d Px Py
      using SM2_Init_makes_ready [OF _ fresh] init C by (auto simp: curve_ready_def)
    then have "init_times C jk [0..<10] (junk 32) (junk 32) (junk 32) (junk 32) (junk 32) s1 = Inr (out, ret, st')"
      using run by (simp add: test_random_def ten del: upt_conv_4)
    then show ?thesis using init_times_ok [OF C jk ready(1)] junk by blast
  next
    case False
    then show ?thesis
      using run init by (auto simp: test_random_def ten SM2_KeyGeneration_def verify_failed_def newline_def)
  qed
qed

subsection \<open>Small enclaves\<close>

text \<open>\<^verbatim>\<open>demo/prime\<close>: the divisors of \<open>num\<close> other than 1 and itself are counted.\<close>

definition prime_loop :: "int \<Rightarrow> int" where
  "prime_loop num =
     (let count = fold (\<lambda>i count. if crem num i = 0 then count + 1 else count) [2..num - 1] (0 :: u64)
      in sint (ucast count :: u32))"

definition prime :: "prints \<times> u64" where
  "prime = ([(newline ''%s is running'', [VStr ''Prime''])], of_int (prime_loop 111))"

lemma fold_count:
  "fold (\<lambda>i count. if P i then count + 1 else count) xs (c :: u64) = c + of_nat (length (filter P xs))"
  by (induction xs arbitrary: c) (simp_all add: add.assoc)

lemma sint_small_count:
  assumes "n < 2 ^ 31"
  shows "sint (ucast (of_nat n :: u64) :: u32) = int n"
proof -
  have "n < 2 ^ 64" using assms by simp
  then have "uint (of_nat n :: u64) = int n" by (simp add: unsigned_of_nat take_bit_nat_eq_self)
  then have "(ucast (of_nat n :: u64) :: u32) = of_int (int n)" by (simp add: ucast_eq)
  moreover have "signed_take_bit (LENGTH(32) - 1) (int n) = int n"
    using assms by (intro signed_take_bit_int_eq_self) simp_all
  ultimately show ?thesis by (simp only: sint_sbintrunc')
qed

lemma prime_loop_divisors:
  assumes "0 \<le> num" and "num < 2 ^ 31"
  shows "prime_loop num = int (card {i. 2 \<le> i \<and> i < num \<and> i dvd num})"
proof -
  let ?xs = "filter (\<lambda>i. crem num i = 0) [2..num - 1]"
  have set: "set ?xs = {i. 2 \<le> i \<and> i < num \<and> i dvd num}"
    using assms(1) by (auto simp: crem_pos)
  have "length ?xs = card (set ?xs)" by (rule distinct_card [symmetric]) simp
  then have c: "length ?xs = card {i. 2 \<le> i \<and> i < num \<and> i dvd num}" by (simp only: set)
  have "length ?xs \<le> length [2..num - 1]" by (rule length_filter_le)
  then have "length ?xs \<le> nat num" using assms(1) by simp
  then have n: "length ?xs < 2 ^ 31" using assms by simp
  then have "sint (ucast (of_nat (length ?xs) :: u64) :: u32) = int (length ?xs)" by (rule sint_small_count)
  then show ?thesis by (simp only: prime_loop_def Let_def fold_count add_0 c)
qed

text \<open>\<^verbatim>\<open>demo/count\<close>: the loop \<open>while (count--) ret++\<close> ends.\<close>

function count_loop :: "nat \<Rightarrow> u64 \<Rightarrow> u64" where
  "count_loop c ret = (if c = 0 then ret else count_loop (c - 1) (ret + 1))"
  by pat_completeness auto
termination by (relation "measure fst") auto

declare count_loop.simps [simp del]

definition count_main :: u64 where
  "count_main = count_loop 100000000 0"

lemma count_loop_eq: "count_loop c ret = ret + of_nat c"
  by (induction c arbitrary: ret) (simp_all add: count_loop.simps [of 0] count_loop.simps [of "Suc _"])

text \<open>\<^verbatim>\<open>demo/deadloop\<close>: the loop never gets to its return.\<close>

partial_function (option) deadloop :: "u32 \<Rightarrow> u64 option" where
  "deadloop count = deadloop (count + 1)"

lemma deadloop_never: "deadloop count = None"
proof (rule ccontr)
  assume "deadloop count \<noteq> None"
  then obtain r where "deadloop count = Some r" by auto
  from deadloop.raw_induct [of "\<lambda>_ _. False", OF _ this] show False by blast
qed

text \<open>
  \<^verbatim>\<open>demo/hello_arguement\<close>: the enclave copies a record of three numbers and a name out of the
  untrusted memory, adds the first two numbers and copies it back.
\<close>

definition word_at :: "bytes \<Rightarrow> nat \<Rightarrow> u32" where
  "word_at m i = be32 (m ! (i + 3)) (m ! (i + 2)) (m ! (i + 1)) (m ! i)"

definition word_out :: "u32 \<Rightarrow> bytes" where
  "word_out w = [byte_at 0 w, byte_at 8 w, byte_at 16 w, byte_at 24 w]"

definition hello_name :: bytes where
  "hello_name = c_string ''Alice'' @ [0x27] @ c_string ''s enclave'' @ [0]"

definition hello_main :: "bytes \<Rightarrow> prints \<times> bytes \<times> u64" where
  "hello_main untrusted =
     (let out = say (newline ''Penglai Enclave is running'')
      in if (32 :: nat) > 8 * 1024 then (out @ say (newline ''Size to copy is larger than untrusted mem size ''), untrusted, 0)
         else
           let A = word_at untrusted 0;
               B = word_at untrusted 4;
               out = out @ [(newline ''argue A: %d, argue B:%d'', [VNum (scast A), VNum (scast B)])];
               C = A + B;
               enclave_name = buf_write (replicate 20 0) 0 hello_name
           in (out, buf_write untrusted 0 (word_out A @ word_out B @ word_out C @ enclave_name), 0))"

text \<open>\<open>run_enclave_with_args\<close> of the host: what it passes, and its check afterwards.\<close>

definition hello_request :: "(nat \<Rightarrow> bytes) \<Rightarrow> bytes" where
  "hello_request junk = buf_write (junk 8192) 0 (word_out 1 @ word_out 2 @ junk 4 @ junk 20)"

definition hello_check :: "bytes \<Rightarrow> prints" where
  "hello_check m =
     [(newline ''1 + 2 = %d'', [VNum (scast (word_at m 8))])] @
     (if word_at m 8 \<noteq> 3 then say (newline ''something wrong with args'') else []) @
     [(newline ''enclave's name: %s'', [VStr (map (\<lambda>b. char_of (unat b)) (takeWhile (\<lambda>b. b \<noteq> 0) (drop 12 m)))])]"

lemma word_out_in: "length pre = i \<Longrightarrow> word_at (pre @ word_out w @ rest) i = w"
  by (simp add: word_at_def word_out_def nth_append)

lemma hello_adds:
  assumes "\<And>n. length (junk n) = n"
  shows "hello_check (fst (snd (hello_main (hello_request junk)))) =
    [(newline ''1 + 2 = %d'', [VNum 3]), (newline ''enclave's name: %s'', [VStr ''Alice's enclave''])]"
proof -
  let ?m = "hello_request junk"
  have m: "?m = word_out 1 @ word_out 2 @ junk 4 @ junk 20 @ drop 32 (junk 8192)"
    using assms by (simp add: hello_request_def buf_write_0 word_out_def)
  have ab: "word_at ?m 0 = 1" "word_at ?m 4 = 2"
    using word_out_in [of "[]" 0 1] word_out_in [of "word_out 1" 4 2] by (simp_all add: m word_out_def)
  have out: "fst (snd (hello_main ?m)) = word_out 1 @ word_out 2 @ word_out 3 @ hello_name @ replicate 4 0 @ drop 32 ?m"
    by (simp add: hello_main_def Let_def ab buf_write_0 word_out_def hello_name_def c_string_def)
  have c: "word_at (fst (snd (hello_main ?m))) 8 = 3"
    using word_out_in [of "word_out 1 @ word_out 2" 8 3] by (simp add: out word_out_def)
  have "takeWhile (\<lambda>b. b \<noteq> 0) (drop 12 (fst (snd (hello_main ?m)))) = c_string ''Alice's enclave''"
    by (simp add: out word_out_def hello_name_def c_string_def)
  then show ?thesis by (simp add: hello_check_def c c_string_def char_of_eq_iff)
qed

subsection \<open>Properties\<close>

text \<open>
  C22: The sealing test passes: when the monitor delivers keys, it prints its success and
  returns 0, whatever random bytes are drawn and whatever the arrays on its stack held. The
  16 bytes of nonce that sealing uses make both directions store at \<open>offset[-1]\<close>.
\<close>

theorem seal_test_passes:
  assumes "\<And>salt n m. fst (DeriveSealingKey get_key salt n m) = 0"
    and "\<And>g n. length (fst (rand g n)) = n" and "\<And>n. length (junk n) = n"
  shows "\<exists>out. seal_test_func get_key rand g junk =
    Inr (replicate 2 (OutOfBounds ''offset'' (-1)), out @ say (newline ''penglai_seal test finished --- ALL TEST SUCCESS!''), 0)"
  using assms by (rule seal_test_ok)

theorem seal_test_passes_witness:
  "\<exists>out. seal_test_func example_key Seal.example_rand 7 (\<lambda>n. replicate n 0xAA) =
    Inr (replicate 2 (OutOfBounds ''offset'' (-1)), out @ say (newline ''penglai_seal test finished --- ALL TEST SUCCESS!''), 0)"
  by (rule seal_test_passes) (simp_all add: example_key_def DeriveSealingKey_def Seal.example_rand_def)

text \<open>
  C23: The test of the OCB mode: the first decryption authenticates, shows the plaintext again
  and reports no difference, and the test returns 0. Every one of its five calls stores at
  \<open>offset[-1]\<close>, as it uses a nonce of 16 bytes.
\<close>

theorem ocb_test_passes:
  assumes "\<And>n. length (junk n) = n"
  shows "\<exists>out out'. test_sm4_ocb junk = (replicate 5 (OutOfBounds ''offset'' (-1)),
    out @ say (newline ''Success Authenticate'') @ say (newline ''decrypttext :'') @ printHex ocb_plaintext 42 @
      say (newline ''What if change ciphertext?'') @ out', 0)"
  using assms by (rule test_sm4_ocb_ok)

theorem ocb_test_passes_witness:
  "\<exists>out out'. test_sm4_ocb (\<lambda>n. replicate n 0) = (replicate 5 (OutOfBounds ''offset'' (-1)),
    out @ say (newline ''Success Authenticate'') @ say (newline ''decrypttext :'') @ printHex ocb_plaintext 42 @
      say (newline ''What if change ciphertext?'') @ out', 0)"
  by (rule ocb_test_passes) simp

end
