(* ===== verification/Spec2Isabelle.thy ===== *)
theory Spec2Isabelle
  imports SM4_CBC SM2_Tests Miracl_Mul Seal Print Driver_Init Host AES Test_Enclaves
begin

text \<open>
  A verification development for the Penglai enclave SDK and its kernel driver
  (\<^verbatim>\<open>src/br2-external/package/penglai-sdk/src\<close>, called SDK below, and
  \<^verbatim>\<open>src/br2-external/package/penglai-driver/src\<close>, called driver).

  \<^bold>\<open>The program.\<close> An application on the host links the host library (\<^verbatim>\<open>SDK/lib/host\<close>), which
  reads an ELF file, chooses parameters and calls the device of the driver through \<open>ioctl\<close>.
  The driver asks the secure monitor for memory, builds a page table for the enclave in it,
  loads the file, and then runs the enclave in a loop that serves its timer interrupts and
  calls to the outside. Inside, the enclave uses the application library (\<^verbatim>\<open>SDK/lib/app\<close>) to
  print through a buffer shared with the kernel and to seal data under a key of the monitor,
  and the cryptographic library (\<^verbatim>\<open>SDK/lib/gm\<close>) for SM3, SM4, SM2 and random numbers.

  \<^bold>\<open>Theories, in the order of the layers.\<close>
  \<^item> \<open>Prelude\<close>: machine words, big-endian packing, C division, writes into buffers, faults.
  \<^item> \<open>SM4\<close>, \<open>SM4_CBC\<close>, \<open>SM4_OCB\<close> (\<^verbatim>\<open>SM4.c\<close>, \<^verbatim>\<open>SM4_Enc.c\<close>): the block cipher, a locale for a
    block cipher that the modes rely on, and the modes. Round trips, the condition under which
    the authenticated mode accepts, the doubling in the field, and exactly which stores leave
    their arrays.
  \<^item> \<open>SM3\<close> (\<^verbatim>\<open>SM3.c\<close>): the hash with its streaming interface equals the standard's.
  \<^item> \<open>Random_Numbers\<close> (\<^verbatim>\<open>Random.c\<close>; \<open>brand\<close>, \<open>irand\<close>, \<open>bigrand\<close>, \<open>bigdig\<close> of MIRACL): what is
    written, when it returns. \<open>SM2\<close> (\<^verbatim>\<open>SM2_sv.c\<close>): keys, signatures and verification; a
    signature verifies, and the seed has no effect.
  \<^item> \<open>Miracl_Core\<close>, \<open>Miracl_Add\<close>, \<open>Miracl_Mul\<close> (\<^verbatim>\<open>mrcore.c\<close>, \<^verbatim>\<open>mrarth0.c\<close>, \<open>multiply\<close> of \<^verbatim>\<open>mrarth2.c\<close>): the
    numbers of MIRACL as arrays of words in a store, where operands and result may be the same
    number. Zero, copies, conversion, signs, shifts by words, comparison, addition, subtraction and
    multiplication refine the operations on integers, keep the normal form of numbers and stay
    inside the arrays; what does not fit is an error of the library. A locale states what a
    caller relies on. \<open>SM2_Tests\<close>: the tests of \<^verbatim>\<open>SM2_sv.c\<close> on such numbers agree with the
    tests on integers in \<open>SM2\<close>.
  \<^item> \<open>Seal\<close> (\<^verbatim>\<open>seal.c\<close>) and \<open>Print\<close> (\<^verbatim>\<open>print.c\<close>): sealing over the authenticated mode, and the
    formatter, which refines a function from format and arguments to text.
  \<^item> \<open>Kernel_Mem\<close>, \<open>Enclave_Page\<close> (\<^verbatim>\<open>penglai-enclave-page.c\<close>): a byte-addressed memory, the free
    list and three-level page tables. The invariant relates the table in memory to the walk of
    the hardware; allocation and mapping change one translation.
  \<^item> \<open>Elf_Loader\<close> (\<^verbatim>\<open>penglai-enclave-elfloader.c\<close>): loading, against an image of pages.
  \<^item> \<open>Enclave\<close> (\<^verbatim>\<open>penglai-enclave.c\<close>): enclave objects over a kernel state with live objects,
    locks, the table of identifiers and a list of faults; creation, its failures, destruction.
  \<^item> \<open>Enclave_Ioctl\<close> (\<^verbatim>\<open>penglai-enclave-ioctl.c\<close>): all handlers. Every call refines a step of an
    abstract table, and an invariant holds in all states that calls can reach.
  \<^item> \<open>Driver_Init\<close> (\<^verbatim>\<open>penglai-enclave-driver.c\<close>): loading and unloading the module.
  \<^item> \<open>Host\<close> (\<^verbatim>\<open>lib/host/src\<close>): the host library over a locale that says what it relies on of
    the device; the handlers of the driver interpret it.
  \<^item> \<open>AES_Tables\<close>, \<open>AES\<close> (\<^verbatim>\<open>demo/aes/aes.c\<close>): the AES enclave. The contents of its tables, both key
    schedules, and that encryption and decryption by tables are those of FIPS 197; three more
    interpretations of the locale for a block cipher, one for each key size.
  \<^item> \<open>Test_Enclaves\<close> (\<^verbatim>\<open>demo/seal_data\<close>, \<^verbatim>\<open>demo/gm_test_enclaves\<close> and smaller ones): programs that
    put the libraries together. The sealing test and the OCB test pass, the CBC test reports
    no difference, and the SM2 test never sees a signature refused.

  \<^bold>\<open>State.\<close> A C struct is a record with the fields of the source; memory objects of the kernel
  are found by address; big numbers are integers in \<open>SM2\<close>, which the theories on MIRACL justify
  but for division; buffers are lists of bytes. What code
  outside the repository does (system calls, the kernel's allocators, the copies from and to
  the user, the secure monitor) is a parameter, and what a theorem needs of it a named
  hypothesis: \<open>sbi_keeps_view\<close>, \<open>idr_alloc_fresh\<close>, \<open>allocates\<close>, \<open>monitor_answers\<close>. The curve
  arithmetic of the vendored MIRACL library is a parameter too, with the group laws as
  \<open>curve_laws\<close>. Errors are values: codes as the source returns them, and faults for what C
  leaves undefined (stores outside arrays, uses of freed objects, double frees, waiting for a
  lock that is held, and loops that do not end).

  \<^bold>\<open>Bounds and fuel.\<close> Loops over pages have the fuel \<open>2 ^ 52\<close>, the number of pages of the
  address space; the loader theorems show that it suffices. The loops that wait for the monitor
  (\<open>extend_loop\<close>, \<open>run_loop\<close>) take their fuel from the services and record the fault
  \<open>Diverges\<close> when it is used up; what is proved of the lock and the table holds for any fuel.
  Loops that draw random numbers are partial functions; \<open>draw_until_iff\<close> says when they return.
  The loop over the rounds of AES has no fuel: it is \<open>None\<close> for a count that is not positive, and
  \<open>aes_encrypt_fips\<close> shows that it returns for the counts of the key schedules. The loops of
  MIRACL are total functions; \<open>None\<close> is an access outside the store or an array.

  \<^bold>\<open>Not modelled.\<close> The vendored C library musl, of which the sources only call functions on
  strings and memory, and the rest of MIRACL, division, modular inverses and curves above all; the demonstrations that start enclaves from
  threads of a host, the SHA-512 benchmark and the one that exercises \<open>malloc\<close>; inline assembly; kernel patches, board configurations and build files; interleaving
  of handlers of several threads (each handler runs as one step, and the big lock is checked to
  be free before and after). The two vectors of the self
  test of SM3 are not evaluated.
\<close>

end
